(* ===== verification/Prelude.thy ===== *)
theory Prelude
  imports Main "HOL-Library.AList" "HOL-Library.Multiset" "HOL-Library.Sublist"
    "HOL-Library.List_Lexorder" "HOL-Library.Char_ord" "HOL-Library.Product_Lexorder"
begin

text \<open>
  Shared vocabulary of the development: Go maps as association lists with distinct keys
  (the list order is the iteration order, which Go leaves open), the append-to-a-map-entry
  idiom \<^verbatim>\<open>m[k] = append(m[k], v)\<close>, the sets \<^verbatim>\<open>map[T]struct{}\<close> as lists without
  repetition, and \<^verbatim>\<open>sort.Slice\<close> with the contract its comparison function has to meet.
\<close>

named_theorems gomap_simps \<open>lookups in updated Go maps\<close>

subsection \<open>Go maps\<close>

type_synonym ('k, 'v) gomap = "('k \<times> 'v) list"

abbreviation gm_get :: "('k, 'v) gomap \<Rightarrow> 'k \<Rightarrow> 'v option" where
  "gm_get \<equiv> map_of"

abbreviation gm_put :: "'k \<Rightarrow> 'v \<Rightarrow> ('k, 'v) gomap \<Rightarrow> ('k, 'v) gomap" where
  "gm_put \<equiv> AList.update"

abbreviation gm_delete :: "'k \<Rightarrow> ('k, 'v) gomap \<Rightarrow> ('k, 'v) gomap" where
  "gm_delete \<equiv> AList.delete"

abbreviation gm_keys :: "('k, 'v) gomap \<Rightarrow> 'k list" where
  "gm_keys m \<equiv> map fst m"

abbreviation gm_has :: "('k, 'v) gomap \<Rightarrow> 'k \<Rightarrow> bool" where
  "gm_has m k \<equiv> gm_get m k \<noteq> None"

text \<open>Reading a missing key gives the zero value of the element type.\<close>

definition gm_or :: "'v \<Rightarrow> ('k, 'v) gomap \<Rightarrow> 'k \<Rightarrow> 'v" where
  "gm_or z m k = (case gm_get m k of None \<Rightarrow> z | Some v \<Rightarrow> v)"

definition gomap_ok :: "('k, 'v) gomap \<Rightarrow> bool" where
  "gomap_ok m \<longleftrightarrow> distinct (gm_keys m)"

lemma gm_get_put [gomap_simps]: "gm_get (gm_put k v m) k' = (if k' = k then Some v else gm_get m k')"
  by (simp add: update_conv')

lemma gm_keys_put: "gm_keys (gm_put k v m) = (if k \<in> set (gm_keys m) then gm_keys m else gm_keys m @ [k])"
  by (induction m) auto

lemma gomap_ok_put [intro, simp]: "gomap_ok m \<Longrightarrow> gomap_ok (gm_put k v m)"
  by (simp add: gomap_ok_def distinct_update)

lemma gomap_ok_Nil [simp]: "gomap_ok []"
  by (simp add: gomap_ok_def)

lemma gomap_ok_delete: "gomap_ok m \<Longrightarrow> gomap_ok (gm_delete k m)"
  unfolding gomap_ok_def by (rule distinct_delete)

lemma gm_or_put [gomap_simps]: "gm_or z (gm_put k v m) k' = (if k' = k then v else gm_or z m k')"
  by (simp add: gm_or_def gomap_simps)

lemma gm_or_Nil [simp]: "gm_or z [] k = z"
  by (simp add: gm_or_def)

lemma gm_has_keys: "gm_has m k \<longleftrightarrow> k \<in> set (gm_keys m)"
  by (simp add: map_of_eq_None_iff del: not_None_eq)

lemma gomap_ok_in: "gomap_ok m \<Longrightarrow> (k, v) \<in> set m \<longleftrightarrow> gm_get m k = Some v"
  by (auto simp: gomap_ok_def)

text \<open>The interface of a Go map, with the laws every client of one uses.\<close>

locale finite_map =
  fixes get :: "'m \<Rightarrow> 'k \<Rightarrow> 'v option"
    and put :: "'k \<Rightarrow> 'v \<Rightarrow> 'm \<Rightarrow> 'm"
    and del :: "'k \<Rightarrow> 'm \<Rightarrow> 'm"
    and keys :: "'m \<Rightarrow> 'k list"
    and empty :: 'm
    and ok :: "'m \<Rightarrow> bool"
  assumes get_empty: "get empty k = None"
    and get_put: "get (put k v m) k' = (if k' = k then Some v else get m k')"
    and get_del: "get (del k m) k' = (if k' = k then None else get m k')"
    and keys_get: "set (keys m) = {k. get m k \<noteq> None}"
    and ok_empty: "ok empty"
    and ok_put: "ok m \<Longrightarrow> ok (put k v m)"
    and ok_del: "ok m \<Longrightarrow> ok (del k m)"
    and ok_keys: "ok m \<Longrightarrow> distinct (keys m)"
begin

lemma get_fold_put:
  "get (fold (\<lambda>x. put (f x) (g x)) xs m) k =
     (case filter (\<lambda>x. f x = k) (rev xs) of [] \<Rightarrow> get m k | x # _ \<Rightarrow> Some (g x))"
  by (induction xs rule: rev_induct) (auto simp: get_put split: list.splits)

lemma ok_fold_put: "ok m \<Longrightarrow> ok (fold (\<lambda>x. put (f x) (g x)) xs m)"
  by (induction xs arbitrary: m) (auto intro: ok_put)

lemma get_fold_put_miss: "k \<notin> f ` set xs \<Longrightarrow> get (fold (\<lambda>x. put (f x) (g x)) xs m) k = get m k"
  by (induction xs arbitrary: m) (auto simp: get_put)

lemma get_fold_put_hit:
  assumes "x \<in> set xs" and "\<And>y. y \<in> set xs \<Longrightarrow> f y = f x \<Longrightarrow> g y = g x"
  shows "get (fold (\<lambda>x. put (f x) (g x)) xs m) (f x) = Some (g x)"
  using assms
proof (induction xs rule: rev_induct)
  case (snoc y ys)
  show ?case
  proof (cases "f y = f x")
    case True
    then have "g y = g x" using snoc.prems(2) [of y] by simp
    with True show ?thesis by (simp add: get_put)
  next
    case False
    then have "x \<in> set ys" using snoc.prems(1) by auto
    moreover have "\<And>z. z \<in> set ys \<Longrightarrow> f z = f x \<Longrightarrow> g z = g x" using snoc.prems(2) by simp
    ultimately have "get (fold (\<lambda>x. put (f x) (g x)) ys m) (f x) = Some (g x)" by (rule snoc.IH)
    with False show ?thesis by (simp add: get_put)
  qed
qed simp

lemma get_fold_put_all:
  assumes "\<And>x. x \<in> set xs \<Longrightarrow> g x = h (f x)"
  shows "get (fold (\<lambda>x. put (f x) (g x)) xs m) k = (if k \<in> f ` set xs then Some (h k) else get m k)"
  using assms by (induction xs rule: rev_induct) (auto simp: get_put)

end

interpretation gm: finite_map gm_get gm_put gm_delete gm_keys "[]" gomap_ok
proof (unfold_locales, goal_cases)
  case (2 k v m k')
  show ?case by (rule gm_get_put)
next
  case (3 k m k')
  show ?case by (simp add: delete_conv')
next
  case (4 m)
  show ?case using gm_has_keys [of m] by blast
next
  case (6 m k v)
  then show ?case by (rule gomap_ok_put)
next
  case (7 m k)
  then show ?case by (rule gomap_ok_delete)
next
  case (8 m)
  then show ?case unfolding gomap_ok_def .
next
  case (1 k)
  show ?case by simp
next
  case 5
  show ?case by (rule gomap_ok_Nil)
qed

subsection \<open>Appending to a map entry\<close>

definition multi_put :: "'k \<Rightarrow> 'v \<Rightarrow> ('k, 'v list) gomap \<Rightarrow> ('k, 'v list) gomap" where
  "multi_put k v m = gm_put k (gm_or [] m k @ [v]) m"

lemma multi_put_get [gomap_simps]:
  "gm_or [] (multi_put k v m) k' = (if k' = k then gm_or [] m k @ [v] else gm_or [] m k')"
  by (simp add: multi_put_def gomap_simps)

lemma multi_put_has [gomap_simps]: "gm_has (multi_put k v m) k' \<longleftrightarrow> k' = k \<or> gm_has m k'"
  by (simp add: multi_put_def gomap_simps)

lemma multi_put_keys:
  "gm_keys (multi_put k v m) = (if k \<in> set (gm_keys m) then gm_keys m else gm_keys m @ [k])"
  by (simp add: multi_put_def gm_keys_put)

lemma gomap_ok_multi_put [intro, simp]: "gomap_ok m \<Longrightarrow> gomap_ok (multi_put k v m)"
  by (simp add: multi_put_def)

definition group_on :: "('a \<Rightarrow> 'k) \<Rightarrow> ('a \<Rightarrow> 'v) \<Rightarrow> 'a list \<Rightarrow> ('k, 'v list) gomap" where
  "group_on key val xs = fold (\<lambda>x. multi_put (key x) (val x)) xs []"

lemma group_on_or: "gm_or [] (group_on key val xs) k = map val (filter (\<lambda>x. key x = k) xs)"
  unfolding group_on_def by (induction xs rule: rev_induct) (auto simp: gomap_simps)

lemma group_on_has: "gm_has (group_on key val xs) k \<longleftrightarrow> k \<in> key ` set xs"
  unfolding group_on_def
  by (induction xs rule: rev_induct) (auto simp: gomap_simps simp del: not_None_eq)

lemma group_on_keys_set: "set (gm_keys (group_on key val xs)) = key ` set xs"
  using group_on_has [of key val xs] gm_has_keys [of "group_on key val xs"] by blast

lemma group_on_ok: "gomap_ok (group_on key val xs)"
  unfolding group_on_def by (induction xs rule: rev_induct) auto

lemma group_on_distinct: "distinct (gm_keys (group_on key val xs))"
  using group_on_ok by (simp add: gomap_ok_def)

lemma group_on_get:
  "gm_get (group_on key val xs) k =
     (if k \<in> key ` set xs then Some (map val (filter (\<lambda>x. key x = k) xs)) else None)"
  using group_on_or [of key val xs k] group_on_has [of key val xs k]
  by (cases "gm_get (group_on key val xs) k") (auto simp: gm_or_def)

subsection \<open>sort.Slice and its comparison functions\<close>

fun insert_by :: "('a \<Rightarrow> 'a \<Rightarrow> bool) \<Rightarrow> 'a \<Rightarrow> 'a list \<Rightarrow> 'a list" where
  "insert_by lt x [] = [x]"
| "insert_by lt x (y # ys) = (if lt y x then y # insert_by lt x ys else x # y # ys)"

definition sort_slice :: "('a \<Rightarrow> 'a \<Rightarrow> bool) \<Rightarrow> 'a list \<Rightarrow> 'a list" where
  "sort_slice lt xs = foldr (insert_by lt) xs []"

lemma mset_insert_by: "mset (insert_by lt x ys) = add_mset x (mset ys)"
  by (induction ys) auto

lemma mset_sort_slice [simp]: "mset (sort_slice lt xs) = mset xs"
  unfolding sort_slice_def by (induction xs) (simp_all add: mset_insert_by)

lemma set_sort_slice [simp]: "set (sort_slice lt xs) = set xs"
  by (metis mset_sort_slice set_mset_mset)

lemma length_sort_slice [simp]: "length (sort_slice lt xs) = length xs"
  by (metis mset_sort_slice size_mset)

lemma sort_slice_Nil [simp]: "sort_slice lt [] = []"
  by (simp add: sort_slice_def)

lemma sort_slice_eq_Nil [simp]: "sort_slice lt xs = [] \<longleftrightarrow> xs = []"
  by (metis length_0_conv length_sort_slice)

lemma distinct_map_sort_slice [simp]: "distinct (map f (sort_slice lt xs)) = distinct (map f xs)"
  by (metis mset_map mset_sort_slice mset_eq_imp_distinct_iff)

lemma distinct_sort_slice [simp]: "distinct (sort_slice lt xs) = distinct xs"
  using distinct_map_sort_slice [of "\<lambda>x. x" lt xs] by simp

text \<open>
  \<^verbatim>\<open>sort.Slice\<close> asks its comparison function to be a strict weak order and promises a sorted
  permutation, not a stable one. Where no two elements tie, that fixes the result.
\<close>

locale slice_order =
  fixes lt :: "'a \<Rightarrow> 'a \<Rightarrow> bool"
  assumes less_irrefl: "\<not> lt x x"
    and less_trans: "lt x y \<Longrightarrow> lt y z \<Longrightarrow> lt x z"
    and less_split: "lt x z \<Longrightarrow> lt x y \<or> lt y z"
begin

lemma less_asym: "lt x y \<Longrightarrow> \<not> lt y x"
  using less_irrefl less_trans by blast

lemma sorted_insert_by:
  "sorted_wrt (\<lambda>a b. \<not> lt b a) ys \<Longrightarrow> sorted_wrt (\<lambda>a b. \<not> lt b a) (insert_by lt x ys)"
proof (induction ys)
  case (Cons y ys)
  have "set (insert_by lt x ys) = insert x (set ys)"
    by (metis mset_insert_by set_mset_add_mset_insert set_mset_mset)
  with Cons show ?case by (auto dest: less_asym) (metis less_split)
qed simp

lemma sorted_sort_slice: "sorted_wrt (\<lambda>a b. \<not> lt b a) (sort_slice lt xs)"
  unfolding sort_slice_def by (induction xs) (simp_all add: sorted_insert_by)

lemma sort_slice_head_least:
  assumes "sort_slice lt xs = y # ys" and "x \<in> set xs"
  shows "\<not> lt x y"
proof -
  have "x \<in> set (y # ys)" using assms by (metis set_sort_slice)
  moreover have "sorted_wrt (\<lambda>a b. \<not> lt b a) (y # ys)"
    using sorted_sort_slice [of xs] assms(1) by simp
  ultimately show ?thesis using less_irrefl by auto
qed

lemma sorted_unique:
  assumes "mset xs = mset ys"
    and "sorted_wrt (\<lambda>a b. \<not> lt b a) xs" and "sorted_wrt (\<lambda>a b. \<not> lt b a) ys"
    and "\<And>a b. a \<in> set xs \<Longrightarrow> b \<in> set xs \<Longrightarrow> \<not> lt a b \<Longrightarrow> \<not> lt b a \<Longrightarrow> a = b"
  shows "xs = ys"
  using assms
proof (induction xs arbitrary: ys)
  case (Cons x xs)
  then obtain y zs where ys: "ys = y # zs" by (cases ys) auto
  have "x \<in> set ys" "y \<in> set (x # xs)"
    using Cons.prems(1) ys by (metis list.set_intros(1) set_mset_mset)+
  then have "x = y" using Cons.prems ys by auto
  with Cons ys show ?case by auto
qed simp

end

locale key_order =
  fixes key :: "'a \<Rightarrow> 'k :: linorder"
    and lt :: "'a \<Rightarrow> 'a \<Rightarrow> bool"
  assumes less_key: "lt x y \<longleftrightarrow> key x < key y"
begin

lemma insert_by_insort: "insert_by lt x ys = insort_key key x ys"
  by (induction ys) (auto simp: less_key not_less)

lemma sort_slice_sort_key: "sort_slice lt xs = sort_key key xs"
  by (simp add: sort_slice_def sort_key_def insert_by_insort fun_eq_iff cong: foldr_cong)

lemma sorted_keys: "sorted (map key (sort_slice lt xs))"
  by (simp add: sort_slice_sort_key)

lemma strictly_sorted_keys: "distinct (map key xs) \<Longrightarrow> sorted_wrt (<) (map key (sort_slice lt xs))"
  by (simp add: strict_sorted_iff sorted_keys)

end

sublocale key_order \<subseteq> slice_order lt
  by unfold_locales (auto simp: less_key)

subsection \<open>Sets of strings\<close>

definition sort_strings :: "string list \<Rightarrow> string list" where
  "sort_strings = sort_slice (<)"

interpretation strings: key_order "\<lambda>s :: string. s" "(<)"
  by unfold_locales simp

lemma sort_strings_sort: "sort_strings xs = sort xs"
  by (simp add: sort_strings_def strings.sort_slice_sort_key)

lemma set_sort_strings [simp]: "set (sort_strings xs) = set xs"
  by (simp add: sort_strings_def)

lemma distinct_sort_strings [simp]: "distinct (sort_strings xs) = distinct xs"
  by (simp add: sort_strings_sort)

lemma sort_strings_eqI:
  "set xs = set ys \<Longrightarrow> distinct xs \<Longrightarrow> distinct ys \<Longrightarrow> sort_strings xs = sort_strings ys"
  by (simp add: sort_strings_sort sorted_distinct_set_unique)

subsection \<open>Lists\<close>

lemma filter_eq_single:
  assumes "distinct xs" and "x \<in> set xs" and "\<And>y. y \<in> set xs \<Longrightarrow> P y \<longleftrightarrow> y = x"
  shows "filter P xs = [x]"
proof -
  obtain as bs where xs: "xs = as @ x # bs" using assms(2) by (meson split_list)
  then have "filter P as = []" "filter P bs = []"
    using assms(1,3) by (auto simp: filter_empty_conv)
  with xs assms(2,3) show ?thesis by simp
qed

lemma mset_concat_group:
  assumes "distinct ks" and "key ` set xs \<subseteq> set ks"
  shows "mset (concat (map (\<lambda>k. filter (\<lambda>x. key x = k) xs) ks)) = mset xs"
  using assms
proof (induction ks arbitrary: xs)
  case (Cons k ks)
  let ?rest = "filter (\<lambda>x. key x \<noteq> k) xs"
  have "map (\<lambda>k. filter (\<lambda>x. key x = k) xs) ks = map (\<lambda>k. filter (\<lambda>x. key x = k) ?rest) ks"
    using Cons.prems(1) by (auto intro!: filter_cong)
  moreover have "mset (concat (map (\<lambda>k. filter (\<lambda>x. key x = k) ?rest) ks)) = mset ?rest"
    using Cons.prems by (intro Cons.IH) auto
  ultimately have "mset (concat (map (\<lambda>k. filter (\<lambda>x. key x = k) xs) ks)) = mset ?rest"
    by (simp only:)
  then show ?case using multiset_partition [of "mset xs" "\<lambda>x. key x = k"] by simp
qed simp

lemma mset_map_split:
  "mset xs = mset ys + mset zs \<Longrightarrow> mset (map f xs) = mset (map f ys) + mset (map f zs)"
  by (metis image_mset_union mset_map)

lemma mset_concat_cong:
  "(\<And>x. x \<in> set xs \<Longrightarrow> mset (f x) = mset (g x)) \<Longrightarrow> mset (concat (map f xs)) = mset (concat (map g xs))"
  by (induction xs) auto

lemma distinct_concat_map:
  assumes "distinct xs" and "\<And>x. x \<in> set xs \<Longrightarrow> distinct (f x)"
    and "\<And>x y h. x \<in> set xs \<Longrightarrow> y \<in> set xs \<Longrightarrow> h \<in> set (f x) \<Longrightarrow> h \<in> set (f y) \<Longrightarrow> x = y"
  shows "distinct (concat (map f xs))"
  using assms
proof (induction xs)
  case (Cons x xs)
  have "set (f x) \<inter> set (concat (map f xs)) = {}"
    using Cons.prems(1) Cons.prems(3) [of x] by fastforce
  moreover have "distinct (concat (map f xs))"
    using Cons.prems by (intro Cons.IH) auto
  ultimately show ?case using Cons.prems(2) by simp
qed simp

lemma distinct_concat_unique:
  "distinct (concat (map f xs)) \<Longrightarrow> x \<in> set xs \<Longrightarrow> y \<in> set xs \<Longrightarrow> h \<in> set (f x) \<Longrightarrow> h \<in> set (f y) \<Longrightarrow> x = y"
  by (induction xs) fastforce+

end
