(* ===== verification/GoText.thy ===== *)
theory GoText
  imports Prelude
begin

text \<open>
  The functions of Go's \<^verbatim>\<open>strings\<close>, \<^verbatim>\<open>strconv\<close>, \<^verbatim>\<open>regexp\<close> and \<^verbatim>\<open>net/http\<close> packages the
  program calls. A Go string is a sequence of bytes, an Isabelle \<^typ>\<open>string\<close> too. Case
  folding, letters, digits and white space are those of ASCII; bytes from 128 on are no
  letters, digits or spaces and are their own lower case. Kubernetes names, DNS hostnames
  and the keywords and numbers compared by the program lie in that fragment.
\<close>

named_theorems text_simps \<open>characters of transformed strings\<close>

subsection \<open>Characters\<close>

definition code :: "char \<Rightarrow> nat" where
  "code c = of_char c"

definition is_space :: "char \<Rightarrow> bool" where
  "is_space c \<longleftrightarrow> code c \<in> {9, 10, 11, 12, 13, 32}"

definition is_upper :: "char \<Rightarrow> bool" where
  "is_upper c \<longleftrightarrow> 65 \<le> code c \<and> code c \<le> 90"

definition is_lower :: "char \<Rightarrow> bool" where
  "is_lower c \<longleftrightarrow> 97 \<le> code c \<and> code c \<le> 122"

definition is_letter :: "char \<Rightarrow> bool" where
  "is_letter c \<longleftrightarrow> is_upper c \<or> is_lower c"

definition is_digit :: "char \<Rightarrow> bool" where
  "is_digit c \<longleftrightarrow> 48 \<le> code c \<and> code c \<le> 57"

definition lower_char :: "char \<Rightarrow> char" where
  "lower_char c = (if is_upper c then char_of (code c + 32) else c)"

definition upper_char :: "char \<Rightarrow> char" where
  "upper_char c = (if is_lower c then char_of (code c - 32) else c)"

lemma code_char_of [simp]: "n < 256 \<Longrightarrow> code (char_of n) = n"
  by (simp add: code_def)

lemma code_less [simp]: "code c < 256"
  by (simp add: code_def)

lemma code_inject [simp]: "code c = code d \<longleftrightarrow> c = d"
  by (simp add: code_def)

lemma lower_char_not_upper [simp]: "\<not> is_upper (lower_char c)"
  by (auto simp: lower_char_def is_upper_def)

lemma lower_char_id: "\<not> is_upper c \<Longrightarrow> lower_char c = c"
  by (simp add: lower_char_def)

lemma lower_char_idem [simp]: "lower_char (lower_char c) = lower_char c"
  by (rule lower_char_id) simp

lemma lower_char_letter: "is_letter (lower_char c) \<longleftrightarrow> is_letter c"
  by (auto simp: lower_char_def is_letter_def is_upper_def is_lower_def)

lemma lower_char_digit: "is_digit (lower_char c) \<longleftrightarrow> is_digit c"
  by (auto simp: lower_char_def is_digit_def is_upper_def)

lemma lower_char_space [simp]: "is_space (lower_char c) \<longleftrightarrow> is_space c"
  by (auto simp: lower_char_def is_space_def is_upper_def)

lemma lower_char_eq:
  assumes "\<not> is_letter d"
  shows "lower_char c = d \<longleftrightarrow> c = d"
proof (cases "is_upper c")
  case True
  then have "is_lower (lower_char c)" by (auto simp: lower_char_def is_upper_def is_lower_def)
  with True assms show ?thesis by (auto simp: is_letter_def)
qed (simp add: lower_char_id)

subsection \<open>strings\<close>

definition trim_left_where :: "(char \<Rightarrow> bool) \<Rightarrow> string \<Rightarrow> string" where
  "trim_left_where p s = dropWhile p s"

definition trim_right_where :: "(char \<Rightarrow> bool) \<Rightarrow> string \<Rightarrow> string" where
  "trim_right_where p s = rev (dropWhile p (rev s))"

definition trim_where :: "(char \<Rightarrow> bool) \<Rightarrow> string \<Rightarrow> string" where
  "trim_where p s = trim_right_where p (trim_left_where p s)"

definition trim_space :: "string \<Rightarrow> string" where
  "trim_space = trim_where is_space"

definition to_lower :: "string \<Rightarrow> string" where
  "to_lower s = map lower_char s"

definition to_upper :: "string \<Rightarrow> string" where
  "to_upper s = map upper_char s"

abbreviation has_prefix :: "string \<Rightarrow> string \<Rightarrow> bool" where
  "has_prefix s p \<equiv> prefix p s"

abbreviation has_suffix :: "string \<Rightarrow> string \<Rightarrow> bool" where
  "has_suffix s p \<equiv> suffix p s"

definition trim_prefix :: "string \<Rightarrow> string \<Rightarrow> string" where
  "trim_prefix s p = (if has_prefix s p then drop (length p) s else s)"

definition trim_suffix :: "string \<Rightarrow> string \<Rightarrow> string" where
  "trim_suffix s p = (if has_suffix s p then take (length s - length p) s else s)"

abbreviation contains :: "string \<Rightarrow> string \<Rightarrow> bool" where
  "contains s sub \<equiv> sublist sub s"

definition contains_any :: "string \<Rightarrow> string \<Rightarrow> bool" where
  "contains_any s chars \<longleftrightarrow> list_ex (\<lambda>c. c \<in> set chars) s"

definition index_byte :: "string \<Rightarrow> char \<Rightarrow> int" where
  "index_byte s c = (if c \<in> set s then int (length (takeWhile (\<lambda>x. x \<noteq> c) s)) else - 1)"

fun split_on :: "char \<Rightarrow> string \<Rightarrow> string list" where
  "split_on c [] = [[]]"
| "split_on c (x # xs) =
     (if x = c then [] # split_on c xs
      else (case split_on c xs of [] \<Rightarrow> [[x]] | y # ys \<Rightarrow> (x # y) # ys))"

text \<open>\<^verbatim>\<open>strings.SplitN(s, sep, 2)\<close> as a pair, when the separator occurs.\<close>

fun cut_at :: "char \<Rightarrow> string \<Rightarrow> (string \<times> string) option" where
  "cut_at c [] = None"
| "cut_at c (x # xs) =
     (if x = c then Some ([], xs)
      else (case cut_at c xs of None \<Rightarrow> None | Some (a, b) \<Rightarrow> Some (x # a, b)))"

fun join :: "string \<Rightarrow> string list \<Rightarrow> string" where
  "join sep [] = []"
| "join sep [x] = x"
| "join sep (x # y # ys) = x @ sep @ join sep (y # ys)"

definition replace_char :: "char \<Rightarrow> char \<Rightarrow> string \<Rightarrow> string" where
  "replace_char old new s = map (\<lambda>c. if c = old then new else c) s"

lemma set_trim_where: "set (trim_where p s) \<subseteq> set s"
  by (auto simp: trim_where_def trim_right_where_def trim_left_where_def dest!: set_dropWhileD)

lemma set_trim_space: "set (trim_space s) \<subseteq> set s"
  by (simp add: trim_space_def set_trim_where)

lemma trim_where_ends:
  assumes "trim_where p s \<noteq> []"
  shows "\<not> p (hd (trim_where p s))" "\<not> p (last (trim_where p s))"
proof -
  let ?t = "dropWhile p s"
  have nz: "dropWhile p (rev ?t) \<noteq> []"
    using assms by (simp add: trim_where_def trim_right_where_def trim_left_where_def)
  then show "\<not> p (last (trim_where p s))"
    by (simp add: trim_where_def trim_right_where_def trim_left_where_def last_rev hd_dropWhile)
  obtain zs where zs: "?t = rev (dropWhile p (rev ?t)) @ zs"
    by (metis rev_append rev_rev_ident takeWhile_dropWhile_id)
  then have "hd (rev (dropWhile p (rev ?t))) = hd ?t"
    using nz by (metis hd_append2 rev_is_Nil_conv)
  moreover have "?t \<noteq> []" using nz by (metis dropWhile.simps(1) rev.simps(1))
  ultimately show "\<not> p (hd (trim_where p s))"
    by (simp add: trim_where_def trim_right_where_def trim_left_where_def hd_dropWhile)
qed

lemma dropWhile_id: "xs = [] \<or> \<not> p (hd xs) \<Longrightarrow> dropWhile p xs = xs"
  by (cases xs) auto

lemma trim_where_id:
  assumes "s = [] \<or> (\<not> p (hd s) \<and> \<not> p (last s))"
  shows "trim_where p s = s"
proof -
  have "dropWhile p s = s" "dropWhile p (rev s) = rev s"
    using assms by (auto intro!: dropWhile_id simp: hd_rev)
  then show ?thesis by (simp add: trim_where_def trim_right_where_def trim_left_where_def)
qed

lemma trim_where_idem: "trim_where p (trim_where p s) = trim_where p s"
  by (rule trim_where_id) (use trim_where_ends [of p s] in blast)

lemma trim_space_idem [simp]: "trim_space (trim_space s) = trim_space s"
  by (simp add: trim_space_def trim_where_idem)

lemma trim_space_Nil [simp]: "trim_space [] = []"
  by (simp add: trim_space_def trim_where_id)

lemma to_lower_idem [simp]: "to_lower (to_lower s) = to_lower s"
  by (simp add: to_lower_def)

lemma to_lower_Nil [simp]: "to_lower s = [] \<longleftrightarrow> s = []" "to_lower [] = []"
  by (simp_all add: to_lower_def)

lemma trim_space_to_lower: "trim_space (to_lower s) = to_lower (trim_space s)"
  by (simp add: trim_space_def trim_where_def trim_right_where_def trim_left_where_def to_lower_def
      dropWhile_map rev_map comp_def)

lemma normal_idem [simp]: "to_lower (trim_space (to_lower (trim_space s))) = to_lower (trim_space s)"
  by (simp add: trim_space_to_lower)

lemma trim_where_all: "\<forall>c \<in> set s. p c \<Longrightarrow> trim_where p s = []"
  by (simp add: trim_where_def trim_left_where_def trim_right_where_def dropWhile_eq_Nil_conv [THEN iffD2])

lemma set_split_on: "t \<in> set (split_on c s) \<Longrightarrow> c \<notin> set t \<and> set t \<subseteq> set s"
proof (induction s arbitrary: t)
  case (Cons x s)
  have "split_on c s \<noteq> []" by (cases s) (auto split: list.splits)
  then obtain y ys where "split_on c s = y # ys" by (cases "split_on c s") auto
  with Cons.IH [of y] Cons.IH [of t] Cons.prems show ?case by (auto split: if_splits)
qed simp

lemma split_on_nonempty [simp]: "split_on c s \<noteq> []"
  by (induction s) (auto split: list.splits)

lemma join_split_on: "join [c] (split_on c s) = s"
proof (induction s)
  case (Cons x s)
  obtain y ys where "split_on c s = y # ys" by (cases "split_on c s") auto
  with Cons show ?case by (cases ys) auto
qed simp

lemma index_byte_drop:
  assumes "index_byte s c = int n"
  shows "n < length s" "drop n s = c # drop (Suc n) s" "take n s @ drop n s = s" "c \<notin> set (take n s)"
proof -
  have c: "c \<in> set s" and n: "n = length (takeWhile (\<lambda>x. x \<noteq> c) s)"
    using assms by (auto simp: index_byte_def split: if_splits)
  have d: "drop n s = dropWhile (\<lambda>x. x \<noteq> c) s" and t: "take n s = takeWhile (\<lambda>x. x \<noteq> c) s"
    unfolding n by (metis dropWhile_eq_drop) (metis takeWhile_eq_take)
  show len: "n < length s"
    unfolding n using c by (metis (mono_tags, lifting) length_takeWhile_le le_neq_implies_less
        takeWhile_eq_all_conv takeWhile_eq_take take_all_iff order_refl)
  have "s ! n = c" unfolding n using len n by (metis (full_types) nth_length_takeWhile)
  with len show "drop n s = c # drop (Suc n) s" by (metis Cons_nth_drop_Suc)
  show "c \<notin> set (take n s)" by (metis (mono_tags) set_takeWhileD t)
qed simp

lemma cut_at_Some: "cut_at c s = Some (a, b) \<longleftrightarrow> s = a @ c # b \<and> c \<notin> set a"
proof (induction s arbitrary: a)
  case (Cons x s)
  have "cut_at c (x # s) = Some (a, b) \<longleftrightarrow>
    (if x = c then a = [] \<and> b = s else \<exists>a'. a = x # a' \<and> cut_at c s = Some (a', b))"
    by (auto split: option.splits)
  also have "\<dots> \<longleftrightarrow> x # s = a @ c # b \<and> c \<notin> set a"
    unfolding Cons.IH by (cases a) auto
  finally show ?case .
qed simp

lemma cut_at_None: "cut_at c s = None \<longleftrightarrow> c \<notin> set s"
  by (induction s) (auto split: option.splits)

end
