(* ===== verification/Strconv.thy ===== *)
theory Strconv
  imports GoText
begin

text \<open>
  \<^verbatim>\<open>strconv\<close> and the parts of \<^verbatim>\<open>fmt\<close> and \<^verbatim>\<open>net/http\<close> the program uses: decimal
  numbers, booleans, the quoting of \<^verbatim>\<open>%q\<close>, hexadecimal output and canonical header keys.
\<close>

subsection \<open>Decimal numbers\<close>

definition digit_char :: "nat \<Rightarrow> char" where
  "digit_char d = char_of (48 + d)"

definition digit_val :: "char \<Rightarrow> nat" where
  "digit_val c = code c - 48"

fun itoa_nat :: "nat \<Rightarrow> string" where
  "itoa_nat n = (if n < 10 then [digit_char n] else itoa_nat (n div 10) @ [digit_char (n mod 10)])"

declare itoa_nat.simps [simp del]

definition itoa :: "int \<Rightarrow> string" where
  "itoa i = (if i < 0 then CHR ''-'' # itoa_nat (nat (- i)) else itoa_nat (nat i))"

definition nat_of_digits :: "string \<Rightarrow> nat" where
  "nat_of_digits s = foldl (\<lambda>n c. 10 * n + digit_val c) 0 s"

definition parse_uint :: "string \<Rightarrow> nat option" where
  "parse_uint s = (if s \<noteq> [] \<and> list_all is_digit s then Some (nat_of_digits s) else None)"

text \<open>\<^verbatim>\<open>strconv.ParseInt(s, 10, w)\<close>; every error is \<^term>\<open>None\<close>.\<close>

definition parse_int :: "nat \<Rightarrow> string \<Rightarrow> int option" where
  "parse_int w s =
     (let neg = (s \<noteq> [] \<and> hd s = CHR ''-'');
          body = (if s \<noteq> [] \<and> hd s \<in> {CHR ''-'', CHR ''+''} then tl s else s)
      in case parse_uint body of
           None \<Rightarrow> None
         | Some n \<Rightarrow>
             (let v = (if neg then - int n else int n)
              in if - (2 ^ (w - 1)) \<le> v \<and> v < 2 ^ (w - 1) then Some v else None))"

definition atoi :: "string \<Rightarrow> int option" where
  "atoi = parse_int 64"

definition parse_bool_go :: "string \<Rightarrow> bool option" where
  "parse_bool_go s =
     (if s \<in> {''1'', ''t'', ''T'', ''true'', ''TRUE'', ''True''} then Some True
      else if s \<in> {''0'', ''f'', ''F'', ''false'', ''FALSE'', ''False''} then Some False
      else None)"

lemma digit_char_props: "d < 10 \<Longrightarrow> is_digit (digit_char d) \<and> digit_val (digit_char d) = d"
  by (simp add: digit_char_def digit_val_def is_digit_def)

lemma itoa_nat_digits: "itoa_nat n \<noteq> [] \<and> list_all is_digit (itoa_nat n)"
proof (induction n rule: itoa_nat.induct)
  case (1 n)
  then show ?case
    by (subst (1 2) itoa_nat.simps) (simp add: digit_char_props)
qed

lemma nat_of_digits_snoc: "nat_of_digits (s @ [c]) = 10 * nat_of_digits s + digit_val c"
  by (simp add: nat_of_digits_def)

lemma nat_of_digits_itoa: "nat_of_digits (itoa_nat n) = n"
proof (induction n rule: itoa_nat.induct)
  case (1 n)
  show ?case
  proof (cases "n < 10")
    case True
    then show ?thesis
      by (subst itoa_nat.simps) (simp add: nat_of_digits_def digit_char_props)
  next
    case False
    with 1 show ?thesis
      by (subst itoa_nat.simps) (simp add: nat_of_digits_snoc digit_char_props)
  qed
qed

lemma parse_uint_itoa [simp]: "parse_uint (itoa_nat n) = Some n"
  by (simp add: parse_uint_def itoa_nat_digits nat_of_digits_itoa)

lemma itoa_nat_inject [simp]: "itoa_nat m = itoa_nat n \<longleftrightarrow> m = n"
  by (metis nat_of_digits_itoa)

lemma itoa_nat_no_sign: "hd (itoa_nat n) \<noteq> CHR ''-''" "hd (itoa_nat n) \<noteq> CHR ''+''"
proof -
  have "is_digit (hd (itoa_nat n))"
    using itoa_nat_digits [of n] by (cases "itoa_nat n") auto
  then show "hd (itoa_nat n) \<noteq> CHR ''-''" "hd (itoa_nat n) \<noteq> CHR ''+''"
    by (auto simp: is_digit_def code_def)
qed

lemma parse_int_itoa: "0 \<le> i \<Longrightarrow> i < 2 ^ (w - 1) \<Longrightarrow> parse_int w (itoa i) = Some i"
  using itoa_nat_no_sign [of "nat i"]
  by (auto simp: parse_int_def itoa_def Let_def intro: order_trans [of _ 0])

lemma atoi_itoa: "0 \<le> i \<Longrightarrow> i < 2 ^ 63 \<Longrightarrow> atoi (itoa i) = Some i"
  by (simp add: atoi_def parse_int_itoa)

lemma itoa_inject_nat [simp]: "itoa (int m) = itoa (int n) \<longleftrightarrow> m = n"
  by (simp add: itoa_def)

subsection \<open>Hexadecimal\<close>

definition hex_digit :: "nat \<Rightarrow> char" where
  "hex_digit d = (if d < 10 then char_of (48 + d) else char_of (87 + d))"

definition hex_encode :: "string \<Rightarrow> string" where
  "hex_encode s = concat (map (\<lambda>c. [hex_digit (code c div 16), hex_digit (code c mod 16)]) s)"

lemma length_hex_encode [simp]: "length (hex_encode s) = 2 * length s"
  by (induction s) (simp_all add: hex_encode_def)

lemma hex_digit_class: "d < 16 \<Longrightarrow> is_digit (hex_digit d) \<or> is_lower (hex_digit d)"
  by (auto simp: hex_digit_def is_digit_def is_lower_def)

lemma hex_encode_class:
  assumes "c \<in> set (hex_encode s)"
  shows "is_digit c \<or> is_lower c"
proof -
  obtain x where "c = hex_digit (code x div 16) \<or> c = hex_digit (code x mod 16)"
    using assms by (auto simp: hex_encode_def)
  moreover have "code x div 16 < 16" by (rule less_mult_imp_div_less) simp
  moreover have "code x mod 16 < 16" by simp
  ultimately show ?thesis by (metis hex_digit_class)
qed

subsection \<open>Quoting\<close>

definition quote_char :: "char \<Rightarrow> string" where
  "quote_char c =
     (let n = code c in
      if n = 34 \<or> n = 92 then [CHR 0x5C, c]
      else if n = 7 then CHR 0x5C # ''a'' else if n = 8 then CHR 0x5C # ''b''
      else if n = 12 then CHR 0x5C # ''f'' else if n = 10 then CHR 0x5C # ''n''
      else if n = 13 then CHR 0x5C # ''r'' else if n = 9 then CHR 0x5C # ''t''
      else if n = 11 then CHR 0x5C # ''v''
      else if n < 32 \<or> n = 127 then CHR 0x5C # CHR ''x'' # hex_encode [c]
      else [c])"

definition quote :: "string \<Rightarrow> string" where
  "quote s = [CHR 0x22] @ concat (map quote_char s) @ [CHR 0x22]"

subsection \<open>Header keys\<close>

definition header_field_byte :: "char \<Rightarrow> bool" where
  "header_field_byte c \<longleftrightarrow> is_letter c \<or> is_digit c \<or>
     code c \<in> {33, 35, 36, 37, 38, 39, 42, 43, 45, 46, 94, 95, 96, 124, 126}"

fun canonical_from :: "bool \<Rightarrow> string \<Rightarrow> string" where
  "canonical_from up [] = []"
| "canonical_from up (c # cs) =
     (if up then upper_char c else lower_char c) # canonical_from (c = CHR ''-'') cs"

definition canonical_header_key :: "string \<Rightarrow> string" where
  "canonical_header_key s = (if list_all header_field_byte s then canonical_from True s else s)"

lemma canonical_from_length [simp]: "length (canonical_from up s) = length s"
  by (induction s arbitrary: up) auto

lemma canonical_header_key_empty [simp]: "canonical_header_key s = [] \<longleftrightarrow> s = []"
  by (metis canonical_from_length canonical_header_key_def length_0_conv)

end
