(* ===== verification/KubeTypes.thy ===== *)
theory KubeTypes
  imports Strconv
begin

text \<open>
  The fields of the Kubernetes, Gateway API and NGINX Gateway Fabric objects the program
  reads or writes. A Go pointer is an \<^typ>\<open>'a option\<close>, a string-typed enumeration a
  datatype of the values the program distinguishes; the constant \<^verbatim>\<open>TypeMeta\<close> of an object
  is its record type. Labels and annotations are Go maps.
\<close>

subsection \<open>Names and metadata\<close>

record nsname =
  nn_namespace :: string
  nn_name :: string

text \<open>\<^verbatim>\<open>types.NamespacedName.String\<close>.\<close>

definition nn_string :: "nsname \<Rightarrow> string" where
  "nn_string n = nn_namespace n @ ''/'' @ nn_name n"

abbreviation nsname :: "string \<Rightarrow> string \<Rightarrow> nsname" where
  "nsname ns n \<equiv> \<lparr>nn_namespace = ns, nn_name = n\<rparr>"

lemma nsname_eta [simp]: "nsname (nn_namespace s) (nn_name s) = s"
  by (cases s) simp

lemma nn_string_inject:
  assumes "CHR ''/'' \<notin> set (nn_namespace a)" and "CHR ''/'' \<notin> set (nn_namespace b)"
  shows "nn_string a = nn_string b \<longleftrightarrow> a = b"
proof
  assume "nn_string a = nn_string b"
  then have "cut_at CHR ''/'' (nn_string a) = cut_at CHR ''/'' (nn_string b)" by simp
  moreover have "cut_at CHR ''/'' (nn_string a) = Some (nn_namespace a, nn_name a)"
    "cut_at CHR ''/'' (nn_string b) = Some (nn_namespace b, nn_name b)"
    using assms by (simp_all add: nn_string_def cut_at_Some)
  ultimately show "a = b" by simp
qed simp

type_synonym strmap = "(string, string) gomap"

record object_meta =
  om_name :: string
  om_namespace :: string
  om_labels :: strmap

text \<open>\<^verbatim>\<open>client.ObjectKeyFromObject\<close>.\<close>

definition object_key :: "object_meta \<Rightarrow> nsname" where
  "object_key m = nsname (om_namespace m) (om_name m)"

subsection \<open>networking/v1 Ingress\<close>

datatype path_type = PathTypeExact | PathTypePrefix | PathTypeImplementationSpecific

record service_backend =
  sb_name :: string
  sb_port_name :: string
  sb_port_number :: int

text \<open>A backend without a Service is a resource backend.\<close>

record ingress_backend =
  be_service :: "service_backend option"

record http_path =
  hp_path :: string
  hp_type :: "path_type option"
  hp_backend :: ingress_backend

record ingress_rule =
  ir_host :: string
  ir_http :: "http_path list option"

record ingress_tls =
  tls_hosts :: "string list"
  tls_secret :: string

record lb_ingress =
  lb_ip :: string
  lb_hostname :: string

record ingress =
  ing_namespace :: string
  ing_name :: string
  ing_uid :: string
  ing_generation :: int
  ing_created :: int
  ing_deleting :: bool
  ing_labels :: strmap
  ing_annotations :: strmap
  ing_finalizers :: "string list"
  ing_class :: "string option"
  ing_default_backend :: "ingress_backend option"
  ing_tls :: "ingress_tls list"
  ing_rules :: "ingress_rule list"
  ing_lb :: "lb_ingress list"

definition ing_key :: "ingress \<Rightarrow> nsname" where
  "ing_key ing = nsname (ing_namespace ing) (ing_name ing)"

text \<open>\<^verbatim>\<open>ing.Annotations[key]\<close>: the empty string when the key is missing.\<close>

definition annotation :: "ingress \<Rightarrow> string \<Rightarrow> string" where
  "annotation ing key = gm_or [] (ing_annotations ing) key"

text \<open>An Ingress with one TLS entry, for the concrete instances of the theorems.\<close>

definition sample_ingress :: "string \<Rightarrow> string \<Rightarrow> string \<Rightarrow> ingress" where
  "sample_ingress namespace host secret =
     \<lparr>ing_namespace = namespace, ing_name = ''web'', ing_uid = ''u1'', ing_generation = 1, ing_created = 0,
      ing_deleting = False, ing_labels = [], ing_annotations = [], ing_finalizers = [], ing_class = None,
      ing_default_backend = None, ing_tls = [\<lparr>tls_hosts = [host], tls_secret = secret\<rparr>], ing_rules = [], ing_lb = []\<rparr>"

subsection \<open>Gateway API\<close>

record parent_ref =
  pr_group :: "string option"
  pr_kind :: "string option"
  pr_namespace :: "string option"
  pr_name :: string
  pr_section :: "string option"

datatype path_match_type = MatchExact | MatchPathPrefix | MatchRegularExpression

record header_match =
  hm_name :: string
  hm_value :: string

record route_match =
  rm_path :: "(path_match_type \<times> string) option"
  rm_headers :: "header_match list"
  rm_query :: "(string \<times> string) list"
  rm_method :: "string option"

record cors_filter =
  co_origins :: "string list"
  co_methods :: "string list"
  co_headers :: "string list"
  co_expose :: "string list"
  co_credentials :: "bool option"
  co_max_age :: int

record url_rewrite =
  ur_hostname :: "string option"
  ur_full_path :: "string option"

record redirect =
  rd_scheme :: "string option"
  rd_status :: "int option"

record local_ref =
  lo_group :: string
  lo_kind :: string
  lo_name :: string

datatype route_filter =
    FilterCORS cors_filter
  | FilterURLRewrite url_rewrite
  | FilterRequestRedirect redirect
  | FilterExtensionRef local_ref

record backend_ref =
  br_name :: string
  br_port :: "int option"

record route_rule =
  rr_matches :: "route_match list"
  rr_filters :: "route_filter list"
  rr_backends :: "backend_ref list"

record http_route =
  hr_meta :: object_meta
  hr_parents :: "parent_ref list"
  hr_hostnames :: "string list"
  hr_rules :: "route_rule list"

record secret_ref =
  sr_name :: string
  sr_namespace :: "string option"

datatype protocol = HTTP | HTTPS

datatype from_namespaces = FromAll | FromSame

text \<open>A listener of a Gateway, or an entry of a ListenerSet: the code converts one to the other.\<close>

record listener =
  li_name :: string
  li_hostname :: "string option"
  li_port :: int
  li_protocol :: protocol
  li_certs :: "secret_ref list option"
  li_routes :: from_namespaces

record gateway =
  gw_meta :: object_meta
  gw_class :: string
  gw_listeners :: "listener list"
  gw_parameters :: "local_ref option"
  gw_allowed :: "from_namespaces option"

record listener_set =
  ls_meta :: object_meta
  ls_parent :: parent_ref
  ls_listeners :: "listener list"

record grant_from =
  gf_group :: string
  gf_kind :: string
  gf_namespace :: string

record reference_grant =
  rg_meta :: object_meta
  rg_from :: "grant_from list"
  rg_to :: "local_ref list"

record backend_tls_policy =
  bt_meta :: object_meta
  bt_targets :: "local_ref list"
  bt_ca_refs :: "local_ref list"
  bt_hostname :: string

definition group_name :: string where
  "group_name = ''gateway.networking.k8s.io''"

subsection \<open>NGINX Gateway Fabric\<close>

definition ngf_group :: string where
  "ngf_group = ''gateway.nginx.org''"

record client_settings_policy =
  cs_meta :: object_meta
  cs_target :: local_ref
  cs_max_size :: "string option"

record proxy_timeout =
  pt_connect :: "string option"
  pt_read :: "string option"
  pt_send :: "string option"

record proxy_buffering =
  pb_disable :: "bool option"
  pb_buffer_size :: "string option"
  pb_buffers :: "(int \<times> string) option"

record proxy_settings_policy =
  ps_meta :: object_meta
  ps_targets :: "local_ref list"
  ps_timeout :: "proxy_timeout option"
  ps_buffering :: "proxy_buffering option"

record authentication_filter =
  af_meta :: object_meta
  af_secret :: string
  af_realm :: string

datatype snippet_context = HTTPServer | HTTPServerLocation

record snippet =
  sn_context :: snippet_context
  sn_value :: string

record snippets_filter =
  sf_meta :: object_meta
  sf_snippets :: "snippet list"

end
