(* ===== verification/Naming.thy ===== *)
theory Naming
  imports Sha256
begin

text \<open>
  \<^verbatim>\<open>internal/naming/naming.go\<close>: the names of generated objects. A name is a readable base,
  cut so that the whole fits into 63 characters, and eight hexadecimal digits of the SHA-256
  digest of the joined parts.
\<close>

fun label_loop :: "string \<Rightarrow> bool \<Rightarrow> string \<Rightarrow> string" where
  "label_loop b lastDash [] = b"
| "label_loop b lastDash (r # rs) =
     (if is_letter r \<or> is_digit r then label_loop (b @ [r]) False rs
      else if \<not> lastDash \<and> 0 < length b then label_loop (b @ [CHR ''-'']) True rs
      else label_loop b lastDash rs)"

definition is_dash :: "char \<Rightarrow> bool" where
  "is_dash c \<longleftrightarrow> c = CHR ''-''"

definition dns_label :: "string list \<Rightarrow> string" where
  "dns_label parts =
     (let raw = join ''-'' parts;
          suffix = hex_encode (take 4 (sum256 raw));
          base = trim_where is_dash (label_loop [] False (to_lower raw));
          base = (if base = [] then ''resource'' else base);
          maxBase = 63 - length suffix - 1;
          base = (if length base > maxBase then trim_right_where is_dash (take maxBase base) else base)
      in base @ ''-'' @ suffix)"

definition https_listener :: "string \<Rightarrow> string" where
  "https_listener hostname = dns_label [''https'', hostname]"

subsection \<open>Every generated name is an RFC 1123 label\<close>

definition label_char :: "char \<Rightarrow> bool" where
  "label_char c \<longleftrightarrow> is_lower c \<or> is_digit c"

definition is_dns_label :: "string \<Rightarrow> bool" where
  "is_dns_label s \<longleftrightarrow> s \<noteq> [] \<and> length s \<le> 63 \<and> (\<forall>c \<in> set s. label_char c \<or> is_dash c)
     \<and> label_char (hd s) \<and> label_char (last s)"

definition dash_or_label :: "string \<Rightarrow> bool" where
  "dash_or_label s \<longleftrightarrow> (\<forall>c \<in> set s. label_char c \<or> is_dash c)"

lemma label_loop_chars:
  assumes "dash_or_label b" and "\<forall>c \<in> set s. \<not> is_upper c"
  shows "dash_or_label (label_loop b d s)"
  using assms
  by (induction b d s rule: label_loop.induct)
    (auto simp: dash_or_label_def label_char_def is_dash_def is_letter_def)

definition base_ok :: "string \<Rightarrow> bool" where
  "base_ok s \<longleftrightarrow> s \<noteq> [] \<and> dash_or_label s \<and> label_char (hd s)"

lemma trimmed_base_ok:
  assumes "dash_or_label s" and "trim_where is_dash s \<noteq> []"
  shows "base_ok (trim_where is_dash s)"
proof -
  let ?t = "trim_where is_dash s"
  have "hd ?t \<in> set ?t" using assms(2) by simp
  moreover have "dash_or_label ?t"
    using assms(1) set_trim_where [of is_dash s] by (auto simp: dash_or_label_def)
  ultimately show ?thesis
    using assms(2) trim_where_ends(1) [OF assms(2)] by (auto simp: base_ok_def dash_or_label_def)
qed

lemma cut_base_ok:
  assumes "base_ok s" and "0 < n"
  shows "base_ok (trim_right_where is_dash (take n s))" "length (trim_right_where is_dash (take n s)) \<le> n"
proof -
  obtain c cs m where s: "s = c # cs" and n: "n = Suc m"
    using assms by (cases s; cases n) (auto simp: base_ok_def)
  have c: "label_char c" "\<not> is_dash c"
    using assms(1) s by (auto simp: base_ok_def label_char_def is_dash_def is_lower_def is_digit_def code_def)
  have eq: "trim_right_where is_dash (take n s) = c # trim_right_where is_dash (take m cs)"
    using c(2) s n by (simp add: trim_right_where_def dropWhile_append)
  have sub: "set (trim_right_where is_dash (take m cs)) \<subseteq> set cs"
    by (auto simp: trim_right_where_def dest!: set_dropWhileD in_set_takeD)
  then show "base_ok (trim_right_where is_dash (take n s))"
    unfolding eq using assms(1) s c(1) by (auto simp: base_ok_def dash_or_label_def)
  have "length (trim_right_where is_dash (take m cs)) \<le> length (take m cs)"
    by (metis length_dropWhile_le length_rev trim_right_where_def)
  then show "length (trim_right_where is_dash (take n s)) \<le> n" by (subst eq) (simp add: n)
qed

definition label_suffix :: "string list \<Rightarrow> string" where
  "label_suffix parts = hex_encode (take 4 (sum256 (join ''-'' parts)))"

lemma label_suffix_props:
  "length (label_suffix parts) = 8" "\<forall>c \<in> set (label_suffix parts). label_char c"
  using hex_encode_class by (auto simp: label_suffix_def label_char_def)

lemma dns_label_shape:
  "\<exists>base. base_ok base \<and> length base \<le> 54 \<and> dns_label parts = base @ ''-'' @ label_suffix parts"
proof -
  let ?loop = "label_loop [] False (to_lower (join ''-'' parts))"
  define b where "b = (if trim_where is_dash ?loop = [] then ''resource'' else trim_where is_dash ?loop)"
  have "dash_or_label ?loop"
    by (rule label_loop_chars) (auto simp: dash_or_label_def to_lower_def)
  moreover have "base_ok ''resource''"
    by (simp add: base_ok_def dash_or_label_def label_char_def is_lower_def code_def)
  ultimately have b: "base_ok b" using trimmed_base_ok by (auto simp: b_def)
  have "dns_label parts =
    (if length b > 54 then trim_right_where is_dash (take 54 b) else b) @ ''-'' @ label_suffix parts"
    by (simp add: dns_label_def b_def label_suffix_def Let_def)
  then show ?thesis
    using b cut_base_ok [OF b, of 54] by (metis leI zero_less_numeral)
qed

lemma dns_label_ok: "is_dns_label (dns_label parts)"
proof -
  obtain base where b: "base_ok base" "length base \<le> 54" and
    eq: "dns_label parts = base @ ''-'' @ label_suffix parts"
    using dns_label_shape by blast
  have "last (dns_label parts) = last (label_suffix parts)" "label_suffix parts \<noteq> []"
    using label_suffix_props(1) [of parts] by (auto simp: eq)
  then have "label_char (last (dns_label parts))"
    using label_suffix_props(2) [of parts] last_in_set by metis
  then show ?thesis
    using b label_suffix_props [of parts]
    by (auto simp: is_dns_label_def eq base_ok_def dash_or_label_def is_dash_def)
qed


end
