(* ===== verification/Types.thy ===== *)
theory Types
  imports KubeTypes Naming
begin

text \<open>
  \<^verbatim>\<open>internal/translator/types.go\<close>: labels, issues, options and the plan of one Ingress.
\<close>

definition ManagedByLabel :: string where "ManagedByLabel = ''gateway.zyno.io/managed-by''"
definition SourceNameLabel :: string where "SourceNameLabel = ''gateway.zyno.io/source-name''"
definition SourceNamespaceLabel :: string where "SourceNamespaceLabel = ''gateway.zyno.io/source-namespace''"
definition SourceUIDLabel :: string where "SourceUIDLabel = ''gateway.zyno.io/source-uid''"
definition GatewayLabel :: string where "GatewayLabel = ''gateway.zyno.io/gateway''"
definition TranslationStatusLabel :: string where "TranslationStatusLabel = ''gateway.zyno.io/translation-status''"
definition ControllerName :: string where "ControllerName = ''ingress-nginx-gateway-bridge''"
definition EnabledAnnotation :: string where "EnabledAnnotation = ''gateway.zyno.io/enabled''"
definition IgnoreAnnotation :: string where "IgnoreAnnotation = ''gateway.zyno.io/ignore''"
definition GatewayKind :: string where "GatewayKind = ''Gateway''"
definition ListenerSetKind :: string where "ListenerSetKind = ''ListenerSet''"
definition ListenerSetIndexLabel :: string where "ListenerSetIndexLabel = ''gateway.zyno.io/listener-set-index''"

record listener_ref =
  lr_kind :: string
  lr_name :: string
  lr_section :: string

text \<open>The zero value of \<^verbatim>\<open>ListenerRef\<close>, read from a map that lacks the key.\<close>

definition no_listener :: listener_ref where
  "no_listener = \<lparr>lr_kind = [], lr_name = [], lr_section = []\<rparr>"

definition source_name_label_value :: "string \<Rightarrow> string" where
  "source_name_label_value name = (if length name \<le> 63 then name else dns_label [name])"

definition gateway_label_value :: "string \<Rightarrow> string \<Rightarrow> string" where
  "gateway_label_value ns name = dns_label [ns, name]"

datatype severity = SeverityError | SeverityWarning

record issue =
  is_severity :: severity
  is_field :: string
  is_message :: string

abbreviation error_issue :: "string \<Rightarrow> string \<Rightarrow> issue" where
  "error_issue f m \<equiv> \<lparr>is_severity = SeverityError, is_field = f, is_message = m\<rparr>"

abbreviation warning_issue :: "string \<Rightarrow> string \<Rightarrow> issue" where
  "warning_issue f m \<equiv> \<lparr>is_severity = SeverityWarning, is_field = f, is_message = m\<rparr>"

definition issue_fatal :: "issue \<Rightarrow> bool" where
  "issue_fatal i \<longleftrightarrow> is_severity i = SeverityError"

record gateway_options =
  go_namespace :: string
  go_name :: string
  go_http_section :: string
  go_https_section :: string
  go_tls_sections :: "(string, listener_ref) gomap"
  go_managed :: bool

record options =
  op_gateway :: gateway_options
  op_tls_hosts :: "string list option"
  op_allow_snippets :: bool
  op_strict :: bool
  op_settings_as_snippets :: bool
  op_canaries :: "ingress list"

record plan =
  pl_routes :: "http_route list"
  pl_backend_tls :: "backend_tls_policy list"
  pl_client :: "client_settings_policy list"
  pl_proxy :: "proxy_settings_policy list"
  pl_auth :: "authentication_filter list"
  pl_snippets :: "snippets_filter list"
  pl_issues :: "issue list"
  pl_delegated :: string

definition empty_plan :: plan where
  "empty_plan = \<lparr>pl_routes = [], pl_backend_tls = [], pl_client = [], pl_proxy = [], pl_auth = [],
     pl_snippets = [], pl_issues = [], pl_delegated = []\<rparr>"

definition add_issues :: "issue list \<Rightarrow> plan \<Rightarrow> plan" where
  "add_issues is p = p\<lparr>pl_issues := pl_issues p @ is\<rparr>"

definition plan_fatal :: "plan \<Rightarrow> bool" where
  "plan_fatal p = list_ex issue_fatal (pl_issues p)"

lemma issue_fatal_simps [simp]:
  "issue_fatal (error_issue f m)" "\<not> issue_fatal (warning_issue f m)"
  by (simp_all add: issue_fatal_def)

lemma plan_fatal_add_issues [simp]:
  "plan_fatal (add_issues is p) \<longleftrightarrow> plan_fatal p \<or> list_ex issue_fatal is"
  by (auto simp: plan_fatal_def add_issues_def list_ex_iff)

lemma source_name_label_value_length: "length (source_name_label_value name) \<le> 63"
  using dns_label_ok [of "[name]"] by (simp add: source_name_label_value_def is_dns_label_def)

end
