(* ===== verification/Annotations.thy ===== *)
theory Annotations
  imports Types
begin

text \<open>
  \<^verbatim>\<open>internal/translator/annotations.go\<close>: the ingress-nginx annotations with a declared
  translation, and the readers of annotation values shared by the translator: booleans,
  comma-separated lists and header names.
\<close>

definition annotationPrefix :: string where
  "annotationPrefix = ''nginx.ingress.kubernetes.io/''"

definition annProxyBodySize :: string where "annProxyBodySize = annotationPrefix @ ''proxy-body-size''"
definition annProxyReadTimeout :: string where "annProxyReadTimeout = annotationPrefix @ ''proxy-read-timeout''"
definition annProxySendTimeout :: string where "annProxySendTimeout = annotationPrefix @ ''proxy-send-timeout''"
definition annProxyConnectTimeout :: string where "annProxyConnectTimeout = annotationPrefix @ ''proxy-connect-timeout''"
definition annProxyBuffering :: string where "annProxyBuffering = annotationPrefix @ ''proxy-buffering''"
definition annProxyBufferSize :: string where "annProxyBufferSize = annotationPrefix @ ''proxy-buffer-size''"
definition annProxyRequestBuffering :: string where "annProxyRequestBuffering = annotationPrefix @ ''proxy-request-buffering''"
definition annProxyHTTPVersion :: string where "annProxyHTTPVersion = annotationPrefix @ ''proxy-http-version''"
definition annProxySSLName :: string where "annProxySSLName = annotationPrefix @ ''proxy-ssl-name''"
definition annProxySSLSecret :: string where "annProxySSLSecret = annotationPrefix @ ''proxy-ssl-secret''"
definition annProxySSLServerName :: string where "annProxySSLServerName = annotationPrefix @ ''proxy-ssl-server-name''"
definition annProxySSLVerify :: string where "annProxySSLVerify = annotationPrefix @ ''proxy-ssl-verify''"
definition annEnableCORS :: string where "annEnableCORS = annotationPrefix @ ''enable-cors''"
definition annCORSAllowOrigin :: string where "annCORSAllowOrigin = annotationPrefix @ ''cors-allow-origin''"
definition annCORSAllowMethods :: string where "annCORSAllowMethods = annotationPrefix @ ''cors-allow-methods''"
definition annCORSAllowHeaders :: string where "annCORSAllowHeaders = annotationPrefix @ ''cors-allow-headers''"
definition annCORSExposeHeaders :: string where "annCORSExposeHeaders = annotationPrefix @ ''cors-expose-headers''"
definition annCORSAllowCredentials :: string where "annCORSAllowCredentials = annotationPrefix @ ''cors-allow-credentials''"
definition annCORSMaxAge :: string where "annCORSMaxAge = annotationPrefix @ ''cors-max-age''"
definition annCanary :: string where "annCanary = annotationPrefix @ ''canary''"
definition annCanaryByHeader :: string where "annCanaryByHeader = annotationPrefix @ ''canary-by-header''"
definition annCanaryByHeaderValue :: string where "annCanaryByHeaderValue = annotationPrefix @ ''canary-by-header-value''"
definition annRewriteTarget :: string where "annRewriteTarget = annotationPrefix @ ''rewrite-target''"
definition annSSLRedirect :: string where "annSSLRedirect = annotationPrefix @ ''ssl-redirect''"
definition annAuthURL :: string where "annAuthURL = annotationPrefix @ ''auth-url''"
definition annAuthMethod :: string where "annAuthMethod = annotationPrefix @ ''auth-method''"
definition annAuthResponseHeaders :: string where "annAuthResponseHeaders = annotationPrefix @ ''auth-response-headers''"
definition annAuthRequestRedirect :: string where "annAuthRequestRedirect = annotationPrefix @ ''auth-request-redirect''"
definition annAuthSignin :: string where "annAuthSignin = annotationPrefix @ ''auth-signin''"
definition annAuthSnippet :: string where "annAuthSnippet = annotationPrefix @ ''auth-snippet''"
definition annAuthType :: string where "annAuthType = annotationPrefix @ ''auth-type''"
definition annAuthSecret :: string where "annAuthSecret = annotationPrefix @ ''auth-secret''"
definition annAuthRealm :: string where "annAuthRealm = annotationPrefix @ ''auth-realm''"
definition annAuthProxySetHeaders :: string where "annAuthProxySetHeaders = annotationPrefix @ ''auth-proxy-set-headers''"
definition annServerAlias :: string where "annServerAlias = annotationPrefix @ ''server-alias''"
definition annConfigurationSnippet :: string where "annConfigurationSnippet = annotationPrefix @ ''configuration-snippet''"
definition annServerSnippet :: string where "annServerSnippet = annotationPrefix @ ''server-snippet''"
definition annUpstreamVHost :: string where "annUpstreamVHost = annotationPrefix @ ''upstream-vhost''"
definition annBackendProtocol :: string where "annBackendProtocol = annotationPrefix @ ''backend-protocol''"
definition annUseRegex :: string where "annUseRegex = annotationPrefix @ ''use-regex''"
definition annWhitelistSourceRange :: string where "annWhitelistSourceRange = annotationPrefix @ ''whitelist-source-range''"

definition knownAnnotations :: "string list" where
  "knownAnnotations =
    [annProxyBodySize, annProxyReadTimeout, annProxySendTimeout, annProxyConnectTimeout,
     annProxyBuffering, annProxyBufferSize, annProxyRequestBuffering, annEnableCORS,
     annCORSAllowOrigin, annProxyHTTPVersion, annProxySSLName, annProxySSLSecret,
     annProxySSLServerName, annProxySSLVerify, annCORSAllowMethods, annCORSAllowHeaders,
     annCORSExposeHeaders, annCORSAllowCredentials, annCORSMaxAge, annCanary,
     annCanaryByHeader, annCanaryByHeaderValue, annRewriteTarget, annSSLRedirect,
     annAuthURL, annAuthMethod, annAuthResponseHeaders, annAuthRequestRedirect,
     annAuthSignin, annAuthSnippet, annAuthType, annAuthSecret, annAuthRealm,
     annAuthProxySetHeaders, annServerAlias, annConfigurationSnippet, annServerSnippet,
     annUpstreamVHost, annBackendProtocol, annUseRegex, annWhitelistSourceRange]"

lemmas annotation_defs =
  annotationPrefix_def annProxyBodySize_def annProxyReadTimeout_def annProxySendTimeout_def
  annProxyConnectTimeout_def annProxyBuffering_def annProxyBufferSize_def
  annProxyRequestBuffering_def annProxyHTTPVersion_def annProxySSLName_def
  annProxySSLSecret_def annProxySSLServerName_def annProxySSLVerify_def annEnableCORS_def
  annCORSAllowOrigin_def annCORSAllowMethods_def annCORSAllowHeaders_def
  annCORSExposeHeaders_def annCORSAllowCredentials_def annCORSMaxAge_def annCanary_def
  annCanaryByHeader_def annCanaryByHeaderValue_def annRewriteTarget_def annSSLRedirect_def
  annAuthURL_def annAuthMethod_def annAuthResponseHeaders_def annAuthRequestRedirect_def
  annAuthSignin_def annAuthSnippet_def annAuthType_def annAuthSecret_def annAuthRealm_def
  annAuthProxySetHeaders_def annServerAlias_def annConfigurationSnippet_def
  annServerSnippet_def annUpstreamVHost_def annBackendProtocol_def annUseRegex_def
  annWhitelistSourceRange_def

lemma known_annotations_prefixed: "a \<in> set knownAnnotations \<Longrightarrow> has_prefix a annotationPrefix"
  by (auto simp: knownAnnotations_def annotation_defs)

subsection \<open>Reading annotation values\<close>

definition parse_nginx_bool :: "string \<Rightarrow> string + bool" where
  "parse_nginx_bool value =
     (let v = to_lower (trim_space value) in
      if v \<in> {''on'', ''true'', ''yes'', ''1''} then Inr True
      else if v \<in> {''off'', ''false'', ''no'', ''0''} then Inr False
      else Inl ''value must be on/off or true/false'')"

definition parse_bool :: "string \<Rightarrow> bool" where
  "parse_bool value = (case parse_nginx_bool value of Inl _ \<Rightarrow> False | Inr b \<Rightarrow> b)"

fun csv_loop :: "string list \<Rightarrow> string list \<Rightarrow> string list" where
  "csv_loop res [] = res"
| "csv_loop res (raw # items) =
     (let item = trim_space raw in
      if item = [] then csv_loop res items
      else if item \<in> set res then csv_loop res items
      else csv_loop (res @ [item]) items)"

definition split_csv :: "string \<Rightarrow> string list" where
  "split_csv value = (if trim_space value = [] then [] else csv_loop [] (split_on CHR '','' value))"

definition valid_header_name :: "string \<Rightarrow> bool" where
  "valid_header_name value \<longleftrightarrow> canonical_header_key value \<noteq> [] \<and>
     \<not> contains_any value [CHR '' '', CHR 0x09, CHR 0x0D, CHR 0x0A, CHR '':'']"

definition ssl_redirect_enabled :: "strmap \<Rightarrow> bool" where
  "ssl_redirect_enabled annotations =
     (case gm_get annotations annSSLRedirect of None \<Rightarrow> True | Some v \<Rightarrow> parse_bool v)"

definition acmeHTTP01SolverLabel :: string where
  "acmeHTTP01SolverLabel = ''acme.cert-manager.io/http01-solver''"

definition is_acme_http01_solver :: "ingress \<Rightarrow> bool" where
  "is_acme_http01_solver ing = parse_bool (gm_or [] (ing_labels ing) acmeHTTP01SolverLabel)"

definition source_labels :: "ingress \<Rightarrow> strmap" where
  "source_labels ing =
     [(ManagedByLabel, ControllerName),
      (SourceNameLabel, source_name_label_value (ing_name ing)),
      (SourceNamespaceLabel, ing_namespace ing),
      (SourceUIDLabel, ing_uid ing)]"

lemma csv_loop_spec:
  "distinct res \<Longrightarrow> distinct (csv_loop res items) \<and>
     set (csv_loop res items) = set res \<union> (trim_space ` set items - {[]})"
  by (induction res items rule: csv_loop.induct) (auto simp: Let_def)

lemma split_csv_set: "set (split_csv v) = trim_space ` set (split_on CHR '','' v) - {[]}"
proof (cases "trim_space v = []")
  case True
  have "\<forall>c \<in> set v. is_space c"
  proof (rule ccontr)
    assume "\<not> (\<forall>c \<in> set v. is_space c)"
    then have "dropWhile is_space v \<noteq> []" by (simp add: dropWhile_eq_Nil_conv)
    then have "\<not> is_space (hd (dropWhile is_space v))" by (rule hd_dropWhile)
    moreover have "hd (dropWhile is_space v) \<in> set (rev (dropWhile is_space v))"
      using \<open>dropWhile is_space v \<noteq> []\<close> by simp
    ultimately have "dropWhile is_space (rev (dropWhile is_space v)) \<noteq> []"
      unfolding dropWhile_eq_Nil_conv by blast
    with True show False
      by (simp add: trim_space_def trim_where_def trim_left_where_def trim_right_where_def)
  qed
  then have "trim_space t = []" if "t \<in> set (split_on CHR '','' v)" for t
    using set_split_on [OF that] unfolding trim_space_def by (intro trim_where_all) blast
  with True show ?thesis by (auto simp: split_csv_def)
qed (simp add: split_csv_def csv_loop_spec)

text \<open>
  \<^verbatim>\<open>splitCSV\<close> yields each non-empty, trimmed item of the comma-separated value exactly once.
\<close>

theorem split_csv_items:
  "distinct (split_csv v) \<and>
   (\<forall>item. item \<in> set (split_csv v) \<longleftrightarrow>
      item \<noteq> [] \<and> (\<exists>part \<in> set (split_on CHR '','' v). item = trim_space part))"
proof
  show "distinct (split_csv v)" by (simp add: split_csv_def csv_loop_spec)
  show "\<forall>item. item \<in> set (split_csv v) \<longleftrightarrow>
      item \<noteq> [] \<and> (\<exists>part \<in> set (split_on CHR '','' v). item = trim_space part)"
    unfolding split_csv_set by blast
qed

lemma split_csv_item:
  assumes "item \<in> set (split_csv v)"
  shows "item \<noteq> []" "trim_space item = item" "CHR '','' \<notin> set item"
proof -
  obtain part where part: "part \<in> set (split_on CHR '','' v)" "item = trim_space part" "item \<noteq> []"
    using assms by (auto simp: split_csv_set)
  then show "item \<noteq> []" "trim_space item = item" by simp_all
  show "CHR '','' \<notin> set item"
    using set_split_on [OF part(1)] set_trim_space [of part] part(2) by blast
qed

lemma valid_header_name_iff:
  "valid_header_name v \<longleftrightarrow>
     v \<noteq> [] \<and> (\<forall>c \<in> set v. c \<notin> {CHR '' '', CHR 0x09, CHR 0x0D, CHR 0x0A, CHR '':''})"
  unfolding valid_header_name_def contains_any_def list_ex_iff by simp

end
