(* ===== verification/Certificates.thy ===== *)
theory Certificates
  imports Types
begin

text \<open>
  \<^verbatim>\<open>internal/translator/certificates.go\<close>: what the controller keeps of a TLS Secret, its
  wildcard names and a fingerprint of the certificate chain. The parsers of \<^verbatim>\<open>crypto/tls\<close>,
  \<^verbatim>\<open>crypto/x509\<close>, \<^verbatim>\<open>encoding/pem\<close> and \<^verbatim>\<open>encoding/base64\<close> are the parameter \<open>x509_lib\<close>.
\<close>

record certificate =
  ce_dns_names :: "string list"

record key_pair =
  kp_chain :: "string list"
  kp_leaf :: "certificate option"

record x509_lib =
  xl_key_pair :: "string \<Rightarrow> string \<Rightarrow> key_pair option"
  xl_parse :: "string \<Rightarrow> certificate option"
  xl_base64 :: "string \<Rightarrow> string option"
  xl_pem :: "string \<Rightarrow> (string \<times> string) option"

record certificate_info =
  ci_wildcard_sans :: "string list"
  ci_fingerprint :: string

subsection \<open>Wildcard names\<close>

definition wildcard_name :: "string \<Rightarrow> string option" where
  "wildcard_name raw =
     (let name = trim_suffix (to_lower (trim_space raw)) ''.'' in
      if \<not> has_prefix name ''*.'' then None
      else let suf = drop 2 name in
           if suf = [] \<or> contains suf ''*'' \<or> has_prefix suf ''.'' \<or> has_suffix suf ''.'' then None
           else Some name)"

fun collect_sans :: "string list \<Rightarrow> string list \<Rightarrow> string list" where
  "collect_sans res [] = res"
| "collect_sans res (raw # names) =
     (case wildcard_name raw of
        None \<Rightarrow> collect_sans res names
      | Some name \<Rightarrow> if name \<in> set res then collect_sans res names else collect_sans (res @ [name]) names)"

definition wildcard_sans :: "certificate \<Rightarrow> string list" where
  "wildcard_sans leaf = sort_strings (collect_sans [] (ce_dns_names leaf))"

lemma collect_sans_spec:
  "distinct res \<Longrightarrow> distinct (collect_sans res names) \<and>
     set (collect_sans res names) = set res \<union> {n. \<exists>raw \<in> set names. wildcard_name raw = Some n}"
  by (induction names arbitrary: res) (auto split: option.splits)

lemma wildcard_sans_set: "set (wildcard_sans leaf) = {n. \<exists>raw \<in> set (ce_dns_names leaf). wildcard_name raw = Some n}"
  by (simp add: wildcard_sans_def collect_sans_spec)

lemma wildcard_name_shape:
  "wildcard_name raw = Some name \<Longrightarrow> \<exists>r. name = ''*.'' @ r \<and> r \<noteq> [] \<and> CHR ''*'' \<notin> set r \<and> hd r \<noteq> CHR ''.''"
  by (auto simp: wildcard_name_def Let_def sublist_def prefix_def split: if_splits)
    (metis append_Cons append_Nil list.collapse split_list)+

text \<open>
  The wildcard names kept of a certificate are strictly sorted, so they contain no
  duplicate, and each is \<open>*.\<close> followed by a non-empty rest without a further star or a
  leading dot: bare and multi-level wildcards never take part in a collapse.
\<close>

theorem wildcard_sans_wellformed:
  "sorted_wrt (<) (wildcard_sans leaf) \<and>
   list_all (\<lambda>n. \<exists>r. n = ''*.'' @ r \<and> r \<noteq> [] \<and> CHR ''*'' \<notin> set r \<and> hd r \<noteq> CHR ''.'') (wildcard_sans leaf)"
proof
  show "sorted_wrt (<) (wildcard_sans leaf)"
    by (simp add: wildcard_sans_def sort_strings_sort strict_sorted_iff collect_sans_spec)
  show "list_all (\<lambda>n. \<exists>r. n = ''*.'' @ r \<and> r \<noteq> [] \<and> CHR ''*'' \<notin> set r \<and> hd r \<noteq> CHR ''.'') (wildcard_sans leaf)"
    unfolding list_all_iff wildcard_sans_set using wildcard_name_shape by blast
qed

subsection \<open>Covering a hostname\<close>

text \<open>The wildcard one label above a hostname, as the code computes it in three places.\<close>

definition one_label_up :: "string \<Rightarrow> string option" where
  "one_label_up host =
     (let dot = index_byte host CHR ''.'' in
      if dot \<le> 0 \<or> dot = int (length host) - 1 then None
      else Some (''*'' @ drop (nat dot) host))"

definition covering_wildcard :: "string \<Rightarrow> certificate_info \<Rightarrow> string" where
  "covering_wildcard host info =
     (if has_prefix host ''*.'' then []
      else (case one_label_up host of
              None \<Rightarrow> []
            | Some candidate \<Rightarrow> if candidate \<in> set (ci_wildcard_sans info) then candidate else []))"

lemma one_label_up_Some:
  "one_label_up host = Some w \<longleftrightarrow>
     (\<exists>l r. host = l @ CHR ''.'' # r \<and> l \<noteq> [] \<and> r \<noteq> [] \<and> CHR ''.'' \<notin> set l \<and> w = ''*.'' @ r)"
proof
  assume *: "one_label_up host = Some w"
  define n where "n = nat (index_byte host CHR ''.'')"
  have "\<not> (index_byte host CHR ''.'' \<le> 0 \<or> index_byte host CHR ''.'' = int (length host) - 1)"
    and w: "w = ''*'' @ drop n host"
    using * by (simp_all add: one_label_up_def Let_def n_def split: if_splits)
  then have n: "index_byte host CHR ''.'' = int n" "0 < n" "n \<noteq> length host - 1"
    by (simp_all add: n_def) linarith
  note d = index_byte_drop [OF n(1)]
  have "host = take n host @ CHR ''.'' # drop (Suc n) host"
    using d(2,3) by metis
  moreover have "take n host \<noteq> []" "drop (Suc n) host \<noteq> []"
    using n(2,3) d(1) by auto
  ultimately show "\<exists>l r. host = l @ CHR ''.'' # r \<and> l \<noteq> [] \<and> r \<noteq> [] \<and> CHR ''.'' \<notin> set l \<and> w = ''*.'' @ r"
    using d(2,4) w by auto
next
  assume "\<exists>l r. host = l @ CHR ''.'' # r \<and> l \<noteq> [] \<and> r \<noteq> [] \<and> CHR ''.'' \<notin> set l \<and> w = ''*.'' @ r"
  then obtain l r where *: "host = l @ CHR ''.'' # r" "l \<noteq> []" "r \<noteq> []" "CHR ''.'' \<notin> set l" "w = ''*.'' @ r"
    by blast
  then have "takeWhile (\<lambda>x. x \<noteq> CHR ''.'') host = l" by (simp add: takeWhile_append)
  with * show "one_label_up host = Some w" by (simp add: one_label_up_def index_byte_def)
qed

lemma one_label_up_wildcard: "one_label_up host = Some w \<Longrightarrow> has_prefix w ''*.''"
  by (auto simp: one_label_up_Some)

lemma covering_wildcard_some:
  "covering_wildcard host info \<noteq> [] \<Longrightarrow> \<not> has_prefix host ''*.'' \<and>
     one_label_up host = Some (covering_wildcard host info) \<and>
     covering_wildcard host info \<in> set (ci_wildcard_sans info)"
  by (auto simp: covering_wildcard_def split: if_splits option.splits)

text \<open>
  A hostname is covered by \<open>*.r\<close> exactly when the certificate carries that name and the
  hostname is one non-empty label, a dot and \<open>r\<close>: \<open>a.b.example\<close> is covered by
  \<open>*.b.example\<close> and never by \<open>*.example\<close>, and a wildcard hostname is covered by nothing.
\<close>

theorem covering_wildcard_iff:
  "covering_wildcard host info = ''*.'' @ r \<longleftrightarrow>
     ''*.'' @ r \<in> set (ci_wildcard_sans info) \<and> r \<noteq> [] \<and> \<not> has_prefix host ''*.'' \<and>
     (\<exists>label. label \<noteq> [] \<and> CHR ''.'' \<notin> set label \<and> host = label @ ''.'' @ r)"
  (is "?L \<longleftrightarrow> ?R")
proof
  assume L: ?L
  then have "covering_wildcard host info \<noteq> []" by simp
  from covering_wildcard_some [OF this] L show ?R by (auto simp: one_label_up_Some)
next
  assume R: ?R
  then have "one_label_up host = Some (''*.'' @ r)" by (auto simp: one_label_up_Some)
  with R show ?L by (simp add: covering_wildcard_def)
qed

subsection \<open>Parsing a Secret\<close>

definition valid_ca_bundle :: "x509_lib \<Rightarrow> string \<Rightarrow> bool" where
  "valid_ca_bundle L ca =
     (let decoded = (case xl_base64 L ca of None \<Rightarrow> ca | Some d \<Rightarrow> d) in
      case xl_pem L decoded of
        None \<Rightarrow> False
      | Some (typ, bytes) \<Rightarrow> typ = ''CERTIFICATE'' \<and> xl_parse L bytes \<noteq> None)"

definition be_uint32 :: "nat \<Rightarrow> string" where
  "be_uint32 n = map (\<lambda>i. char_of (n div 256 ^ i mod 256)) [3, 2, 1, 0]"

definition chain_bytes :: "string list \<Rightarrow> string" where
  "chain_bytes chain = concat (map (\<lambda>der. be_uint32 (length der) @ der) chain)"

definition parse_certificate_info :: "x509_lib \<Rightarrow> strmap \<Rightarrow> certificate_info option" where
  "parse_certificate_info L data =
     (case xl_key_pair L (gm_or [] data ''tls.crt'') (gm_or [] data ''tls.key'') of
        None \<Rightarrow> None
      | Some pair \<Rightarrow>
          if kp_chain pair = [] then None
          else if (case gm_get data ''ca.crt'' of None \<Rightarrow> False | Some ca \<Rightarrow> \<not> valid_ca_bundle L ca) then None
          else (case (case kp_leaf pair of Some leaf \<Rightarrow> Some leaf | None \<Rightarrow> xl_parse L (hd (kp_chain pair))) of
                  None \<Rightarrow> None
                | Some leaf \<Rightarrow>
                    Some \<lparr>ci_wildcard_sans = wildcard_sans leaf,
                          ci_fingerprint = hex_encode (sum256 (chain_bytes (kp_chain pair)))\<rparr>))"

lemma base256:
  fixes k :: nat
  assumes "k < 4294967296"
  shows "k = ((k div 16777216 mod 256 * 256 + k div 65536 mod 256) * 256 + k div 256 mod 256) * 256 + k mod 256"
proof -
  have "k div 65536 = k div 256 div 256" "k div 16777216 = k div 256 div 256 div 256"
    by (simp_all flip: div_mult2_eq)
  moreover have "k div 16777216 < 256" using assms by (intro less_mult_imp_div_less) simp
  ultimately show ?thesis by simp
qed

lemma be_uint32_inject:
  assumes "m < 2 ^ 32" and "n < 2 ^ 32" and "be_uint32 m = be_uint32 n"
  shows "m = n"
proof -
  have "map code (be_uint32 m) = map code (be_uint32 n)" using assms(3) by simp
  then have d: "m div 16777216 mod 256 = n div 16777216 mod 256" "m div 65536 mod 256 = n div 65536 mod 256"
    "m div 256 mod 256 = n div 256 mod 256" "m mod 256 = n mod 256"
    by (simp_all add: be_uint32_def code_def)
  have "m < 4294967296" "n < 4294967296" using assms(1,2) by simp_all
  then show ?thesis using base256 [of m] base256 [of n] unfolding d by argo
qed

text \<open>
  The bytes hashed into a fingerprint determine the certificate chain: the length prefixes
  keep two different chains from being fed to the digest as the same bytes (for certificates
  below 4 GiB).
\<close>

theorem chain_bytes_inject:
  assumes "\<forall>der \<in> set xs \<union> set ys. length der < 2 ^ 32" and "chain_bytes xs = chain_bytes ys"
  shows "xs = ys"
  using assms
proof (induction xs arbitrary: ys)
  case Nil
  then show ?case by (cases ys) (auto simp: chain_bytes_def be_uint32_def)
next
  case (Cons x xs)
  then obtain y zs where ys: "ys = y # zs" by (cases ys) (auto simp: chain_bytes_def be_uint32_def)
  have step: "chain_bytes (d # ds) = be_uint32 (length d) @ d @ chain_bytes ds" for d ds
    by (simp add: chain_bytes_def)
  have len: "length (be_uint32 n) = 4" for n by (simp add: be_uint32_def)
  have "be_uint32 (length x) = be_uint32 (length y)" and rest: "x @ chain_bytes xs = y @ chain_bytes zs"
    using Cons.prems(2) unfolding ys step by (simp_all add: len)
  then have "length x = length y"
    using Cons.prems(1) ys by (intro be_uint32_inject) auto
  with rest have "x = y" "chain_bytes xs = chain_bytes zs" by simp_all
  with Cons ys show ?case by simp
qed

theorem chain_bytes_inject_witness:
  "[''ab'', ''c''] \<noteq> [''a'', ''bc''] \<and> chain_bytes [''ab'', ''c''] \<noteq> chain_bytes [''a'', ''bc'']"
  using chain_bytes_inject [of "[''ab'', ''c'']" "[''a'', ''bc'']"] by auto

end
