(* ===== verification/TlsHosts.thy ===== *)
theory TlsHosts
  imports Annotations Certificates
begin

text \<open>
  Which TLS hostnames an Ingress declares and which of them serves a routed hostname:
  \<^verbatim>\<open>effectiveTLSHosts\<close> of \<^verbatim>\<open>gateway.go\<close>, \<^verbatim>\<open>matchingTLSHost\<close> and \<^verbatim>\<open>RouteTLSHostnames\<close> of
  \<^verbatim>\<open>translate.go\<close>. A set of hostnames is a list in any order.
\<close>

definition normal_host :: "string \<Rightarrow> string" where
  "normal_host raw = to_lower (trim_space raw)"

lemma normal_host_idem [simp]: "normal_host (normal_host raw) = normal_host raw"
  by (simp add: normal_host_def)

subsection \<open>Declared hostnames\<close>

fun rule_hosts :: "string list \<Rightarrow> ingress_rule list \<Rightarrow> string list" where
  "rule_hosts res [] = res"
| "rule_hosts res (rule # rules) =
     (let host = to_lower (trim_space (ir_host rule)) in
      if host = [] then rule_hosts res rules
      else if host \<in> set res then rule_hosts res rules
      else rule_hosts (res @ [host]) rules)"

definition effective_tls_hosts :: "ingress \<Rightarrow> ingress_tls \<Rightarrow> string list" where
  "effective_tls_hosts ing tls =
     (if tls_hosts tls \<noteq> []
      then filter (\<lambda>host. host \<noteq> []) (map (\<lambda>raw. to_lower (trim_space raw)) (tls_hosts tls))
      else rule_hosts [] (ing_rules ing))"

lemma rule_hosts_spec:
  "distinct res \<Longrightarrow> distinct (rule_hosts res rules) \<and>
     set (rule_hosts res rules) = set res \<union> (normal_host ` ir_host ` set rules - {[]})"
  by (induction res rules rule: rule_hosts.induct) (auto simp: Let_def normal_host_def)

lemma effective_tls_hosts_normal:
  "host \<in> set (effective_tls_hosts ing tls) \<Longrightarrow> host \<noteq> [] \<and> normal_host host = host"
  by (auto simp: effective_tls_hosts_def rule_hosts_spec normal_host_def split: if_splits)

subsection \<open>The declared hostname that serves a host\<close>

definition tls_match :: "string \<Rightarrow> string \<Rightarrow> bool" where
  "tls_match host candidate \<longleftrightarrow> has_prefix candidate ''*.'' \<and>
     has_suffix host (trim_prefix candidate ''*'') \<and>
     length host > length (trim_prefix candidate ''*'')"

fun match_loop :: "string \<Rightarrow> string \<Rightarrow> string list \<Rightarrow> string" where
  "match_loop host best [] = best"
| "match_loop host best (candidate # rest) =
     (if tls_match host candidate \<and> length candidate > length best
      then match_loop host candidate rest else match_loop host best rest)"

definition matching_tls_host :: "string \<Rightarrow> string list \<Rightarrow> string" where
  "matching_tls_host host tlsHosts =
     (if host = [] then []
      else if host \<in> set tlsHosts then host
      else match_loop host [] tlsHosts)"

lemma tls_match_iff:
  "tls_match host candidate \<longleftrightarrow> (\<exists>l r. candidate = ''*.'' @ r \<and> host = l @ CHR ''.'' # r \<and> l \<noteq> [])"
  by (auto simp: tls_match_def trim_prefix_def suffix_def prefix_def)

lemma tls_match_same_length:
  assumes "tls_match host a" and "tls_match host b" and "length a = length b"
  shows "a = b"
proof -
  obtain l r where a: "a = ''*.'' @ r" "host = l @ CHR ''.'' # r"
    using assms(1) unfolding tls_match_iff by blast
  obtain l' r' where b: "b = ''*.'' @ r'" "host = l' @ CHR ''.'' # r'"
    using assms(2) unfolding tls_match_iff by blast
  from a b have "length (CHR ''.'' # r) = length (CHR ''.'' # r')" using assms(3) by simp
  then have "r = r'" using a(2) b(2) by (metis append_eq_append_conv list.inject)
  with a b show ?thesis by simp
qed

lemma tls_match_nonempty: "tls_match host a \<Longrightarrow> a \<noteq> []"
  by (auto simp: tls_match_def)

definition best_match :: "string \<Rightarrow> string set \<Rightarrow> string \<Rightarrow> bool" where
  "best_match host C b \<longleftrightarrow>
     (b = [] \<and> (\<forall>c \<in> C. \<not> tls_match host c)) \<or>
     (b \<in> C \<and> tls_match host b \<and> (\<forall>c \<in> C. tls_match host c \<longrightarrow> length c \<le> length b))"

lemma best_match_unique: "best_match host C a \<Longrightarrow> best_match host C b \<Longrightarrow> a = b"
  unfolding best_match_def by (metis le_antisym tls_match_same_length)

lemma match_loop_best:
  "best_match host C best \<Longrightarrow> best_match host (C \<union> set cs) (match_loop host best cs)"
proof (induction cs arbitrary: C best)
  case (Cons c cs)
  have "best_match host (insert c C) (if tls_match host c \<and> length c > length best then c else best)"
    using Cons.prems tls_match_nonempty [of host c] unfolding best_match_def
    by (auto simp: not_less)
  from Cons.IH [OF this] show ?case by (auto split: if_splits)
qed simp

text \<open>
  A routed hostname is served by itself when it is declared; otherwise by the longest
  declared wildcard \<open>*.r\<close> such that the hostname is a non-empty text, a dot and \<open>r\<close>; otherwise
  by nothing. \<^const>\<open>best_match\<close> depends on the set of declared hostnames only: the iteration
  order of the Go map cannot change the result.
\<close>

theorem matching_tls_host_spec:
  "matching_tls_host host hosts = b \<longleftrightarrow>
     (if host = [] then b = [] else if host \<in> set hosts then b = host else best_match host (set hosts) b)"
proof -
  have best: "best_match host (set hosts) (match_loop host [] hosts)"
    using match_loop_best [of host "{}" "[]" hosts] by (simp add: best_match_def)
  then have "match_loop host [] hosts = b \<longleftrightarrow> best_match host (set hosts) b"
    using best_match_unique by blast
  then show ?thesis by (auto simp: matching_tls_host_def)
qed

lemma match_loop_cong: "set xs = set ys \<Longrightarrow> match_loop host [] xs = match_loop host [] ys"
  using match_loop_best [of host "{}" "[]" xs] match_loop_best [of host "{}" "[]" ys]
  by (intro best_match_unique [of host "set ys"]) (auto simp: best_match_def)

lemma matching_tls_host_cong:
  "set xs = set ys \<Longrightarrow> matching_tls_host host xs = matching_tls_host host ys"
  unfolding matching_tls_host_def using match_loop_cong [of xs ys host] by presburger

lemma matching_tls_host_in: "matching_tls_host host hosts \<noteq> [] \<Longrightarrow> matching_tls_host host hosts \<in> set hosts"
  using match_loop_best [of host "{}" "[]" hosts]
  by (auto simp: matching_tls_host_def best_match_def split: if_splits)

subsection \<open>TLS hostnames an Ingress attaches to\<close>

fun add_hosts :: "string list \<Rightarrow> string list \<Rightarrow> string list \<Rightarrow> string list" where
  "add_hosts tlsHosts res [] = res"
| "add_hosts tlsHosts res (raw # raws) =
     (let matched = matching_tls_host (to_lower (trim_space raw)) tlsHosts in
      if matched = [] then add_hosts tlsHosts res raws
      else if matched \<in> set res then add_hosts tlsHosts res raws
      else add_hosts tlsHosts (res @ [matched]) raws)"

definition route_tls_hostnames :: "ingress \<Rightarrow> string list \<Rightarrow> string list" where
  "route_tls_hostnames ing tlsHosts =
     add_hosts tlsHosts
       (add_hosts tlsHosts [] (map ir_host (ing_rules ing)))
       (split_csv (annotation ing annServerAlias))"

lemma add_hosts_spec:
  "distinct res \<Longrightarrow> distinct (add_hosts T res raws) \<and>
     set (add_hosts T res raws) = set res \<union> ((\<lambda>raw. matching_tls_host (normal_host raw) T) ` set raws - {[]})"
  by (induction T res raws rule: add_hosts.induct) (auto simp: Let_def normal_host_def)

lemma route_tls_hostnames_set:
  "set (route_tls_hostnames ing T) =
     (\<lambda>raw. matching_tls_host (normal_host raw) T) `
       (ir_host ` set (ing_rules ing) \<union> set (split_csv (annotation ing annServerAlias))) - {[]}"
  by (auto simp: route_tls_hostnames_def add_hosts_spec)

end
