(* ===== verification/Placement.thy ===== *)
theory Placement
  imports TlsHosts
begin

text \<open>
  Placement of HTTPS listeners, from \<^verbatim>\<open>internal/translator/gateway.go\<close>: \<^verbatim>\<open>placeListeners\<close>,
  \<^verbatim>\<open>inheritedPlacement\<close> and the references to placed listeners. Index 0 is the Gateway, an
  index from 1 on a ListenerSet. The unbounded search for a ListenerSet with room is a
  \<^theory_text>\<open>function\<close> whose termination rests on the finite table of counts.
\<close>

named_theorems placement_simps \<open>one attempt to place a listener\<close>

definition gatewayHTTPSCapacity :: nat where "gatewayHTTPSCapacity = 63"
definition listenerSetCapacity :: nat where "listenerSetCapacity = 64"

record listener_placement =
  lp_set :: nat
  lp_secret :: nsname

record managed_options =
  mo_namespace :: string
  mo_name :: string
  mo_class :: string
  mo_proxy_name :: string
  mo_allow_sets :: bool
  mo_http_section :: string
  mo_https_section :: string
  mo_overflow :: bool
  mo_certs :: "(nsname, certificate_info) gomap option"
  mo_current :: "(string, listener_placement) gomap"

record projected_listener =
  pj_hostname :: string
  pj_secret :: nsname
  pj_hosts :: "string list"

definition managed_listener_set_name :: "string \<Rightarrow> nat \<Rightarrow> string" where
  "managed_listener_set_name gatewayName index = dns_label [gatewayName, itoa (int index)]"

subsection \<open>One attempt\<close>

record placing =
  pg_placed :: "(string, nat) gomap"
  pg_counts :: "(nat, nat) gomap"

definition listener_capacity :: "nat \<Rightarrow> nat" where
  "listener_capacity idx = (if idx = 0 then gatewayHTTPSCapacity else listenerSetCapacity)"

definition listener_usable :: "bool \<Rightarrow> nat \<Rightarrow> bool" where
  "listener_usable overflow idx \<longleftrightarrow> idx = 0 \<or> overflow"

definition try_place :: "bool \<Rightarrow> projected_listener \<Rightarrow> nat \<Rightarrow> placing \<Rightarrow> placing option" where
  "try_place overflow l idx st =
     (if \<not> listener_usable overflow idx \<or> gm_or 0 (pg_counts st) idx \<ge> listener_capacity idx then None
      else Some (st\<lparr>pg_placed := gm_put (pj_hostname l) idx (pg_placed st),
                    pg_counts := gm_put idx (gm_or 0 (pg_counts st) idx + 1) (pg_counts st)\<rparr>))"

subsection \<open>The three passes\<close>

text \<open>
  The first two passes share their loop, which knows \<^verbatim>\<open>tryPlace\<close> only by what it returns: a
  listener for which \<open>pick\<close> names a parent with room is placed there, every other one is left
  to the next pass.
\<close>

fun place_pass :: "('l \<Rightarrow> nat \<Rightarrow> 's \<Rightarrow> 's option) \<Rightarrow> ('l \<Rightarrow> nat option) \<Rightarrow> 'l list \<Rightarrow> 's \<Rightarrow> 's \<times> 'l list" where
  "place_pass tryp pick [] st = (st, [])"
| "place_pass tryp pick (l # ls) st =
     (case (case pick l of None \<Rightarrow> None | Some idx \<Rightarrow> tryp l idx st) of
        Some st' \<Rightarrow> place_pass tryp pick ls st'
      | None \<Rightarrow> (case place_pass tryp pick ls st of (st', rest) \<Rightarrow> (st', l # rest)))"

definition previous_index :: "(string, listener_placement) gomap \<Rightarrow> projected_listener \<Rightarrow> nat option" where
  "previous_index current l = map_option lp_set (gm_get current (pj_hostname l))"

fun first_placed :: "(string, listener_placement) gomap \<Rightarrow> string \<Rightarrow> string list \<Rightarrow> nat option" where
  "first_placed current self [] = None"
| "first_placed current self (member # members) =
     (if member = self then first_placed current self members
      else (case gm_get current member of
              Some placement \<Rightarrow> Some (lp_set placement)
            | None \<Rightarrow> first_placed current self members))"

definition inherited_placement :: "(string, listener_placement) gomap \<Rightarrow> projected_listener \<Rightarrow> nat option" where
  "inherited_placement current l =
     (if has_prefix (pj_hostname l) ''*.''
      then first_placed current (pj_hostname l) (sort_strings (remdups (pj_hosts l)))
      else (case one_label_up (pj_hostname l) of
              None \<Rightarrow> None
            | Some candidate \<Rightarrow> map_option lp_set (gm_get current candidate)))"

text \<open>\<^verbatim>\<open>for idx := 1; ; idx++\<close>, reached only when ListenerSets are available.\<close>

lemma full_index_counted: "gm_or 0 m idx \<ge> listener_capacity idx \<Longrightarrow> idx \<in> set (gm_keys m)"
  using gm_has_keys [of m idx]
  by (auto simp: gm_or_def listener_capacity_def gatewayHTTPSCapacity_def listenerSetCapacity_def
      split: option.splits if_splits)

function place_overflow :: "projected_listener \<Rightarrow> nat \<Rightarrow> placing \<Rightarrow> placing" where
  "place_overflow l idx st =
     (case try_place True l idx st of
        Some st' \<Rightarrow> st'
      | None \<Rightarrow> place_overflow l (Suc idx) st)"
  by pat_completeness auto
termination
proof (relation "measure (\<lambda>(l, idx, st). card {k \<in> set (gm_keys (pg_counts st)). idx \<le> k})", goal_cases)
  case (2 l idx st)
  then have "idx \<in> set (gm_keys (pg_counts st))"
    by (intro full_index_counted) (auto simp: try_place_def listener_usable_def split: if_splits)
  moreover define above where "above n = {k \<in> set (gm_keys (pg_counts st)). n \<le> k}" for n
  ultimately have "idx \<in> above idx" "idx \<notin> above (Suc idx)" "above (Suc idx) \<subseteq> above idx"
    by (simp_all add: above_def Collect_mono_iff)
  then have "above (Suc idx) \<subset> above idx" by blast
  moreover have "finite (above idx)" by (simp add: above_def)
  ultimately have "card (above (Suc idx)) < card (above idx)" by (rule psubset_card_mono [rotated])
  then show ?case by (simp add: above_def)
qed simp

declare place_overflow.simps [simp del]

fun place_rest :: "bool \<Rightarrow> projected_listener list \<Rightarrow> placing \<Rightarrow> placing \<times> projected_listener list" where
  "place_rest overflow [] st = (st, [])"
| "place_rest overflow (l # ls) st =
     (case try_place overflow l 0 st of
        Some st' \<Rightarrow> place_rest overflow ls st'
      | None \<Rightarrow>
          if \<not> overflow
          then (case place_rest overflow ls st of (st', unplaced) \<Rightarrow> (st', l # unplaced))
          else place_rest overflow ls (place_overflow l 1 st))"

definition empty_placing :: placing where
  "empty_placing = \<lparr>pg_placed = [], pg_counts = []\<rparr>"

definition by_hostname :: "projected_listener \<Rightarrow> projected_listener \<Rightarrow> bool" where
  "by_hostname a b \<longleftrightarrow> pj_hostname a < pj_hostname b"

definition place_listeners :: "projected_listener list \<Rightarrow> managed_options \<Rightarrow>
    (string, nat) gomap \<times> projected_listener list" where
  "place_listeners listeners options =
     (let sorted = sort_slice by_hostname listeners;
          (st1, pass2) = place_pass (try_place (mo_overflow options)) (previous_index (mo_current options)) sorted empty_placing;
          (st2, pass3) = place_pass (try_place (mo_overflow options)) (inherited_placement (mo_current options)) pass2 st1;
          (st3, unplaced) = place_rest (mo_overflow options) pass3 st2
      in (pg_placed st3, unplaced))"

subsection \<open>References to placed listeners\<close>

definition listener_ref_of :: "string \<Rightarrow> nat \<Rightarrow> managed_options \<Rightarrow> listener_ref" where
  "listener_ref_of hostname index options =
     (let section = dns_label [mo_https_section options, hostname] in
      if index = 0
      then \<lparr>lr_kind = GatewayKind, lr_name = mo_name options, lr_section = section\<rparr>
      else \<lparr>lr_kind = ListenerSetKind, lr_name = managed_listener_set_name (mo_name options) index,
             lr_section = section\<rparr>)"

definition listener_ref_for :: "string \<Rightarrow> (string, listener_placement) gomap \<Rightarrow> managed_options \<Rightarrow>
    listener_ref option" where
  "listener_ref_for host placements options =
     (case gm_get placements host of
        Some placement \<Rightarrow> Some (listener_ref_of host (lp_set placement) options)
      | None \<Rightarrow>
          if has_prefix host ''*.'' then None
          else (case one_label_up host of
                  None \<Rightarrow> None
                | Some candidate \<Rightarrow>
                    (case gm_get placements candidate of
                       Some placement \<Rightarrow> Some (listener_ref_of candidate (lp_set placement) options)
                     | None \<Rightarrow> None)))"

subsection \<open>What the passes rely on\<close>

text \<open>How many listeners a parent holds.\<close>

definition load :: "('h \<times> nat) list \<Rightarrow> nat \<Rightarrow> nat" where
  "load placed i = length (filter (\<lambda>p. snd p = i) placed)"

lemma load_simps [simp]:
  "load [] i = 0" "load (xs @ ys) i = load xs i + load ys i"
  "load [(h, j)] i = (if j = i then 1 else 0)"
  by (simp_all add: load_def)

locale placer =
  fixes tryp :: "'l \<Rightarrow> nat \<Rightarrow> 's \<Rightarrow> 's option"
    and placed :: "'s \<Rightarrow> ('h \<times> nat) list"
    and host :: "'l \<Rightarrow> 'h"
    and ok :: "'s \<Rightarrow> bool"
    and cap :: "nat \<Rightarrow> nat"
    and usable :: "nat \<Rightarrow> bool"
  assumes try_iff: "ok s \<Longrightarrow> (\<exists>s'. tryp l i s = Some s') \<longleftrightarrow> usable i \<and> load (placed s) i < cap i"
    and try_placed: "ok s \<Longrightarrow> host l \<notin> fst ` set (placed s) \<Longrightarrow> tryp l i s = Some s' \<Longrightarrow>
      placed s' = placed s @ [(host l, i)]"
    and try_ok: "ok s \<Longrightarrow> host l \<notin> fst ` set (placed s) \<Longrightarrow> tryp l i s = Some s' \<Longrightarrow> ok s'"
begin

definition fresh :: "'l list \<Rightarrow> 's \<Rightarrow> bool" where
  "fresh ls s \<longleftrightarrow> distinct (map host ls) \<and> host ` set ls \<inter> fst ` set (placed s) = {}"

lemma fresh_ConsD: "fresh (l # ls) s \<Longrightarrow> host l \<notin> fst ` set (placed s) \<and> fresh ls s"
  by (auto simp: fresh_def)

lemma fresh_step:
  assumes "ok s" and "fresh (l # ls) s" and "tryp l i s = Some s'"
  shows "fresh ls s'"
proof -
  have "host l \<notin> fst ` set (placed s)" using assms(2) by (rule fresh_ConsD [THEN conjunct1])
  from try_placed [OF assms(1) this assms(3)] show ?thesis
    using assms(2) by (auto simp: fresh_def)
qed

text \<open>A pass places some of its listeners, each where \<open>pick\<close> says, and leaves the others.\<close>

lemma pass_split:
  assumes "ok s" and "fresh ls s" and "place_pass tryp pick ls s = (s', rest)"
  shows "\<exists>done. ok s' \<and> placed s' = placed s @ map (\<lambda>l. (host l, the (pick l))) done \<and>
     mset ls = mset done + mset rest \<and> (\<forall>l \<in> set done. pick l \<noteq> None) \<and>
     (\<forall>p. sorted_wrt p ls \<longrightarrow> sorted_wrt p rest)"
  using assms
proof (induction ls arbitrary: s rest)
  case (Cons l ls)
  note fr = fresh_ConsD [OF Cons.prems(2)]
  show ?case
  proof (cases "case pick l of None \<Rightarrow> None | Some idx \<Rightarrow> tryp l idx s")
    case None
    with Cons.prems(3) obtain r where r: "place_pass tryp pick ls s = (s', r)" "rest = l # r"
      by (auto split: prod.splits)
    obtain d where "ok s'" "placed s' = placed s @ map (\<lambda>l. (host l, the (pick l))) d"
      "mset ls = mset d + mset r" "\<forall>l \<in> set d. pick l \<noteq> None"
      "\<forall>p. sorted_wrt p ls \<longrightarrow> sorted_wrt p r"
      using Cons.IH [OF Cons.prems(1) fr [THEN conjunct2] r(1)] by blast
    moreover from this(3) have "set r \<subseteq> set ls" by (metis mset_subset_eq_add_right set_mset_mono set_mset_mset)
    ultimately show ?thesis using r(2) by (intro exI [of _ d]) auto
  next
    case (Some s1)
    then obtain i where i: "pick l = Some i" "tryp l i s = Some s1" by (auto split: option.splits)
    note p1 = try_placed [OF Cons.prems(1) fr [THEN conjunct1] i(2)]
    obtain d where "ok s'" "placed s' = placed s1 @ map (\<lambda>l. (host l, the (pick l))) d"
      "mset ls = mset d + mset rest" "\<forall>l \<in> set d. pick l \<noteq> None"
      "\<forall>p. sorted_wrt p ls \<longrightarrow> sorted_wrt p rest"
      using Cons.IH [OF try_ok [OF Cons.prems(1) fr [THEN conjunct1] i(2)]
          fresh_step [OF Cons.prems(1,2) i(2)], of rest] Cons.prems(3) Some by auto
    then show ?thesis using p1 i(1) by (intro exI [of _ "l # d"]) auto
  qed
qed simp

text \<open>Where a parent has room for all listeners that pick it, they all stay there.\<close>

lemma pass_sticky:
  assumes "ok s" and "fresh ls s" and "place_pass tryp pick ls s = (s', rest)" and "usable i"
    and "load (placed s) i + length (filter (\<lambda>l. pick l = Some i) ls) \<le> cap i"
    and "l \<in> set ls" and "pick l = Some i"
  shows "(host l, i) \<in> set (placed s') \<and> l \<notin> set rest"
  using assms
proof (induction ls arbitrary: s rest)
  case (Cons k ls)
  note fr = fresh_ConsD [OF Cons.prems(2)]
  show ?case
  proof (cases "case pick k of None \<Rightarrow> None | Some idx \<Rightarrow> tryp k idx s")
    case None
    have "pick k \<noteq> Some i"
    proof
      assume *: "pick k = Some i"
      with None have "tryp k i s = None" by simp
      with try_iff [OF Cons.prems(1), of k i] Cons.prems(4,5) * show False by auto
    qed
    moreover obtain r where "place_pass tryp pick ls s = (s', r)" "rest = k # r"
      using Cons.prems(3) None by (auto split: prod.splits)
    ultimately show ?thesis
      using Cons.IH [OF Cons.prems(1) fr [THEN conjunct2], of r] Cons.prems(4-7) by auto
  next
    case (Some s1)
    then obtain j where j: "pick k = Some j" "tryp k j s = Some s1" by (auto split: option.splits)
    note p1 = try_placed [OF Cons.prems(1) fr [THEN conjunct1] j(2)]
      and ok1 = try_ok [OF Cons.prems(1) fr [THEN conjunct1] j(2)]
      and fr1 = fresh_step [OF Cons.prems(1,2) j(2)]
    have next': "place_pass tryp pick ls s1 = (s', rest)" using Cons.prems(3) Some by simp
    show ?thesis
    proof (cases "l = k")
      case True
      with j Cons.prems(7) have "(host l, i) \<in> set (placed s1)" using p1 by simp
      moreover have "l \<notin> set ls" using Cons.prems(2) True by (auto simp: fresh_def)
      ultimately show ?thesis
        using pass_split [OF ok1 fr1 next'] by (metis Un_iff set_append set_mset_mset set_mset_union)
    next
      case False
      have "load (placed s1) i + length (filter (\<lambda>l. pick l = Some i) ls) \<le> cap i"
        using Cons.prems(5) j(1) p1 by (auto split: if_splits)
      then show ?thesis
        using Cons.IH [OF ok1 fr1 next'] Cons.prems(4,6,7) False by auto
    qed
  qed
qed simp

end

subsection \<open>The code's tryPlace meets the contract\<close>

definition placing_ok :: "bool \<Rightarrow> placing \<Rightarrow> bool" where
  "placing_ok overflow st \<longleftrightarrow> gomap_ok (pg_placed st) \<and>
     (\<forall>i. gm_or 0 (pg_counts st) i = load (pg_placed st) i \<and> load (pg_placed st) i \<le> listener_capacity i) \<and>
     (\<forall>p \<in> set (pg_placed st). listener_usable overflow (snd p))"

lemma gm_put_fresh: "k \<notin> fst ` set m \<Longrightarrow> gm_put k v m = m @ [(k, v)]"
  by (induction m) auto

lemma try_place_some:
  assumes "pj_hostname l \<notin> fst ` set (pg_placed st)" and "try_place ov l i st = Some st'"
  shows "pg_placed st' = pg_placed st @ [(pj_hostname l, i)]"
    "pg_counts st' = gm_put i (gm_or 0 (pg_counts st) i + 1) (pg_counts st)"
    "listener_usable ov i" "gm_or 0 (pg_counts st) i < listener_capacity i"
  using assms by (auto simp: try_place_def gm_put_fresh split: if_splits)

interpretation gw: placer "try_place ov" pg_placed pj_hostname "placing_ok ov" listener_capacity "listener_usable ov"
  for ov
proof (unfold_locales, goal_cases)
  case (1 s l i)
  then show ?case by (auto simp: try_place_def placing_ok_def)
next
  case (2 s l i s')
  then show ?case by (intro try_place_some(1))
next
  case (3 s l i s')
  note t = try_place_some [OF 3(2,3)]
  show ?case
    using 3(1,2) t(3,4) unfolding placing_ok_def t(1,2)
    by (auto simp: gomap_simps gomap_ok_def Suc_le_eq)
qed

lemma empty_placing_ok: "placing_ok ov empty_placing"
  by (simp add: placing_ok_def empty_placing_def)

lemma overflow_least:
  "\<exists>i \<ge> idx. list_all (\<lambda>j. try_place True l j st = None) [idx..<i] \<and> try_place True l i st = Some (place_overflow l idx st)"
proof (induction l idx st rule: place_overflow.induct)
  case (1 l idx st)
  show ?case
  proof (cases "try_place True l idx st")
    case None
    with 1 obtain i where i: "i \<ge> Suc idx" "list_all (\<lambda>j. try_place True l j st = None) [Suc idx..<i]"
      "try_place True l i st = Some (place_overflow l (Suc idx) st)" by blast
    moreover have "[idx..<i] = idx # [Suc idx..<i]" using i(1) by (simp add: upt_conv_Cons)
    ultimately show ?thesis using None by (intro exI [of _ i]) (simp add: place_overflow.simps [of l idx st])
  qed (auto simp: place_overflow.simps [of l idx st])
qed

definition full :: "bool \<Rightarrow> placing \<Rightarrow> bool" where
  "full ov st \<longleftrightarrow> \<not> ov \<and> load (pg_placed st) 0 = gatewayHTTPSCapacity"

lemma place_rest_split:
  assumes "placing_ok ov st" and "gw.fresh ls st" and "place_rest ov ls st = (st', unplaced)"
  shows "placing_ok ov st' \<and> set (pg_placed st) \<subseteq> set (pg_placed st') \<and>
    mset (map fst (pg_placed st')) + mset (map pj_hostname unplaced) = mset (map fst (pg_placed st)) + mset (map pj_hostname ls) \<and>
    (unplaced \<noteq> [] \<longrightarrow> full ov st') \<and> set unplaced \<subseteq> set ls"
  using assms
proof (induction ls arbitrary: st unplaced)
  case (Cons l ls)
  note fr = gw.fresh_ConsD [OF Cons.prems(2)]
  have step: ?case if t: "try_place ov l i st = Some s1" and n: "place_rest ov ls s1 = (st', unplaced)" for i s1
    using Cons.IH [OF gw.try_ok [OF Cons.prems(1) fr [THEN conjunct1] t]
        gw.fresh_step [OF Cons.prems(1,2) t] n] gw.try_placed [OF Cons.prems(1) fr [THEN conjunct1] t]
    by auto
  show ?case
  proof (cases "try_place ov l 0 st")
    case None
    show ?thesis
    proof (cases ov)
      case True
      moreover obtain i where "try_place True l i st = Some (place_overflow l 1 st)"
        using overflow_least by blast
      ultimately show ?thesis using step None Cons.prems(3) by simp
    next
      case False
      with None Cons.prems(3) obtain u where u: "place_rest ov ls st = (st', u)" "unplaced = l # u"
        by (auto split: prod.splits)
      have "load (pg_placed st) 0 = gatewayHTTPSCapacity"
        using None Cons.prems(1) by (auto simp: try_place_def placing_ok_def listener_usable_def
            listener_capacity_def split: if_splits intro: antisym)
      moreover note ih = Cons.IH [OF Cons.prems(1) fr [THEN conjunct2] u(1)]
      moreover have "load (pg_placed st) 0 \<le> load (pg_placed st') 0"
      proof -
        have "distinct (pg_placed st)" "distinct (pg_placed st')"
          using Cons.prems(1) ih by (auto simp: placing_ok_def gomap_ok_def distinct_map)
        then have "load (pg_placed st) 0 = card {p \<in> set (pg_placed st). snd p = 0}"
          "load (pg_placed st') 0 = card {p \<in> set (pg_placed st'). snd p = 0}"
          by (simp_all add: load_def distinct_card [symmetric])
        then show ?thesis using ih by (auto intro!: card_mono)
      qed
      moreover have "load (pg_placed st') 0 \<le> gatewayHTTPSCapacity"
        using ih by (auto simp: placing_ok_def listener_capacity_def dest: spec [of _ 0])
      ultimately show ?thesis using False u(2) by (auto simp: full_def)
    qed
  qed (use step Cons.prems(3) in auto)
qed (auto simp: full_def)

subsection \<open>The whole placement\<close>

interpretation by_hostname: key_order pj_hostname by_hostname
  by unfold_locales (simp add: by_hostname_def)

lemma place_listeners_split:
  assumes "distinct (map pj_hostname ls)" and "place_listeners ls opts = (placed, unplaced)"
  obtains st where "placed = pg_placed st" "placing_ok (mo_overflow opts) st"
    "mset (map fst placed) + mset (map pj_hostname unplaced) = mset (map pj_hostname ls)"
    "unplaced \<noteq> [] \<longrightarrow> full (mo_overflow opts) st" "set unplaced \<subseteq> set ls"
    "\<And>l i. l \<in> set ls \<Longrightarrow> previous_index (mo_current opts) l = Some i \<Longrightarrow> listener_usable (mo_overflow opts) i \<Longrightarrow>
       length (filter (\<lambda>l. previous_index (mo_current opts) l = Some i) ls) \<le> listener_capacity i \<Longrightarrow>
       (pj_hostname l, i) \<in> set placed"
proof -
  let ?ov = "mo_overflow opts"
  define sorted where "sorted = sort_slice by_hostname ls"
  obtain s1 p2 where p1: "place_pass (try_place ?ov) (previous_index (mo_current opts)) sorted empty_placing = (s1, p2)"
    by fastforce
  obtain s2 p3 where p2: "place_pass (try_place ?ov) (inherited_placement (mo_current opts)) p2 s1 = (s2, p3)"
    by fastforce
  obtain s3 u where p3: "place_rest ?ov p3 s2 = (s3, u)" by fastforce
  have res: "placed = pg_placed s3" "unplaced = u"
    using assms(2) p1 p2 p3 by (simp_all add: place_listeners_def sorted_def)
  have fr0: "gw.fresh sorted empty_placing"
    using assms(1) by (simp add: gw.fresh_def sorted_def empty_placing_def)
  obtain d1 where d1: "placing_ok ?ov s1" "mset sorted = mset d1 + mset p2"
    and m1: "map fst (pg_placed s1) = map pj_hostname d1"
    using gw.pass_split [OF empty_placing_ok fr0 p1] by (auto simp: empty_placing_def comp_def)
  have dist: "distinct (map pj_hostname (d1 @ p2))"
  proof -
    have "mset (map pj_hostname (d1 @ p2)) = mset (map pj_hostname sorted)"
      using mset_map_split [OF d1(2), of pj_hostname] by simp
    then show ?thesis using fr0 by (metis gw.fresh_def mset_eq_imp_distinct_iff)
  qed
  have fr1: "gw.fresh p2 s1"
    using dist m1 by (auto simp: gw.fresh_def simp flip: set_map)
  obtain d2 where d2: "placing_ok ?ov s2" "mset p2 = mset d2 + mset p3"
    and m2: "map fst (pg_placed s2) = map pj_hostname d1 @ map pj_hostname d2"
    using gw.pass_split [OF d1(1) fr1 p2] m1 by (auto simp: comp_def)
  have dist2: "distinct (map pj_hostname (d1 @ d2 @ p3))"
  proof -
    have "mset (map pj_hostname (d1 @ d2 @ p3)) = mset (map pj_hostname (d1 @ p2))"
      using mset_map_split [OF d2(2), of pj_hostname] by simp
    then show ?thesis using dist by (metis mset_eq_imp_distinct_iff)
  qed
  have fr2: "gw.fresh p3 s2"
    using dist2 m2 by (auto simp: gw.fresh_def simp flip: set_map)
  note r = place_rest_split [OF d2(1) fr2 p3]
  have "mset (map fst placed) + mset (map pj_hostname unplaced) = mset (map pj_hostname ls)"
    using r m2 mset_map_split [OF d1(2), of pj_hostname] mset_map_split [OF d2(2), of pj_hostname]
    unfolding res sorted_def by (simp add: ac_simps)
  moreover have "set unplaced \<subseteq> set ls"
  proof -
    have "set p3 \<subseteq> set p2" using arg_cong [OF d2(2), of set_mset] by auto
    moreover have "set p2 \<subseteq> set sorted" using arg_cong [OF d1(2), of set_mset] by auto
    ultimately show ?thesis using r unfolding res sorted_def by auto
  qed
  moreover have "(pj_hostname l, i) \<in> set placed"
    if "l \<in> set ls" "previous_index (mo_current opts) l = Some i" "listener_usable ?ov i"
      "length (filter (\<lambda>l. previous_index (mo_current opts) l = Some i) ls) \<le> listener_capacity i" for l i
  proof -
    have "length (filter (\<lambda>l. previous_index (mo_current opts) l = Some i) sorted) =
        length (filter (\<lambda>l. previous_index (mo_current opts) l = Some i) ls)"
      by (metis mset_filter mset_sort_slice size_mset sorted_def)
    then have "(pj_hostname l, i) \<in> set (pg_placed s1)"
      using gw.pass_sticky [OF empty_placing_ok fr0 p1 that(3), of l] that
      by (simp add: empty_placing_def sorted_def)
    moreover have "set (pg_placed s1) \<subseteq> set (pg_placed s2)"
      using gw.pass_split [OF d1(1) fr1 p2] by auto
    ultimately show ?thesis using r res(1) by blast
  qed
  ultimately show thesis using r res that by blast
qed

lemma place_listeners_facts:
  assumes "distinct (map pj_hostname ls)" and "place_listeners ls opts = (placed, unplaced)"
  shows "gomap_ok placed" "\<And>i. load placed i \<le> listener_capacity i"
    "\<And>h i. (h, i) \<in> set placed \<Longrightarrow> listener_usable (mo_overflow opts) i"
    "mset (map fst placed) + mset (map pj_hostname unplaced) = mset (map pj_hostname ls)"
    "mo_overflow opts \<Longrightarrow> unplaced = []" "unplaced \<noteq> [] \<Longrightarrow> load placed 0 = 63"
    "set unplaced \<subseteq> set ls"
proof -
  from assms obtain st where st: "placed = pg_placed st" "placing_ok (mo_overflow opts) st"
    "mset (map fst placed) + mset (map pj_hostname unplaced) = mset (map pj_hostname ls)"
    "unplaced \<noteq> [] \<longrightarrow> full (mo_overflow opts) st" "set unplaced \<subseteq> set ls"
    by (rule place_listeners_split)
  then show "gomap_ok placed" "\<And>i. load placed i \<le> listener_capacity i"
    "\<And>h i. (h, i) \<in> set placed \<Longrightarrow> listener_usable (mo_overflow opts) i"
    "mset (map fst placed) + mset (map pj_hostname unplaced) = mset (map pj_hostname ls)"
    "mo_overflow opts \<Longrightarrow> unplaced = []" "unplaced \<noteq> [] \<Longrightarrow> load placed 0 = 63"
    "set unplaced \<subseteq> set ls"
    by (auto simp: placing_ok_def full_def gatewayHTTPSCapacity_def)
qed

text \<open>
  C27. Placement is sticky: a listener that the previous plan put on a parent stays on that
  parent, as long as the parent kind is available and no more listeners claim that parent
  than it can hold, whatever other listeners come and go.
\<close>

theorem place_listeners_sticky:
  assumes "distinct (map pj_hostname ls)" and "l \<in> set ls"
    and "gm_get (mo_current opts) (pj_hostname l) = Some prev" and "listener_usable (mo_overflow opts) (lp_set prev)"
    and "length (filter (\<lambda>k. previous_index (mo_current opts) k = Some (lp_set prev)) ls) \<le> listener_capacity (lp_set prev)"
  shows "gm_get (fst (place_listeners ls opts)) (pj_hostname l) = Some (lp_set prev)"
proof -
  obtain placed unplaced where p: "place_listeners ls opts = (placed, unplaced)" by fastforce
  have "previous_index (mo_current opts) l = Some (lp_set prev)"
    using assms(3) by (simp add: previous_index_def)
  then have "(pj_hostname l, lp_set prev) \<in> set placed"
    using place_listeners_split [OF assms(1) p] assms(2,4,5) by metis
  then show ?thesis using place_listeners_facts(1) [OF assms(1) p] p by (simp add: gomap_ok_in)
qed

definition sample_options :: managed_options where
  "sample_options = \<lparr>mo_namespace = ''gw'', mo_name = ''edge'', mo_class = ''nginx'', mo_proxy_name = [],
     mo_allow_sets = False, mo_http_section = ''http'', mo_https_section = ''https'', mo_overflow = True,
     mo_certs = None, mo_current = []\<rparr>"

definition sample_listener :: "string \<Rightarrow> projected_listener" where
  "sample_listener h = \<lparr>pj_hostname = h, pj_secret = nsname ''app'' ''tls'', pj_hosts = [h]\<rparr>"

theorem place_listeners_sticky_witness:
  "gm_get (fst (place_listeners [sample_listener ''a.example'', sample_listener ''b.example'']
     (sample_options\<lparr>mo_current := [(''b.example'', \<lparr>lp_set = 2, lp_secret = nsname ''app'' ''tls''\<rparr>)]\<rparr>))) ''b.example'' = Some 2"
  using place_listeners_sticky [of "[sample_listener ''a.example'', sample_listener ''b.example'']"
      "sample_listener ''b.example''"
      "sample_options\<lparr>mo_current := [(''b.example'', \<lparr>lp_set = 2, lp_secret = nsname ''app'' ''tls''\<rparr>)]\<rparr>"]
  by (simp add: sample_listener_def sample_options_def previous_index_def listener_usable_def
      listener_capacity_def listenerSetCapacity_def)

text \<open>Replanning from a placement that already holds every listener changes nothing.\<close>

lemma place_listeners_fixpoint:
  assumes "distinct (map pj_hostname ls)" and "place_listeners ls opts = (placed, unplaced)"
    and "\<And>l. l \<in> set ls \<Longrightarrow> previous_index (mo_current opts) l = gm_get old (pj_hostname l)"
    and "gomap_ok old" and "set (gm_keys old) = pj_hostname ` set ls"
    and "\<And>i. load old i \<le> listener_capacity i" and "\<And>h i. (h, i) \<in> set old \<Longrightarrow> listener_usable (mo_overflow opts) i"
  shows "gm_get placed = gm_get old" "set (gm_keys placed) = set (gm_keys old)" "unplaced = []"
proof -
  have cap: "length (filter (\<lambda>l. previous_index (mo_current opts) l = Some i) ls) \<le> listener_capacity i" for i
  proof -
    have "pj_hostname ` {l \<in> set ls. previous_index (mo_current opts) l = Some i} \<subseteq>
        fst ` {p \<in> set old. snd p = i}"
      using assms(3,4) by (force simp: gomap_ok_in [symmetric])
    then have "card (pj_hostname ` {l \<in> set ls. previous_index (mo_current opts) l = Some i}) \<le>
        card (fst ` {p \<in> set old. snd p = i})" by (intro card_mono) auto
    also have "\<dots> \<le> card {p \<in> set old. snd p = i}" by (rule card_image_le) simp
    also have "\<dots> = load old i"
      using assms(4) by (simp add: load_def gomap_ok_def distinct_map distinct_card [symmetric])
    finally have "card (pj_hostname ` {l \<in> set ls. previous_index (mo_current opts) l = Some i}) \<le> listener_capacity i"
      using assms(6) [of i] by simp
    moreover have "card (pj_hostname ` {l \<in> set ls. previous_index (mo_current opts) l = Some i}) =
        length (filter (\<lambda>l. previous_index (mo_current opts) l = Some i) ls)"
      using assms(1) by (subst card_image)
        (auto simp: distinct_map distinct_card [symmetric] intro: inj_on_subset)
    ultimately show ?thesis by simp
  qed
  have all: "gm_get placed (pj_hostname l) = gm_get old (pj_hostname l)" "pj_hostname l \<in> set (gm_keys placed)"
    if l: "l \<in> set ls" for l
  proof -
    have "gm_has old (pj_hostname l)" using assms(5) l by (auto simp: gm_has_keys simp del: not_None_eq)
    then obtain i where i: "gm_get old (pj_hostname l) = Some i" by blast
    then have "listener_usable (mo_overflow opts) i" using assms(4,7) by (simp add: gomap_ok_in)
    then have p: "(pj_hostname l, i) \<in> set placed"
      using place_listeners_split [OF assms(1,2)] l cap assms(3) [OF l] i by metis
    then show "gm_get placed (pj_hostname l) = gm_get old (pj_hostname l)"
      using place_listeners_facts(1) [OF assms(1,2)] i by (simp add: gomap_ok_in)
    show "pj_hostname l \<in> set (gm_keys placed)" using p by force
  qed
  note f = place_listeners_facts [OF assms(1,2)]
  have sub: "set (gm_keys placed) \<subseteq> pj_hostname ` set ls"
    using arg_cong [OF f(4), of set_mset] by (auto simp flip: set_map)
  then show keys: "set (gm_keys placed) = set (gm_keys old)" using all assms(5) by auto
  show "gm_get placed = gm_get old"
  proof
    fix k
    show "gm_get placed k = gm_get old k"
      using all sub keys assms(5) gm_has_keys [of placed k] gm_has_keys [of old k]
      by (cases "k \<in> pj_hostname ` set ls") (auto simp del: not_None_eq)
  qed
  have "length (gm_keys placed) = length ls"
    using f(1) assms(1) keys assms(5) by (metis distinct_card gomap_ok_def length_map set_map)
  then show "unplaced = []" using arg_cong [OF f(4), of size] by simp
qed

subsection \<open>The search for room ends\<close>

text \<open>The loop as it is written, which a wrong capacity could keep running forever.\<close>

partial_function (option) overflow_loop :: "projected_listener \<Rightarrow> nat \<Rightarrow> placing \<Rightarrow> placing option" where
  "overflow_loop l idx st =
     (case try_place True l idx st of
        Some st' \<Rightarrow> Some st'
      | None \<Rightarrow> overflow_loop l (Suc idx) st)"

lemma overflow_loop_returns: "overflow_loop l idx st = Some (place_overflow l idx st)"
proof (induction l idx st rule: place_overflow.induct)
  case (1 l idx st)
  then show ?case
    by (subst overflow_loop.simps, subst place_overflow.simps) (simp split: option.split)
qed

lemma full_indices:
  assumes "\<And>j. j \<in> set [idx..<i] \<Longrightarrow> try_place True l j st = None"
  shows "i - idx \<le> length (pg_counts st)"
proof -
  have "j \<in> set (gm_keys (pg_counts st))" if "j \<in> set [idx..<i]" for j
    using assms [OF that] by (intro full_index_counted) (auto simp: try_place_def listener_usable_def split: if_splits)
  then have "card (set [idx..<i]) \<le> card (set (gm_keys (pg_counts st)))"
    by (intro card_mono subsetI) simp_all
  also have "\<dots> \<le> length (pg_counts st)" using card_length [of "gm_keys (pg_counts st)"] by simp
  finally show ?thesis by simp
qed

text \<open>
  C28. The unbounded search of the code for a ListenerSet with room ends: from any index it tries at
  most one more parent than there are parents with listeners, and takes the first that has room.
\<close>

theorem overflow_search_ends:
  "overflow_loop l idx st = Some (place_overflow l idx st) \<and>
   list_ex (\<lambda>i. list_all (\<lambda>j. try_place True l j st = None) [idx..<i] \<and> try_place True l i st = Some (place_overflow l idx st))
     [idx..<Suc (idx + length (pg_counts st))]"
proof -
  obtain i where i: "i \<ge> idx" "list_all (\<lambda>j. try_place True l j st = None) [idx..<i]"
    "try_place True l i st = Some (place_overflow l idx st)"
    using overflow_least by blast
  then have "i \<le> idx + length (pg_counts st)" using full_indices [of idx i l st] by (auto simp: list_all_iff)
  then have "i \<in> set [idx..<Suc (idx + length (pg_counts st))]" using i(1) by (simp add: less_Suc_eq_le del: upt_Suc)
  with i(2,3) show ?thesis using overflow_loop_returns unfolding list_ex_iff by blast
qed

end
