(* ===== verification/Wildcard.thy ===== *)
theory Wildcard
  imports Placement
begin

text \<open>
  \<^verbatim>\<open>resolveWildcardGroup\<close> of \<^verbatim>\<open>internal/translator/gateway.go\<close>: which certificate class serves
  the shared listener of a wildcard, and which hostnames fall back to listeners of their own.
\<close>

record listener_claim =
  cl_host :: string
  cl_secret :: nsname
  cl_pinned :: bool

definition nn_less :: "nsname \<Rightarrow> nsname \<Rightarrow> bool" where
  "nn_less a b \<longleftrightarrow> nn_string a < nn_string b"

interpretation nn_order: key_order nn_string nn_less
  by unfold_locales (simp add: nn_less_def)

definition sorted_namespaced_names :: "nsname list \<Rightarrow> nsname list" where
  "sorted_namespaced_names names = sort_slice nn_less (remdups names)"

definition sorted_strings :: "string list \<Rightarrow> string list" where
  "sorted_strings names = sort_strings (remdups names)"

definition class_of :: "managed_options \<Rightarrow> nsname \<Rightarrow> string" where
  "class_of options secret =
     (case (case mo_certs options of None \<Rightarrow> None | Some certs \<Rightarrow> gm_get certs secret) of
        Some info \<Rightarrow> if ci_fingerprint info \<noteq> [] then ''fp:'' @ ci_fingerprint info
                     else ''secret:'' @ nn_string secret
      | None \<Rightarrow> ''secret:'' @ nn_string secret)"

definition class_secrets :: "listener_claim list \<Rightarrow> nsname list" where
  "class_secrets claims = sorted_namespaced_names (map cl_secret claims)"

definition class_hosts :: "listener_claim list \<Rightarrow> string list" where
  "class_hosts claims = sorted_strings (map cl_host claims)"

definition class_pinned :: "listener_claim list \<Rightarrow> bool" where
  "class_pinned claims = list_ex cl_pinned claims"

definition wildcard_classes :: "managed_options \<Rightarrow> listener_claim list \<Rightarrow> (string, listener_claim list) gomap" where
  "wildcard_classes options claims = group_on (\<lambda>c. class_of options (cl_secret c)) (\<lambda>c. c) claims"

subsection \<open>Scores\<close>

record class_score =
  sc_key :: string
  sc_churn :: nat
  sc_hosts :: nat
  sc_first :: string

definition points_at :: "(string, listener_placement) gomap \<Rightarrow> string \<Rightarrow> bool" where
  "points_at placements hostname \<longleftrightarrow> gm_has placements hostname"

definition previous_listener :: "managed_options \<Rightarrow> string \<Rightarrow> listener_claim \<Rightarrow> string option" where
  "previous_listener options target c =
     (if points_at (mo_current options) (cl_host c) then Some (cl_host c)
      else if points_at (mo_current options) target then Some target
      else None)"

definition churn :: "managed_options \<Rightarrow> string \<Rightarrow> listener_claim list \<Rightarrow> listener_claim list \<Rightarrow> nat" where
  "churn options target claims inClass =
     length (filter (\<lambda>c. case previous_listener options target c of
                           None \<Rightarrow> False
                         | Some prev \<Rightarrow>
                             prev \<noteq> (if cl_host c \<in> set (map cl_host inClass) then target else cl_host c))
                    claims)"

definition score_of :: "managed_options \<Rightarrow> string \<Rightarrow> listener_claim list \<Rightarrow> string \<times> listener_claim list \<Rightarrow> class_score" where
  "score_of options target claims = (\<lambda>(key, wc).
     \<lparr>sc_key = key, sc_churn = churn options target claims wc, sc_hosts = length (class_hosts wc),
      sc_first = (case class_secrets wc of [] \<Rightarrow> [] | s # _ \<Rightarrow> nn_string s)\<rparr>)"

definition score_less :: "class_score \<Rightarrow> class_score \<Rightarrow> bool" where
  "score_less a b \<longleftrightarrow>
     (if sc_churn a \<noteq> sc_churn b then sc_churn a < sc_churn b
      else if sc_hosts a \<noteq> sc_hosts b then sc_hosts a > sc_hosts b
      else sc_first a < sc_first b)"

interpretation score_order: key_order "\<lambda>s. (sc_churn s, - int (sc_hosts s), sc_first s)" score_less
  by unfold_locales (auto simp: score_less_def)

text \<open>
  A literal wildcard declaration wins its class outright; otherwise the best score does. The
  groups \<^verbatim>\<open>BuildManagedGateway\<close> passes are never empty, so the empty case is not reached.
\<close>

definition winner_key :: "managed_options \<Rightarrow> string \<Rightarrow> listener_claim list \<Rightarrow> string" where
  "winner_key options target claims =
     (let classes = wildcard_classes options claims in
      case find (\<lambda>(key, wc). class_pinned wc) classes of
        Some (key, wc) \<Rightarrow> key
      | None \<Rightarrow>
          (case sort_slice score_less (map (score_of options target claims) classes) of
             [] \<Rightarrow> []
           | best # _ \<Rightarrow> sc_key best))"

definition canonical_secret :: "managed_options \<Rightarrow> string \<Rightarrow> listener_claim list \<Rightarrow> nsname" where
  "canonical_secret options target winner =
     (let secrets = class_secrets winner;
          first = (case secrets of [] \<Rightarrow> nsname [] [] | s # _ \<Rightarrow> s) in
      case gm_get (mo_current options) target of
        None \<Rightarrow> first
      | Some previous \<Rightarrow> if lp_secret previous \<in> set secrets then lp_secret previous else first)"

definition fallback_listener :: "listener_claim \<Rightarrow> projected_listener" where
  "fallback_listener c = \<lparr>pj_hostname = cl_host c, pj_secret = cl_secret c, pj_hosts = [cl_host c]\<rparr>"

definition resolve_wildcard_group :: "string \<Rightarrow> listener_claim list \<Rightarrow> managed_options \<Rightarrow>
    projected_listener \<times> projected_listener list" where
  "resolve_wildcard_group target claims options =
     (let classes = wildcard_classes options claims;
          winnerKey = winner_key options target claims;
          winner = gm_or [] classes winnerKey
      in (\<lparr>pj_hostname = target, pj_secret = canonical_secret options target winner, pj_hosts = class_hosts winner\<rparr>,
          sort_slice by_hostname
            (concat (map (\<lambda>(key, wc). if key = winnerKey then [] else map fallback_listener wc) classes))))"

subsection \<open>The classes partition the claims\<close>

definition in_class :: "managed_options \<Rightarrow> string \<Rightarrow> listener_claim \<Rightarrow> bool" where
  "in_class options key c \<longleftrightarrow> class_of options (cl_secret c) = key"

lemma wildcard_classes_in:
  "(key, wc) \<in> set (wildcard_classes options claims) \<longleftrightarrow>
     (\<exists>c \<in> set claims. in_class options key c) \<and> wc = filter (in_class options key) claims"
proof -
  have "gomap_ok (wildcard_classes options claims)" by (simp add: wildcard_classes_def group_on_ok)
  then show ?thesis
    by (auto simp: gomap_ok_in wildcard_classes_def group_on_get in_class_def [abs_def] split: if_splits)
qed

lemma wildcard_class_or: "gm_or [] (wildcard_classes options claims) key = filter (in_class options key) claims"
  by (simp add: wildcard_classes_def group_on_or in_class_def [abs_def])

lemma sorted_namespaced_names_set [simp]: "set (sorted_namespaced_names ns) = set ns"
  by (simp add: sorted_namespaced_names_def)

lemma sorted_strings_set [simp]: "set (sorted_strings ns) = set ns" "distinct (sorted_strings ns)"
  by (simp_all add: sorted_strings_def)

lemma class_secrets_set [simp]: "set (class_secrets cs) = cl_secret ` set cs"
  by (simp add: class_secrets_def)

lemma class_hosts_set [simp]: "set (class_hosts cs) = cl_host ` set cs" "distinct (class_hosts cs)"
  by (simp_all add: class_hosts_def)

lemma winner_key_class:
  assumes "claims \<noteq> []"
  shows "\<exists>c \<in> set claims. in_class options (winner_key options target claims) c"
proof (cases "find (\<lambda>(key, wc). class_pinned wc) (wildcard_classes options claims)")
  case None
  let ?scores = "sort_slice score_less (map (score_of options target claims) (wildcard_classes options claims))"
  obtain c where c: "c \<in> set claims" using assms by (cases claims) auto
  then have "(class_of options (cl_secret c), filter (in_class options (class_of options (cl_secret c))) claims)
      \<in> set (wildcard_classes options claims)"
    by (auto simp: wildcard_classes_in in_class_def)
  then have "wildcard_classes options claims \<noteq> []" by auto
  then obtain best rest where b: "?scores = best # rest" by (cases ?scores) auto
  then have "best \<in> set (map (score_of options target claims) (wildcard_classes options claims))"
    by (metis list.set_intros(1) set_sort_slice)
  then obtain key wc where "(key, wc) \<in> set (wildcard_classes options claims)" "sc_key best = key"
    by (auto simp: score_of_def)
  with None b show ?thesis by (auto simp: winner_key_def wildcard_classes_in)
next
  case (Some kw)
  then obtain key wc where kw: "kw = (key, wc)" by fastforce
  with Some have "(key, wc) \<in> set (wildcard_classes options claims)"
    by (metis find_Some_iff nth_mem)
  with Some kw show ?thesis by (auto simp: winner_key_def wildcard_classes_in)
qed

lemma canonical_secret_in:
  assumes "winner \<noteq> []"
  shows "canonical_secret options target winner \<in> cl_secret ` set winner"
proof -
  have "class_secrets winner \<noteq> []" using assms class_secrets_set [of winner] by (metis image_is_empty set_empty)
  then obtain s ss where "class_secrets winner = s # ss" by (cases "class_secrets winner") auto
  then have "s \<in> cl_secret ` set winner" "set (s # ss) = cl_secret ` set winner"
    using class_secrets_set [of winner] by (metis list.set_intros(1))+
  then show ?thesis
    using \<open>class_secrets winner = s # ss\<close> by (auto simp: canonical_secret_def Let_def split: option.splits)
qed

text \<open>The claims outside the winning class.\<close>

definition losers :: "managed_options \<Rightarrow> string \<Rightarrow> listener_claim list \<Rightarrow> listener_claim list" where
  "losers options target claims = filter (\<lambda>c. \<not> in_class options (winner_key options target claims) c) claims"

lemma fallbacks_mset:
  "mset (snd (resolve_wildcard_group target claims options)) = mset (map fallback_listener (losers options target claims))"
proof -
  let ?cls = "wildcard_classes options claims" and ?w = "winner_key options target claims"
  let ?f = "\<lambda>c. class_of options (cl_secret c)"
  have "map (\<lambda>kw. (fst kw, filter (\<lambda>c. ?f c = fst kw) claims)) ?cls = ?cls"
    by (rule map_idI) (auto simp: wildcard_classes_in in_class_def [abs_def])
  then have cls: "?cls = map (\<lambda>k. (k, filter (\<lambda>c. ?f c = k) claims)) (gm_keys ?cls)"
    by (simp add: comp_def)
  have ks: "distinct (gm_keys ?cls)" "set (gm_keys ?cls) = ?f ` set claims"
    by (simp_all add: wildcard_classes_def group_on_distinct group_on_keys_set del: set_map)
  let ?l = "losers options target claims"
  have "concat (map (\<lambda>(key, wc). if key = ?w then [] else map fallback_listener wc) ?cls) =
      map fallback_listener (concat (map (\<lambda>k. filter (\<lambda>c. ?f c = k) ?l) (gm_keys ?cls)))"
    by (subst cls) (auto simp: map_concat comp_def losers_def in_class_def intro!: arg_cong [where f = concat] map_cong
        filter_cong)
  moreover have "mset (concat (map (\<lambda>k. filter (\<lambda>c. ?f c = k) ?l) (gm_keys ?cls))) = mset ?l"
    by (rule mset_concat_group) (use ks in \<open>auto simp: losers_def\<close>)
  ultimately show ?thesis by (simp add: resolve_wildcard_group_def Let_def)
qed

definition winners :: "managed_options \<Rightarrow> string \<Rightarrow> listener_claim list \<Rightarrow> listener_claim list" where
  "winners options target claims = filter (in_class options (winner_key options target claims)) claims"

lemma resolve_wildcard_group_fst:
  "fst (resolve_wildcard_group target claims options) =
     \<lparr>pj_hostname = target, pj_secret = canonical_secret options target (winners options target claims),
      pj_hosts = class_hosts (winners options target claims)\<rparr>"
  by (simp add: resolve_wildcard_group_def Let_def wildcard_class_or winners_def)

lemma winners_losers: "mset claims = mset (winners options target claims) + mset (losers options target claims)"
  by (simp add: winners_def losers_def)

lemma winners_nonempty: "claims \<noteq> [] \<Longrightarrow> winners options target claims \<noteq> []"
  using winner_key_class [of claims options target] by (auto simp: winners_def filter_empty_conv)

subsection \<open>Resolving again after placement changes nothing\<close>

definition settled :: "managed_options \<Rightarrow> string \<Rightarrow> listener_claim list \<Rightarrow> managed_options \<Rightarrow> bool" where
  "settled options target claims options' \<longleftrightarrow>
     mo_certs options' = mo_certs options \<and>
     map_option lp_secret (gm_get (mo_current options') target) =
       Some (canonical_secret options target (winners options target claims)) \<and>
     (\<forall>c \<in> set (losers options target claims). gm_has (mo_current options') (cl_host c)) \<and>
     (\<forall>c \<in> set (winners options target claims). cl_host c = target \<or> \<not> gm_has (mo_current options') (cl_host c))"

lemma class_of_cong: "mo_certs options' = mo_certs options \<Longrightarrow> class_of options' = class_of options"
  by (simp add: class_of_def fun_eq_iff)

lemma settled_cong:
  assumes "settled options target claims options'"
  shows "class_of options' = class_of options" "in_class options' = in_class options"
    "wildcard_classes options' claims = wildcard_classes options claims"
proof -
  have "mo_certs options' = mo_certs options" using assms by (simp add: settled_def)
  then show c: "class_of options' = class_of options" by (rule class_of_cong)
  show "in_class options' = in_class options" by (intro ext) (simp only: in_class_def c)
  show "wildcard_classes options' claims = wildcard_classes options claims"
    by (simp only: wildcard_classes_def c)
qed

lemma settled_churn:
  assumes s: "settled options target claims options'" and d: "distinct (map cl_host claims)"
    and t: "\<forall>c \<in> set claims. cl_host c \<noteq> target" and ne: "claims \<noteq> []"
  shows "churn options' target claims (filter (in_class options key) claims) = 0 \<longleftrightarrow>
     key = winner_key options target claims"
proof -
  let ?w = "winner_key options target claims" and ?c = "filter (in_class options key) claims"
  have host: "cl_host c \<in> set (map cl_host ?c) \<longleftrightarrow> in_class options key c" if "c \<in> set claims" for c
    using that d by (auto simp: distinct_map dest: inj_onD)
  have prev: "previous_listener options' target c = Some (if in_class options ?w c then target else cl_host c)"
    if "c \<in> set claims" for c
    using s that t by (auto simp: settled_def previous_listener_def points_at_def winners_def losers_def)
  have "churn options' target claims ?c = 0 \<longleftrightarrow> (\<forall>c \<in> set claims. in_class options ?w c = in_class options key c)"
    unfolding churn_def using host prev t by (auto simp: filter_empty_conv)
  also have "\<dots> \<longleftrightarrow> key = ?w"
    using winner_key_class [OF ne, of options target] by (auto simp: in_class_def)
  finally show ?thesis .
qed

lemma winner_key_settled:
  assumes s: "settled options target claims options'" and d: "distinct (map cl_host claims)"
    and p: "\<forall>c \<in> set claims. cl_pinned c \<longleftrightarrow> cl_host c = target" and ne: "claims \<noteq> []"
  shows "winner_key options' target claims = winner_key options target claims"
proof (cases "find (\<lambda>(key, wc). class_pinned wc) (wildcard_classes options claims)")
  case None
  let ?w = "winner_key options target claims" and ?cls = "wildcard_classes options claims"
  have "\<not> (case kw of (key, wc) \<Rightarrow> class_pinned wc)" if "kw \<in> set ?cls" for kw
    using None that by (auto simp: find_None_iff)
  then have t: "\<forall>c \<in> set claims. cl_host c \<noteq> target"
    using p by (fastforce simp: wildcard_classes_in in_class_def class_pinned_def list_ex_iff)
  let ?scores = "map (score_of options' target claims) ?cls"
  obtain c where "c \<in> set claims" "in_class options ?w c" using winner_key_class [OF ne] by blast
  then have w: "score_of options' target claims (?w, filter (in_class options ?w) claims) \<in> set ?scores"
    by (auto simp: wildcard_classes_in intro!: imageI)
  then obtain best rest where b: "sort_slice score_less ?scores = best # rest"
    by (cases "sort_slice score_less ?scores") auto
  then have "best \<in> set ?scores" by (metis list.set_intros(1) set_sort_slice)
  then obtain key where key: "best = score_of options' target claims (key, filter (in_class options key) claims)"
    by (auto simp: wildcard_classes_in)
  have "\<not> score_less (score_of options' target claims (?w, filter (in_class options ?w) claims)) best"
    by (rule score_order.sort_slice_head_least [OF b w])
  then have "key = ?w"
    using settled_churn [OF s d t ne, of key] settled_churn [OF s d t ne, of ?w]
    by (auto simp: key score_less_def score_of_def split: if_splits)
  then show ?thesis
    using None b key by (simp add: winner_key_def [of options'] settled_cong [OF s] score_of_def)
next
  case (Some kw)
  then show ?thesis by (simp add: winner_key_def settled_cong [OF s] split: prod.splits)
qed

lemma canonical_secret_settled:
  assumes "winner \<noteq> []"
    and "map_option lp_secret (gm_get (mo_current options') target) = Some (canonical_secret options target winner)"
  shows "canonical_secret options' target winner = canonical_secret options target winner"
  using canonical_secret_in [OF assms(1), of options target] assms(2)
  by (auto simp: canonical_secret_def [of options'] Let_def)

lemma resolve_wildcard_group_settled:
  assumes s: "settled options target claims options'" and d: "distinct (map cl_host claims)"
    and p: "\<forall>c \<in> set claims. cl_pinned c \<longleftrightarrow> cl_host c = target" and ne: "claims \<noteq> []"
  shows "resolve_wildcard_group target claims options' = resolve_wildcard_group target claims options"
proof -
  have "canonical_secret options' target (winners options target claims) =
      canonical_secret options target (winners options target claims)"
    using s winners_nonempty [OF ne] by (intro canonical_secret_settled) (auto simp: settled_def)
  then show ?thesis
    by (simp add: resolve_wildcard_group_def Let_def winner_key_settled [OF assms] settled_cong [OF s]
        wildcard_class_or winners_def [symmetric])
qed

end
