(* ===== verification/Gateway.thy ===== *)
theory Gateway
  imports Wildcard
begin

text \<open>
  \<^verbatim>\<open>BuildManagedGateway\<close> of \<^verbatim>\<open>internal/translator/gateway.go\<close>, in the phases of the code:
  collecting the declared TLS hostnames with their Secrets, grouping them under wildcards,
  placing the projected listeners, and emitting the Gateway, its overflow ListenerSets and the
  certificate grants. \<^verbatim>\<open>ChangedTLSHosts\<close> compares two plans.
\<close>

subsection \<open>Collecting declared hostnames\<close>

record cert_source =
  so_namespace :: string
  so_secret :: string
  so_source :: nsname

type_synonym issue_map = "(nsname, issue list) gomap"

record collected =
  cc_certs :: "(string, cert_source) gomap"
  cc_declared :: "(string, nsname list) gomap"
  cc_hosts :: "string list"
  cc_issues :: issue_map

definition conflict_message :: "string \<Rightarrow> cert_source \<Rightarrow> string" where
  "conflict_message host existing =
     ''TLS hostname '' @ quote host @ '' conflicts with Secret '' @ so_namespace existing @ ''/'' @
     so_secret existing @ '' selected by Ingress '' @ nn_string (so_source existing)"

definition collect_host :: "ingress \<Rightarrow> string \<Rightarrow> string \<Rightarrow> collected \<Rightarrow> collected" where
  "collect_host ing secret rawHost st =
     (let source = ing_key ing;
          host = to_lower (trim_space rawHost) in
      if host = [] then
        st\<lparr>cc_issues := multi_put source
             (error_issue ''spec.tls.hosts'' ''managed listeners do not support an empty TLS hostname'') (cc_issues st)\<rparr>
      else
        let candidate = \<lparr>so_namespace = ing_namespace ing, so_secret = secret, so_source = source\<rparr>;
            st1 = st\<lparr>cc_declared := gm_put host (List.insert source (gm_or [] (cc_declared st) host)) (cc_declared st)\<rparr>;
            accepted = st1\<lparr>cc_hosts := List.insert host (cc_hosts st1), cc_certs := gm_put host candidate (cc_certs st1)\<rparr>
        in (case gm_get (cc_certs st) host of
              Some existing \<Rightarrow>
                if so_namespace existing \<noteq> so_namespace candidate \<or> so_secret existing \<noteq> so_secret candidate
                then let issue = error_issue ''spec.tls'' (conflict_message host existing)
                     in st1\<lparr>cc_issues := multi_put (so_source existing) issue (multi_put source issue (cc_issues st1))\<rparr>
                else accepted
            | None \<Rightarrow> accepted))"

definition collect_tls :: "ingress \<Rightarrow> ingress_tls \<Rightarrow> collected \<Rightarrow> collected" where
  "collect_tls ing tls st =
     (let secret = trim_space (tls_secret tls) in
      if secret = [] then
        st\<lparr>cc_issues := multi_put (ing_key ing)
             (error_issue ''spec.tls.secretName'' ''managed listeners require a TLS Secret name'') (cc_issues st)\<rparr>
      else
        let hosts = effective_tls_hosts ing tls in
        if hosts = [] then
          st\<lparr>cc_issues := multi_put (ing_key ing)
               (error_issue ''spec.tls.hosts''
                  ''TLS entry has no hosts and the Ingress has no named rules from which to infer them'') (cc_issues st)\<rparr>
        else fold (collect_host ing secret) hosts st)"

definition collect_ingress :: "ingress \<Rightarrow> collected \<Rightarrow> collected" where
  "collect_ingress ing st = (if ing_deleting ing then st else fold (collect_tls ing) (ing_tls ing) st)"

definition ing_less :: "ingress \<Rightarrow> ingress \<Rightarrow> bool" where
  "ing_less a b \<longleftrightarrow> (if ing_namespace a \<noteq> ing_namespace b then ing_namespace a < ing_namespace b
                     else ing_name a < ing_name b)"

interpretation ing_order: key_order "\<lambda>ing. (ing_namespace ing, ing_name ing)" ing_less
  by unfold_locales (auto simp: ing_less_def)

definition empty_collected :: collected where
  "empty_collected = \<lparr>cc_certs = [], cc_declared = [], cc_hosts = [], cc_issues = []\<rparr>"

definition collect :: "ingress list \<Rightarrow> collected" where
  "collect ingresses = fold collect_ingress (sort_slice ing_less ingresses) empty_collected"

subsection \<open>Grouping and projecting\<close>

definition source_of :: "(string, cert_source) gomap \<Rightarrow> string \<Rightarrow> cert_source" where
  "source_of certs host = gm_or \<lparr>so_namespace = [], so_secret = [], so_source = nsname [] []\<rparr> certs host"

definition claim_of :: "(string, cert_source) gomap \<Rightarrow> string \<Rightarrow> listener_claim" where
  "claim_of certs host =
     (let owner = source_of certs host in
      \<lparr>cl_host = host, cl_secret = nsname (so_namespace owner) (so_secret owner), cl_pinned = has_prefix host ''*.''\<rparr>)"

definition claim_target :: "managed_options \<Rightarrow> listener_claim \<Rightarrow> string" where
  "claim_target options c =
     (if cl_pinned c then cl_host c
      else (case mo_certs options of
              None \<Rightarrow> cl_host c
            | Some certs \<Rightarrow>
                (case gm_get certs (cl_secret c) of
                   None \<Rightarrow> cl_host c
                 | Some info \<Rightarrow>
                     let w = covering_wildcard (cl_host c) info in if w \<noteq> [] then w else cl_host c)))"

definition group_claims :: "managed_options \<Rightarrow> (string, cert_source) gomap \<Rightarrow> (string, listener_claim list) gomap" where
  "group_claims options certs =
     group_on (claim_target options) (\<lambda>c. c) (map (claim_of certs) (sort_strings (gm_keys certs)))"

definition project_group :: "managed_options \<Rightarrow> (string, listener_claim list) gomap \<Rightarrow> string \<Rightarrow> projected_listener list" where
  "project_group options groups target =
     (let claims = gm_or [] groups target in
      if \<not> has_prefix target ''*.'' then
        (case claims of
           [] \<Rightarrow> []
         | c # _ \<Rightarrow> [\<lparr>pj_hostname = target, pj_secret = cl_secret c, pj_hosts = [cl_host c]\<rparr>])
      else (case resolve_wildcard_group target claims options of (winner, fallbacks) \<Rightarrow> winner # fallbacks))"

definition project_listeners :: "managed_options \<Rightarrow> (string, cert_source) gomap \<Rightarrow> projected_listener list" where
  "project_listeners options certs =
     (let groups = group_claims options certs
      in concat (map (project_group options groups) (sort_strings (gm_keys groups))))"

subsection \<open>Hostnames without a listener\<close>

definition unplaced_message :: "string \<Rightarrow> string" where
  "unplaced_message host =
     ''TLS hostname '' @ quote host @
     '' cannot be served: the managed Gateway already has 63 HTTPS listeners and the ListenerSet API is unavailable''"

definition report_unplaced :: "(string, nsname list) gomap \<Rightarrow> projected_listener list \<Rightarrow> issue_map \<Rightarrow> issue_map" where
  "report_unplaced declared unplaced issues =
     fold (\<lambda>l. fold (\<lambda>host. fold (\<lambda>source. multi_put source (error_issue ''spec.tls'' (unplaced_message host)))
       (sorted_namespaced_names (gm_or [] declared host))) (pj_hosts l)) unplaced issues"

subsection \<open>Emitting objects\<close>

definition https_listener_obj :: "string \<Rightarrow> nsname \<Rightarrow> string \<Rightarrow> listener" where
  "https_listener_obj hostname secret sectionName =
     \<lparr>li_name = sectionName, li_hostname = Some hostname, li_port = 443, li_protocol = HTTPS,
      li_certs = Some [\<lparr>sr_name = nn_name secret, sr_namespace = Some (nn_namespace secret)\<rparr>],
      li_routes = FromAll\<rparr>"

definition managed_labels :: "managed_options \<Rightarrow> strmap" where
  "managed_labels options =
     [(ManagedByLabel, ControllerName), (GatewayLabel, gateway_label_value (mo_namespace options) (mo_name options))]"

definition managed_listener_set :: "managed_options \<Rightarrow> nat \<Rightarrow> listener list \<Rightarrow> listener_set" where
  "managed_listener_set options index entries =
     \<lparr>ls_meta = \<lparr>om_name = managed_listener_set_name (mo_name options) index, om_namespace = mo_namespace options,
        om_labels = managed_labels options @ [(ListenerSetIndexLabel, itoa (int index))]\<rparr>,
      ls_parent = \<lparr>pr_group = Some group_name, pr_kind = Some GatewayKind, pr_namespace = None,
        pr_name = mo_name options, pr_section = None\<rparr>,
      ls_listeners = entries\<rparr>"

definition certificate_reference_grant :: "managed_options \<Rightarrow> nsname \<Rightarrow> reference_grant" where
  "certificate_reference_grant options secret =
     \<lparr>rg_meta = \<lparr>om_name = dns_label [mo_name options, nn_name secret, ''gateway-cert''],
        om_namespace = nn_namespace secret, om_labels = managed_labels options\<rparr>,
      rg_from = \<lparr>gf_group = group_name, gf_kind = GatewayKind, gf_namespace = mo_namespace options\<rparr> #
        (if mo_overflow options
         then [\<lparr>gf_group = group_name, gf_kind = ListenerSetKind, gf_namespace = mo_namespace options\<rparr>] else []),
      rg_to = [\<lparr>lo_group = [], lo_kind = ''Secret'', lo_name = nn_name secret\<rparr>]\<rparr>"

definition http_listener :: "managed_options \<Rightarrow> listener" where
  "http_listener options =
     \<lparr>li_name = mo_http_section options, li_hostname = None, li_port = 80, li_protocol = HTTP,
      li_certs = None, li_routes = FromAll\<rparr>"

record emitted =
  em_listeners :: "listener list"
  em_entries :: "(nat, listener list) gomap"
  em_max :: nat
  em_sections :: "(string, listener_ref) gomap"
  em_placements :: "(string, listener_placement) gomap"

definition zero_listener :: projected_listener where
  "zero_listener = \<lparr>pj_hostname = [], pj_secret = nsname [] [], pj_hosts = []\<rparr>"

definition emit_listener :: "managed_options \<Rightarrow> (string, projected_listener) gomap \<Rightarrow> (string, nat) gomap \<Rightarrow>
    string \<Rightarrow> emitted \<Rightarrow> emitted" where
  "emit_listener options byHostname placed hostname em =
     (let l = gm_or zero_listener byHostname hostname;
          idx = gm_or 0 placed hostname;
          section = dns_label [mo_https_section options, hostname];
          lst = https_listener_obj hostname (pj_secret l) section;
          em1 = (if idx = 0 then em\<lparr>em_listeners := em_listeners em @ [lst]\<rparr>
                 else em\<lparr>em_entries := multi_put idx lst (em_entries em), em_max := max idx (em_max em)\<rparr>);
          ref = listener_ref_of hostname idx options
      in em1\<lparr>em_sections := fold (\<lambda>h. gm_put h ref) (pj_hosts l) (em_sections em1),
             em_placements := gm_put hostname \<lparr>lp_set = idx, lp_secret = pj_secret l\<rparr> (em_placements em1)\<rparr>)"

definition emit :: "managed_options \<Rightarrow> projected_listener list \<Rightarrow> (string, nat) gomap \<Rightarrow> emitted" where
  "emit options projected placed =
     (let byHostname = fold (\<lambda>l. gm_put (pj_hostname l) l) projected [];
          start = \<lparr>em_listeners = [http_listener options], em_entries = [], em_max = 0, em_sections = [], em_placements = []\<rparr>
      in fold (emit_listener options byHostname placed) (sort_strings (gm_keys placed)) start)"

definition emit_sets :: "managed_options \<Rightarrow> emitted \<Rightarrow> listener_set list" where
  "emit_sets options em =
     concat (map (\<lambda>idx. case gm_get (em_entries em) idx of
                          None \<Rightarrow> []
                        | Some entries \<Rightarrow> [managed_listener_set options idx entries]) [1..<Suc (em_max em)])"

definition grant_secrets :: "managed_options \<Rightarrow> (string, listener_placement) gomap \<Rightarrow> nsname list" where
  "grant_secrets options placements =
     sorted_namespaced_names
       (map (\<lambda>p. lp_secret (snd p)) (filter (\<lambda>p. nn_namespace (lp_secret (snd p)) \<noteq> mo_namespace options) placements))"

subsection \<open>The plan\<close>

record gateway_plan =
  gp_gateway :: gateway
  gp_sets :: "listener_set list"
  gp_grants :: "reference_grant list"
  gp_tls_hosts :: "string list"
  gp_tls_sections :: "(string, listener_ref) gomap"
  gp_placements :: "(string, listener_placement) gomap"
  gp_issues :: issue_map

definition build_managed_gateway :: "ingress list \<Rightarrow> managed_options \<Rightarrow> gateway_plan" where
  "build_managed_gateway ingresses options =
     (let cc = collect ingresses;
          projected = project_listeners options (cc_certs cc);
          (placed, unplaced) = place_listeners projected options;
          em = emit options projected placed;
          sets = emit_sets options em
      in \<lparr>gp_gateway =
            \<lparr>gw_meta = \<lparr>om_name = mo_name options, om_namespace = mo_namespace options, om_labels = managed_labels options\<rparr>,
             gw_class = mo_class options,
             gw_listeners = em_listeners em,
             gw_parameters = (if mo_proxy_name options \<noteq> []
               then Some \<lparr>lo_group = ngf_group, lo_kind = ''NginxProxy'', lo_name = mo_proxy_name options\<rparr> else None),
             gw_allowed = (if mo_allow_sets options \<or> sets \<noteq> [] then Some FromSame else None)\<rparr>,
          gp_sets = sets,
          gp_grants = map (certificate_reference_grant options) (grant_secrets options (em_placements em)),
          gp_tls_hosts = cc_hosts cc,
          gp_tls_sections = em_sections em,
          gp_placements = em_placements em,
          gp_issues = report_unplaced (cc_declared cc) unplaced (cc_issues cc)\<rparr>)"

definition changed_tls_hosts :: "(string, listener_placement) gomap \<Rightarrow> gateway_plan \<Rightarrow> managed_options \<Rightarrow> string list" where
  "changed_tls_hosts previous plan options =
     map fst (filter (\<lambda>(host, newRef). listener_ref_for host previous options \<noteq> Some newRef) (gp_tls_sections plan))"

end
