(* ===== verification/Projection.thy ===== *)
theory Projection
  imports Gateway
begin

text \<open>
  Collecting, grouping and projecting: every declared TLS hostname reaches exactly one projected
  listener, and no two projected listeners share a hostname.
\<close>

subsection \<open>What collecting keeps true\<close>

definition collected_ok :: "collected \<Rightarrow> bool" where
  "collected_ok cc \<longleftrightarrow> gomap_ok (cc_certs cc) \<and> distinct (cc_hosts cc) \<and>
     set (gm_keys (cc_certs cc)) = set (cc_hosts cc) \<and>
     (\<forall>h \<in> set (cc_hosts cc). h \<noteq> [] \<and> normal_host h = h) \<and>
     (\<forall>h s. gm_get (cc_certs cc) h = Some s \<longrightarrow>
        so_source s \<in> set (gm_or [] (cc_declared cc) h) \<and> nn_namespace (so_source s) = so_namespace s)"

lemma ing_key_simps [simp]: "nn_namespace (ing_key ing) = ing_namespace ing" "nn_name (ing_key ing) = ing_name ing"
  by (simp_all add: ing_key_def)

lemma empty_collected_ok: "collected_ok empty_collected"
  by (simp add: collected_ok_def empty_collected_def)

lemma collected_ok_issues [simp]: "collected_ok (cc\<lparr>cc_issues := is\<rparr>) = collected_ok cc"
  by (simp add: collected_ok_def)

lemma collected_ok_declared:
  assumes "collected_ok cc"
  shows "collected_ok (cc\<lparr>cc_declared := gm_put h (List.insert s (gm_or [] (cc_declared cc) h)) (cc_declared cc)\<rparr>)"
  using assms by (auto simp: collected_ok_def gomap_simps)

lemma collected_ok_accept:
  assumes "collected_ok cc" and "h \<noteq> []" and "normal_host h = h" and "so_source s \<in> set (gm_or [] (cc_declared cc) h)"
    and "nn_namespace (so_source s) = so_namespace s"
  shows "collected_ok (cc\<lparr>cc_hosts := List.insert h (cc_hosts cc), cc_certs := gm_put h s (cc_certs cc)\<rparr>)"
  using assms by (auto simp: collected_ok_def gomap_simps gm_keys_put simp del: set_map)

lemma collect_host_ok:
  assumes "collected_ok st"
  shows "collected_ok (collect_host ing secret raw st)"
proof (cases "to_lower (trim_space raw) = []")
  case True
  then show ?thesis using assms by (simp add: collect_host_def Let_def)
next
  case False
  let ?h = "to_lower (trim_space raw)"
  let ?st = "st\<lparr>cc_declared := gm_put ?h (List.insert (ing_key ing) (gm_or [] (cc_declared st) ?h)) (cc_declared st)\<rparr>"
  let ?c = "\<lparr>so_namespace = ing_namespace ing, so_secret = secret, so_source = ing_key ing\<rparr>"
  have 1: "collected_ok ?st" by (rule collected_ok_declared [OF assms])
  have 2: "collected_ok (?st\<lparr>cc_hosts := List.insert ?h (cc_hosts ?st), cc_certs := gm_put ?h ?c (cc_certs ?st)\<rparr>)"
    using 1 False by (rule collected_ok_accept) (simp_all add: normal_host_def gomap_simps)
  show ?thesis
    using False 1 2 by (auto simp: collect_host_def Let_def split: option.split)
qed

lemma fold_inv: "(\<And>x s. P s \<Longrightarrow> P (f x s)) \<Longrightarrow> P s \<Longrightarrow> P (fold f xs s)"
  by (induction xs arbitrary: s) auto

lemma collect_tls_ok: "collected_ok st \<Longrightarrow> collected_ok (collect_tls ing tls st)"
  unfolding collect_tls_def Let_def by (auto intro!: fold_inv [where P = collected_ok] collect_host_ok)

lemma collect_ok: "collected_ok (collect ingresses)"
  unfolding collect_def collect_ingress_def
  by (auto intro!: fold_inv [where P = collected_ok] collect_tls_ok empty_collected_ok)

lemma collect_facts:
  "gomap_ok (cc_certs (collect ings))" "distinct (cc_hosts (collect ings))"
  "set (gm_keys (cc_certs (collect ings))) = set (cc_hosts (collect ings))"
  "h \<in> set (cc_hosts (collect ings)) \<Longrightarrow> h \<noteq> [] \<and> normal_host h = h"
  using collect_ok [of ings] by (auto simp: collected_ok_def)

subsection \<open>Claims and their targets\<close>

definition all_claims :: "(string, cert_source) gomap \<Rightarrow> listener_claim list" where
  "all_claims certs = map (claim_of certs) (sort_strings (gm_keys certs))"

definition group_of :: "managed_options \<Rightarrow> (string, cert_source) gomap \<Rightarrow> string \<Rightarrow> listener_claim list" where
  "group_of options certs t = filter (\<lambda>c. claim_target options c = t) (all_claims certs)"

lemma claim_of_simps [simp]:
  "cl_host (claim_of certs h) = h" "cl_pinned (claim_of certs h) = has_prefix h ''*.''"
  by (simp_all add: claim_of_def Let_def)

lemma all_claims_hosts: "map cl_host (all_claims certs) = sort_strings (gm_keys certs)"
  by (simp add: all_claims_def comp_def)

lemma all_claims_distinct: "gomap_ok certs \<Longrightarrow> distinct (map cl_host (all_claims certs))"
  by (simp add: all_claims_hosts gomap_ok_def)

lemma all_claims_in:
  "c \<in> set (all_claims certs) \<Longrightarrow> c = claim_of certs (cl_host c) \<and> cl_host c \<in> set (gm_keys certs)"
  unfolding all_claims_def by (auto simp: image_iff intro: bexI [rotated])

lemma all_claims_inject:
  "gomap_ok certs \<Longrightarrow> c \<in> set (all_claims certs) \<Longrightarrow> d \<in> set (all_claims certs) \<Longrightarrow> cl_host c = cl_host d \<Longrightarrow> c = d"
  using all_claims_in by metis

lemma claim_target_cases:
  assumes "claim_target options c = t"
  obtains "t = cl_host c"
  | "\<not> cl_pinned c" "one_label_up (cl_host c) = Some t" "has_prefix t ''*.''" "t \<noteq> cl_host c" "\<not> has_prefix (cl_host c) ''*.''"
proof -
  have "t = cl_host c \<or> \<not> cl_pinned c \<and> (\<exists>info. covering_wildcard (cl_host c) info = t \<and> t \<noteq> [])"
    using assms by (auto simp: claim_target_def Let_def split: option.splits if_splits)
  then show thesis
  proof
    assume "\<not> cl_pinned c \<and> (\<exists>info. covering_wildcard (cl_host c) info = t \<and> t \<noteq> [])"
    then obtain info where c: "\<not> cl_pinned c" "covering_wildcard (cl_host c) info = t" "t \<noteq> []" by blast
    then have "\<not> has_prefix (cl_host c) ''*.''" "one_label_up (cl_host c) = Some t"
      using covering_wildcard_some [of "cl_host c" info] by auto
    moreover have "has_prefix t ''*.''" using one_label_up_wildcard calculation(2) .
    ultimately show thesis using c(1) by (cases "t = cl_host c") (auto intro: that)
  qed (rule that(1))
qed

lemma claim_target_pinned: "cl_pinned c \<Longrightarrow> claim_target options c = cl_host c"
  by (simp add: claim_target_def)

lemma group_claims_or: "gm_or [] (group_claims options certs) t = group_of options certs t"
  by (simp add: group_claims_def group_on_or group_of_def all_claims_def)

lemma group_claims_keys:
  "distinct (gm_keys (group_claims options certs))"
  "set (gm_keys (group_claims options certs)) = claim_target options ` set (all_claims certs)"
  by (simp_all add: group_claims_def group_on_distinct group_on_keys_set all_claims_def del: set_map list.set_map)

lemma group_of_exact:
  assumes "gomap_ok certs" and "\<not> has_prefix t ''*.''" and "t \<in> claim_target options ` set (all_claims certs)"
  obtains c where "group_of options certs t = [c]" "cl_host c = t" "c \<in> set (all_claims certs)"
proof -
  have host: "cl_host c = t" if "claim_target options c = t" for c
    using that assms(2) by (elim claim_target_cases) auto
  obtain c where c: "c \<in> set (all_claims certs)" "claim_target options c = t" using assms(3) by blast
  have "distinct (all_claims certs)" using all_claims_distinct [OF assms(1)] by (simp add: distinct_map)
  then have "group_of options certs t = [c]"
    unfolding group_of_def using c host all_claims_inject [OF assms(1)]
    by (intro filter_eq_single) auto
  then show thesis using that c host by blast
qed

lemma group_of_pinned:
  assumes "c \<in> set (group_of options certs t)" and "has_prefix t ''*.''"
  shows "cl_pinned c \<longleftrightarrow> cl_host c = t"
proof -
  have c: "c = claim_of certs (cl_host c)" "claim_target options c = t"
    using assms(1) all_claims_in by (auto simp: group_of_def)
  then have p: "cl_pinned c \<longleftrightarrow> has_prefix (cl_host c) ''*.''" by (metis claim_of_simps(2))
  show ?thesis
    using c(2) by (rule claim_target_cases) (use p assms(2) in auto)
qed

lemma group_of_facts:
  assumes "gomap_ok certs"
  shows "distinct (map cl_host (group_of options certs t))"
    "set (group_of options certs t) \<subseteq> set (all_claims certs)"
    "c \<in> set (group_of options certs t) \<Longrightarrow> claim_target options c = t"
  using all_claims_distinct [OF assms] by (auto simp: group_of_def distinct_map intro: inj_on_subset)

subsection \<open>One group\<close>

lemma fallback_simps [simp]:
  "pj_hostname (fallback_listener c) = cl_host c" "pj_hosts (fallback_listener c) = [cl_host c]"
  "pj_secret (fallback_listener c) = cl_secret c"
  by (simp_all add: fallback_listener_def)

lemma concat_map_mset: "mset xs = mset ys \<Longrightarrow> mset (concat (map f xs)) = mset (concat (map f ys))"
  by (simp add: mset_concat) (metis (no_types, lifting) mset_map sum_mset_sum_list)

lemma project_group_wildcard:
  assumes "has_prefix t ''*.''"
  shows "project_group options (group_claims options certs) t =
    fst (resolve_wildcard_group t (group_of options certs t) options) #
    snd (resolve_wildcard_group t (group_of options certs t) options)"
  using assms by (simp add: project_group_def Let_def group_claims_or split: prod.split)

lemma project_group_hosts:
  assumes "gomap_ok certs" and "t \<in> claim_target options ` set (all_claims certs)"
  shows "mset (concat (map pj_hosts (project_group options (group_claims options certs) t))) =
    mset (map cl_host (group_of options certs t))"
proof (cases "has_prefix t ''*.''")
  case True
  let ?g = "group_of options certs t"
  have d: "distinct (map cl_host (winners options t ?g))"
    using group_of_facts(1) [OF assms(1), of options t] by (simp add: winners_def distinct_map_filter)
  have "mset (class_hosts (winners options t ?g)) = mset (map cl_host (winners options t ?g))"
    using d by (intro set_eq_iff_mset_eq_distinct [THEN iffD1]) auto
  moreover have "mset (concat (map pj_hosts (snd (resolve_wildcard_group t ?g options)))) =
      mset (map cl_host (losers options t ?g))"
    using concat_map_mset [OF fallbacks_mset, of pj_hosts t ?g options] by (simp add: comp_def)
  moreover have "mset (map cl_host ?g) = mset (map cl_host (winners options t ?g)) + mset (map cl_host (losers options t ?g))"
    by (rule mset_map_split) (rule winners_losers)
  ultimately show ?thesis
    by (simp add: project_group_wildcard [OF True] resolve_wildcard_group_fst)
next
  case False
  obtain c where "group_of options certs t = [c]" by (rule group_of_exact [OF assms(1) False assms(2)])
  with False show ?thesis by (simp add: project_group_def group_claims_or)
qed

lemma project_group_member:
  assumes "gomap_ok certs" and "t \<in> claim_target options ` set (all_claims certs)"
    and "l \<in> set (project_group options (group_claims options certs) t)"
  shows "(pj_hostname l = t \<and> (has_prefix t ''*.'' \<or> (\<exists>c. group_of options certs t = [c] \<and> cl_host c = t \<and> l = fallback_listener c)))
    \<or> (has_prefix t ''*.'' \<and> (\<exists>c \<in> set (losers options t (group_of options certs t)). l = fallback_listener c))"
proof (cases "has_prefix t ''*.''")
  case True
  then have "l = fst (resolve_wildcard_group t (group_of options certs t) options) \<or>
      l \<in> set (snd (resolve_wildcard_group t (group_of options certs t) options))"
    using assms(3) by (simp add: project_group_wildcard)
  moreover have "set (snd (resolve_wildcard_group t (group_of options certs t) options)) =
      fallback_listener ` set (losers options t (group_of options certs t))"
    using arg_cong [OF fallbacks_mset, of set_mset] by simp
  ultimately show ?thesis using True by (auto simp: resolve_wildcard_group_fst)
next
  case False
  obtain c where "group_of options certs t = [c]" "cl_host c = t"
    by (rule group_of_exact [OF assms(1) False assms(2)])
  with False assms(3) show ?thesis
    by (simp add: project_group_def group_claims_or fallback_listener_def)
qed

subsection \<open>All groups\<close>

lemma target_own_claim:
  assumes "gomap_ok certs" and "t \<in> claim_target options ` set (all_claims certs)"
    and "c \<in> set (all_claims certs)" and "cl_host c = t"
  shows "claim_target options c = t"
proof (cases "has_prefix t ''*.''")
  case True
  have "c = claim_of certs t" using all_claims_in [OF assms(3)] assms(4) by simp
  then have "cl_pinned c" using True by simp
  then show ?thesis using assms(4) by (simp add: claim_target_pinned)
next
  case False
  obtain d where "group_of options certs t = [d]" "cl_host d = t" "d \<in> set (all_claims certs)"
    by (rule group_of_exact [OF assms(1) False assms(2)])
  moreover from this have "c = d" using all_claims_inject [OF assms(1,3)] assms(4) by simp
  ultimately show ?thesis using group_of_facts(3) [OF assms(1), of d options t] by simp
qed

lemma pinned_wins:
  assumes "c \<in> set claims" and "cl_pinned c" and "\<And>d. d \<in> set claims \<Longrightarrow> cl_pinned d \<Longrightarrow> d = c"
  shows "c \<in> set (winners options target claims)"
proof -
  let ?cls = "wildcard_classes options claims"
  let ?P = "\<lambda>(key, wc). class_pinned wc"
  have "(class_of options (cl_secret c), filter (in_class options (class_of options (cl_secret c))) claims) \<in> set ?cls"
    using assms(1) by (auto simp: wildcard_classes_in in_class_def)
  moreover have "?P (class_of options (cl_secret c), filter (in_class options (class_of options (cl_secret c))) claims)"
    using assms(1,2) by (auto simp: class_pinned_def list_ex_iff in_class_def)
  ultimately have "find ?P ?cls \<noteq> None" unfolding find_None_iff by blast
  then obtain key wc where f: "find ?P ?cls = Some (key, wc)" by auto
  then have "(key, wc) \<in> set ?cls" "class_pinned wc"
    by (auto simp: find_Some_iff) (metis nth_mem)
  then obtain d where "d \<in> set claims" "in_class options key d" "cl_pinned d"
    by (auto simp: wildcard_classes_in class_pinned_def list_ex_iff)
  then have "in_class options key c" using assms(3) by blast
  then show ?thesis using f assms(1) by (simp add: winners_def winner_key_def)
qed

lemma group_of_winners_losers_distinct:
  assumes "gomap_ok certs" and "has_prefix t ''*.''"
  shows "t \<notin> cl_host ` set (losers options t (group_of options certs t))"
proof
  let ?g = "group_of options certs t"
  assume "t \<in> cl_host ` set (losers options t ?g)"
  then obtain c where c: "c \<in> set (losers options t ?g)" "cl_host c = t" by blast
  then have g: "c \<in> set ?g" by (simp add: losers_def)
  have "d = c" if "d \<in> set ?g" "cl_pinned d" for d
    using group_of_pinned [OF that(1) assms(2)] that c(2) g group_of_facts(1) [OF assms(1), of options t]
    by (auto simp: distinct_map dest: inj_onD)
  then have "c \<in> set (winners options t ?g)"
    using pinned_wins [OF g] group_of_pinned [OF g assms(2)] c(2) by blast
  with c(1) show False by (simp add: winners_def losers_def)
qed

lemma project_group_hostnames:
  assumes "gomap_ok certs" and "t \<in> claim_target options ` set (all_claims certs)"
  shows "distinct (map pj_hostname (project_group options (group_claims options certs) t))"
    "h \<in> pj_hostname ` set (project_group options (group_claims options certs) t) \<Longrightarrow>
       h = t \<or> (\<exists>c \<in> set (all_claims certs). claim_target options c = t \<and> cl_host c = h)"
proof -
  let ?g = "group_of options certs t"
  let ?p = "project_group options (group_claims options certs) t"
  show "distinct (map pj_hostname ?p)"
  proof (cases "has_prefix t ''*.''")
    case True
    let ?f = "snd (resolve_wildcard_group t ?g options)"
    have m: "mset (map pj_hostname ?f) = mset (map cl_host (losers options t ?g))"
      using arg_cong [OF fallbacks_mset [of t ?g options], of "image_mset pj_hostname"]
      by (simp add: image_mset.compositionality comp_def)
    then have "distinct (map pj_hostname ?f)"
      using group_of_facts(1) [OF assms(1), of options t]
      by (metis (no_types, lifting) distinct_map_filter losers_def mset_eq_imp_distinct_iff)
    moreover have "t \<notin> set (map pj_hostname ?f)"
      using group_of_winners_losers_distinct [OF assms(1) True, of options] mset_eq_setD [OF m] by simp
    ultimately show ?thesis by (simp add: project_group_wildcard [OF True] resolve_wildcard_group_fst)
  next
    case False
    obtain c where "?g = [c]" by (rule group_of_exact [OF assms(1) False assms(2)])
    with False show ?thesis by (simp add: project_group_def group_claims_or)
  qed
  show "h = t \<or> (\<exists>c \<in> set (all_claims certs). claim_target options c = t \<and> cl_host c = h)"
    if "h \<in> pj_hostname ` set ?p"
  proof -
    from that obtain l where l: "l \<in> set ?p" "h = pj_hostname l" by blast
    have "h = t \<or> (\<exists>c \<in> set ?g. cl_host c = h)"
      using project_group_member [OF assms l(1)] l(2) by (auto simp: losers_def)
    then show ?thesis
      using group_of_facts(2) [OF assms(1), of options t] group_of_facts(3) [OF assms(1)] by blast
  qed
qed

lemma project_listeners_groups:
  "project_listeners options certs =
     concat (map (project_group options (group_claims options certs)) (sort_strings (gm_keys (group_claims options certs))))"
  "set (sort_strings (gm_keys (group_claims options certs))) = claim_target options ` set (all_claims certs)"
  "distinct (sort_strings (gm_keys (group_claims options certs)))"
  using group_claims_keys [of options certs] by (simp_all add: project_listeners_def Let_def del: set_map list.set_map)

lemma projected_member:
  assumes "l \<in> set (project_listeners options certs)"
  obtains t where "t \<in> claim_target options ` set (all_claims certs)"
    "l \<in> set (project_group options (group_claims options certs) t)"
proof -
  obtain t where "t \<in> set (sort_strings (gm_keys (group_claims options certs)))"
    "l \<in> set (project_group options (group_claims options certs) t)"
    using assms unfolding project_listeners_groups(1) set_concat set_map by blast
  then show thesis using that unfolding project_listeners_groups(2) by blast
qed

text \<open>No two projected listeners share a hostname.\<close>

lemma projected_distinct:
  assumes "gomap_ok certs"
  shows "distinct (map pj_hostname (project_listeners options certs))"
proof -
  let ?ts = "sort_strings (gm_keys (group_claims options certs))"
  let ?f = "\<lambda>t. map pj_hostname (project_group options (group_claims options certs) t)"
  have same: "s = t" if s: "s \<in> set ?ts" and t: "t \<in> set ?ts" and h: "h \<in> set (?f s)" "h \<in> set (?f t)" for s t h
  proof -
    note st = s t [unfolded project_listeners_groups(2)]
    have s': "s \<in> claim_target options ` set (all_claims certs)" and t': "t \<in> claim_target options ` set (all_claims certs)"
      using s t unfolding project_listeners_groups(2) .
    have "h = s \<or> (\<exists>c \<in> set (all_claims certs). claim_target options c = s \<and> cl_host c = h)"
      using project_group_hostnames(2) [OF assms s'] h(1) by simp
    moreover have "h = t \<or> (\<exists>c \<in> set (all_claims certs). claim_target options c = t \<and> cl_host c = h)"
      using project_group_hostnames(2) [OF assms t'] h(2) by simp
    ultimately show ?thesis
      using target_own_claim [OF assms s'] target_own_claim [OF assms t'] all_claims_inject [OF assms] by metis
  qed
  have "distinct (concat (map ?f ?ts))"
  proof (rule distinct_concat_map)
    show "distinct ?ts" by (rule project_listeners_groups(3))
    show "distinct (?f t)" if "t \<in> set ?ts" for t
      using project_group_hostnames(1) [OF assms] that unfolding project_listeners_groups(2) .
  qed (rule same)
  then show ?thesis by (simp add: project_listeners_groups(1) map_concat comp_def)
qed

lemma concat_map_concat: "concat (map f (concat xss)) = concat (map (\<lambda>xs. concat (map f xs)) xss)"
  by (induction xss) auto

text \<open>Every declared hostname is served by exactly one projected listener.\<close>

lemma projected_hosts:
  assumes "gomap_ok certs"
  shows "mset (concat (map pj_hosts (project_listeners options certs))) = mset (gm_keys certs)"
proof -
  let ?ts = "sort_strings (gm_keys (group_claims options certs))"
  let ?p = "project_group options (group_claims options certs)"
  have "mset (concat (map pj_hosts (project_listeners options certs))) =
      mset (concat (map (\<lambda>t. concat (map pj_hosts (?p t))) ?ts))"
    by (simp add: project_listeners_groups(1) concat_map_concat comp_def)
  also have "\<dots> = mset (concat (map (\<lambda>t. map cl_host (group_of options certs t)) ?ts))"
    using project_group_hosts [OF assms] project_listeners_groups(2) [of options certs] by (intro mset_concat_cong) simp
  also have "\<dots> = mset (map cl_host (concat (map (\<lambda>t. group_of options certs t) ?ts)))"
    by (simp add: map_concat comp_def)
  also have "mset (concat (map (\<lambda>t. group_of options certs t) ?ts)) = mset (all_claims certs)"
    unfolding group_of_def using project_listeners_groups(2,3) [of options certs]
    by (intro mset_concat_group) simp_all
  then have "mset (map cl_host (concat (map (\<lambda>t. group_of options certs t) ?ts))) = mset (map cl_host (all_claims certs))"
    by simp
  also have "\<dots> = mset (gm_keys certs)" by (simp add: all_claims_hosts sort_strings_def)
  finally show ?thesis .
qed

text \<open>A listener serves a hostname under that name or one label up, with a Secret of the same class.\<close>

lemma projected_serves:
  assumes "gomap_ok certs" and "l \<in> set (project_listeners options certs)" and "h \<in> set (pj_hosts l)"
  shows "pj_hostname l = h \<or> one_label_up h = Some (pj_hostname l)"
    "class_of options (pj_secret l) = class_of options (cl_secret (claim_of certs h))"
    "pj_secret l \<in> (\<lambda>h. cl_secret (claim_of certs h)) ` set (gm_keys certs)"
proof -
  obtain t where t: "t \<in> claim_target options ` set (all_claims certs)"
    "l \<in> set (project_group options (group_claims options certs) t)" by (rule projected_member [OF assms(2)])
  let ?g = "group_of options certs t"
  have sub: "c \<in> set (all_claims certs) \<and> claim_target options c = t" if "c \<in> set ?g" for c
    using that by (simp add: group_of_def)
  have *: "(pj_hostname l = h \<or> one_label_up h = Some (pj_hostname l)) \<and>
     class_of options (pj_secret l) = class_of options (cl_secret (claim_of certs h)) \<and>
     (\<exists>c \<in> set ?g. pj_secret l = cl_secret c)"
  proof (cases "\<exists>c \<in> set ?g. l = fallback_listener c")
    case True
    then obtain c where c: "c \<in> set ?g" "l = fallback_listener c" by blast
    then have "h = cl_host c" using assms(3) by simp
    moreover have "c = claim_of certs (cl_host c)" using all_claims_in [of c certs] sub [OF c(1)] by blast
    ultimately have "claim_of certs h = c" by metis
    with c \<open>h = cl_host c\<close> show ?thesis by auto
  next
    case False
    then have single: "l \<noteq> fallback_listener c" if "?g = [c]" for c using that by simp
    from project_group_member [OF assms(1) t] have wild: "has_prefix t ''*.''" using single by blast
    moreover from this have "l = fst (resolve_wildcard_group t ?g options)"
    proof -
      have "set (snd (resolve_wildcard_group t ?g options)) = fallback_listener ` set (losers options t ?g)"
        using arg_cong [OF fallbacks_mset [of t ?g options], of set_mset] by simp
      moreover have "set (losers options t ?g) \<subseteq> set ?g" by (auto simp: losers_def)
      ultimately have "l \<notin> set (snd (resolve_wildcard_group t ?g options))" using False by blast
      then show ?thesis using t(2) unfolding project_group_wildcard [OF wild] by simp
    qed
    ultimately have l: "pj_hostname l = t" "pj_secret l = canonical_secret options t (winners options t ?g)"
      "set (pj_hosts l) = cl_host ` set (winners options t ?g)"
      by (simp_all add: resolve_wildcard_group_fst)
    from l(3) assms(3) obtain c where c: "c \<in> set (winners options t ?g)" "cl_host c = h" by auto
    then have g: "c \<in> set ?g" by (simp add: winners_def)
    then have "c = claim_of certs (cl_host c)" using all_claims_in [of c certs] sub by blast
    then have ch: "claim_of certs h = c" unfolding c(2) by (rule sym)
    have "winners options t ?g \<noteq> []" using c(1) by auto
    then obtain d where d: "d \<in> set (winners options t ?g)" "pj_secret l = cl_secret d"
      using canonical_secret_in [of "winners options t ?g" options t] l(2) by auto
    then have "class_of options (cl_secret d) = class_of options (cl_secret c)"
      using c(1) by (simp add: winners_def in_class_def)
    moreover have "pj_hostname l = h \<or> one_label_up h = Some (pj_hostname l)"
      using sub [OF g, THEN conjunct2] unfolding l(1) by (rule claim_target_cases) (use c(2) in auto)
    ultimately show ?thesis using d ch by (auto simp: winners_def)
  qed
  then show "pj_hostname l = h \<or> one_label_up h = Some (pj_hostname l)"
    "class_of options (pj_secret l) = class_of options (cl_secret (claim_of certs h))"
    by simp_all
  show "pj_secret l \<in> (\<lambda>h. cl_secret (claim_of certs h)) ` set (gm_keys certs)"
  proof -
    obtain c where "c \<in> set ?g" "pj_secret l = cl_secret c" using * by blast
    moreover from this have "c = claim_of certs (cl_host c)" "cl_host c \<in> set (gm_keys certs)"
      using sub all_claims_in [of c certs] by simp_all
    ultimately show ?thesis by (metis image_eqI)
  qed
qed

end
