(* ===== verification/Declarations.thy ===== *)
theory Declarations
  imports Projection
begin

text \<open>
  What the Ingresses declare, as one list in the order the code visits it, and the collecting
  phase of \<^verbatim>\<open>BuildManagedGateway\<close> as a function of that list: the first declaration of a
  hostname chooses its Secret, every declaring Ingress is remembered, and an Ingress that
  declares the hostname with another Secret receives an error.
\<close>

subsection \<open>Declarations\<close>

definition candidate_of :: "ingress \<Rightarrow> string \<Rightarrow> cert_source" where
  "candidate_of ing secret = \<lparr>so_namespace = ing_namespace ing, so_secret = secret, so_source = ing_key ing\<rparr>"

definition tls_declarations :: "ingress \<Rightarrow> ingress_tls \<Rightarrow> (string \<times> cert_source) list" where
  "tls_declarations ing tls =
     (let secret = trim_space (tls_secret tls) in
      if secret = [] then []
      else map (\<lambda>h. (h, candidate_of ing secret)) (effective_tls_hosts ing tls))"

definition ingress_declarations :: "ingress \<Rightarrow> (string \<times> cert_source) list" where
  "ingress_declarations ing = (if ing_deleting ing then [] else concat (map (tls_declarations ing) (ing_tls ing)))"

definition declarations :: "ingress list \<Rightarrow> (string \<times> cert_source) list" where
  "declarations ings = concat (map ingress_declarations (sort_slice ing_less ings))"

definition cert_key :: "cert_source \<Rightarrow> nsname" where
  "cert_key s = nsname (so_namespace s) (so_secret s)"

text \<open>The Secret that serves a hostname is the one its first declaration names.\<close>

definition first_declaration :: "string \<Rightarrow> (string \<times> cert_source) list \<Rightarrow> nsname option" where
  "first_declaration h ds = map_option (\<lambda>d. cert_key (snd d)) (find (\<lambda>d. fst d = h) ds)"

definition has_conflict_issue :: "issue_map \<Rightarrow> nsname \<Rightarrow> bool" where
  "has_conflict_issue issues source \<longleftrightarrow>
     (\<exists>i \<in> set (gm_or [] issues source). issue_fatal i \<and> is_field i = ''spec.tls'')"

subsection \<open>Collecting implements them\<close>

definition collects :: "(string \<times> cert_source) list \<Rightarrow> collected \<Rightarrow> bool" where
  "collects ds cc \<longleftrightarrow> set (cc_hosts cc) = fst ` set ds \<and>
     (\<forall>h. map_option cert_key (gm_get (cc_certs cc) h) = first_declaration h ds) \<and>
     (\<forall>h s. gm_get (cc_certs cc) h = Some s \<longrightarrow> (h, s) \<in> set ds) \<and>
     (\<forall>h. set (gm_or [] (cc_declared cc) h) = so_source ` {s. (h, s) \<in> set ds})"

definition conflict_at :: "(string \<times> cert_source) list \<Rightarrow> issue_map \<Rightarrow> string \<Rightarrow> cert_source \<Rightarrow> bool" where
  "conflict_at ds issues h s \<longleftrightarrow> has_conflict_issue issues (so_source s) \<and>
     (\<exists>s'. (h, s') \<in> set ds \<and> first_declaration h ds = Some (cert_key s') \<and> has_conflict_issue issues (so_source s'))"

definition conflicts_reported :: "(string \<times> cert_source) list \<Rightarrow> issue_map \<Rightarrow> bool" where
  "conflicts_reported ds issues \<longleftrightarrow>
     (\<forall>h s. (h, s) \<in> set ds \<longrightarrow> first_declaration h ds \<noteq> Some (cert_key s) \<longrightarrow> conflict_at ds issues h s)"

lemma first_declaration_simps [simp]:
  "first_declaration h [] = None"
  "first_declaration h (d # ds) = (if fst d = h then Some (cert_key (snd d)) else first_declaration h ds)"
  by (simp_all add: first_declaration_def)

lemma first_declaration_append [simp]:
  "first_declaration h (ds @ es) = (case first_declaration h ds of Some k \<Rightarrow> Some k | None \<Rightarrow> first_declaration h es)"
  by (induction ds) auto

lemma first_declaration_None: "first_declaration h ds = None \<longleftrightarrow> h \<notin> fst ` set ds"
  by (induction ds) auto

lemma has_conflict_issue_put:
  "has_conflict_issue (multi_put k i m) source \<longleftrightarrow>
     has_conflict_issue m source \<or> (source = k \<and> issue_fatal i \<and> is_field i = ''spec.tls'')"
  by (auto simp: has_conflict_issue_def gomap_simps)

lemma conflict_at_mono:
  assumes "conflict_at ds issues h s" and "\<And>k. has_conflict_issue issues k \<Longrightarrow> has_conflict_issue issues' k"
  shows "conflict_at (ds @ es) issues' h s"
  using assms by (fastforce simp: conflict_at_def)

lemma conflicts_reported_mono:
  assumes "conflicts_reported ds issues" and "\<And>k. has_conflict_issue issues k \<Longrightarrow> has_conflict_issue issues' k"
  shows "conflicts_reported ds issues'"
  using assms conflict_at_mono [of ds issues _ _ issues' "[]"] by (auto simp: conflicts_reported_def)

lemma candidate_simps [simp]:
  "so_source (candidate_of ing secret) = ing_key ing" "cert_key (candidate_of ing secret) = nsname (ing_namespace ing) secret"
  by (simp_all add: candidate_of_def cert_key_def)

lemma sources_insert: "so_source ` {s. s = c \<or> P s} = insert (so_source c) (so_source ` {s. P s})"
  by auto

text \<open>One hostname.\<close>

lemma collect_host_collects:
  assumes "collects ds st" and "conflicts_reported ds (cc_issues st)" and "h \<noteq> []" and "normal_host h = h"
  shows "collects (ds @ [(h, candidate_of ing secret)]) (collect_host ing secret h st)"
    "conflicts_reported (ds @ [(h, candidate_of ing secret)]) (cc_issues (collect_host ing secret h st))"
proof -
  let ?st = "collect_host ing secret h st" and ?c = "candidate_of ing secret"
  have h: "to_lower (trim_space h) = h" using assms(4) by (simp add: normal_host_def)
  have f: "first_declaration h ds = map_option cert_key (gm_get (cc_certs st) h)"
    using assms(1) by (simp add: collects_def)
  consider (new) "gm_get (cc_certs st) h = None"
    | (same) e where "gm_get (cc_certs st) h = Some e" "cert_key e = cert_key ?c"
    | (other) e where "gm_get (cc_certs st) h = Some e" "cert_key e \<noteq> cert_key ?c" by (cases "gm_get (cc_certs st) h") auto
  note cases = this
  have accept: "?st = st\<lparr>cc_declared := gm_put h (List.insert (ing_key ing) (gm_or [] (cc_declared st) h)) (cc_declared st),
       cc_hosts := List.insert h (cc_hosts st), cc_certs := gm_put h ?c (cc_certs st)\<rparr>"
    if "gm_get (cc_certs st) h = None \<or> (\<exists>e. gm_get (cc_certs st) h = Some e \<and> cert_key e = cert_key ?c)"
    using assms(3) h that by (auto simp: collect_host_def Let_def candidate_of_def cert_key_def split: option.split)
  have refuse: "?st = st\<lparr>cc_declared := gm_put h (List.insert (ing_key ing) (gm_or [] (cc_declared st) h)) (cc_declared st),
       cc_issues := multi_put (so_source e) (error_issue ''spec.tls'' (conflict_message h e))
         (multi_put (ing_key ing) (error_issue ''spec.tls'' (conflict_message h e)) (cc_issues st))\<rparr>"
    if "gm_get (cc_certs st) h = Some e" "cert_key e \<noteq> cert_key ?c" for e
    using assms(3) h that by (auto simp: collect_host_def Let_def candidate_of_def cert_key_def)
  show "collects (ds @ [(h, ?c)]) ?st"
  proof (cases rule: cases)
    case new
    then have "h \<notin> fst ` set ds" using f first_declaration_None [of h ds] by simp
    with accept new f assms(1) show ?thesis
      by (auto simp: collects_def gomap_simps sources_insert split: option.split)
  next
    case (same e)
    with accept f assms(1) show ?thesis
      by (auto simp: collects_def gomap_simps sources_insert split: option.split)
  next
    case (other e)
    then have "h \<in> fst ` set ds" using f first_declaration_None [of h ds] by auto
    then have "insert h (fst ` set ds) = fst ` set ds" by blast
    with refuse [OF other] other f assms(1) show ?thesis
      by (auto simp: collects_def gomap_simps sources_insert split: option.split)
  qed
  have keep: "conflicts_reported (ds @ [(h, ?c)]) issues"
    if m: "\<And>k. has_conflict_issue (cc_issues st) k \<Longrightarrow> has_conflict_issue issues k"
      and n: "first_declaration h (ds @ [(h, ?c)]) \<noteq> Some (cert_key ?c) \<Longrightarrow> conflict_at (ds @ [(h, ?c)]) issues h ?c"
    for issues
    unfolding conflicts_reported_def
  proof (intro allI impI)
    fix g s
    assume gs: "(g, s) \<in> set (ds @ [(h, ?c)])" "first_declaration g (ds @ [(h, ?c)]) \<noteq> Some (cert_key s)"
    show "conflict_at (ds @ [(h, ?c)]) issues g s"
    proof (cases "(g, s) \<in> set ds")
      case True
      then have "first_declaration g ds \<noteq> None" unfolding first_declaration_None by force
      then have "first_declaration g ds \<noteq> Some (cert_key s)" using gs(2) by auto
      with True assms(2) have "conflict_at ds (cc_issues st) g s" by (simp add: conflicts_reported_def)
      then show ?thesis using m by (rule conflict_at_mono)
    next
      case False
      with gs n show ?thesis by auto
    qed
  qed
  show "conflicts_reported (ds @ [(h, ?c)]) (cc_issues ?st)"
  proof (cases rule: cases)
    case (other e)
    then have "(h, e) \<in> set ds" using assms(1) by (simp add: collects_def)
    then show ?thesis using other f refuse [OF other]
      by (intro keep) (auto simp: conflict_at_def has_conflict_issue_put issue_fatal_def)
  qed (use accept f in \<open>auto intro!: keep simp: conflict_at_def\<close>)
qed

lemma fold_concat_inv:
  assumes "\<And>ds s x. x \<in> set xs \<Longrightarrow> P ds s \<Longrightarrow> P (ds @ g x) (f x s)" and "P ds s"
  shows "P (ds @ concat (map g xs)) (fold f xs s)"
  using assms
proof (induction xs arbitrary: ds s)
  case (Cons x xs)
  have "P (ds @ g x) (f x s)" using Cons.prems by simp
  then have "P ((ds @ g x) @ concat (map g xs)) (fold f xs (f x s))"
    using Cons.prems(1) by (intro Cons.IH) auto
  then show ?case by simp
qed simp

definition collected_so_far :: "(string \<times> cert_source) list \<Rightarrow> collected \<Rightarrow> bool" where
  "collected_so_far ds st \<longleftrightarrow> collects ds st \<and> conflicts_reported ds (cc_issues st)"

lemma collected_so_far_issue:
  "collected_so_far ds st \<Longrightarrow> collected_so_far ds (st\<lparr>cc_issues := multi_put k i (cc_issues st)\<rparr>)"
  by (auto simp: collected_so_far_def collects_def has_conflict_issue_put elim!: conflicts_reported_mono)

lemma collect_tls_declarations:
  assumes "collected_so_far ds st"
  shows "collected_so_far (ds @ tls_declarations ing tls) (collect_tls ing tls st)"
proof (cases "trim_space (tls_secret tls) = [] \<or> effective_tls_hosts ing tls = []")
  case True
  then show ?thesis
    using collected_so_far_issue [OF assms] by (auto simp: tls_declarations_def collect_tls_def Let_def)
next
  case False
  let ?s = "trim_space (tls_secret tls)"
  have "collected_so_far (ds @ concat (map (\<lambda>h. [(h, candidate_of ing ?s)]) (effective_tls_hosts ing tls)))
     (fold (collect_host ing ?s) (effective_tls_hosts ing tls) st)"
  proof (rule fold_concat_inv [where P = collected_so_far])
    fix ds st h
    assume "h \<in> set (effective_tls_hosts ing tls)" "collected_so_far ds st"
    then show "collected_so_far (ds @ [(h, candidate_of ing ?s)]) (collect_host ing ?s h st)"
      using collect_host_collects [of ds st h] effective_tls_hosts_normal by (simp add: collected_so_far_def)
  qed (rule assms)
  with False show ?thesis by (simp add: tls_declarations_def collect_tls_def Let_def)
qed

lemma collect_declarations: "collected_so_far (declarations ings) (collect ings)"
proof -
  have "collected_so_far ([] @ concat (map ingress_declarations (sort_slice ing_less ings)))
     (fold collect_ingress (sort_slice ing_less ings) empty_collected)"
  proof (rule fold_concat_inv [where P = collected_so_far])
    fix ds st ing
    assume "collected_so_far ds st"
    then show "collected_so_far (ds @ ingress_declarations ing) (collect_ingress ing st)"
      by (auto simp: ingress_declarations_def collect_ingress_def intro!: fold_concat_inv [where P = collected_so_far] collect_tls_declarations)
  qed (simp add: collected_so_far_def collects_def conflicts_reported_def empty_collected_def)
  then show ?thesis by (simp add: declarations_def collect_def)
qed

lemma declarations_in:
  "(h, s) \<in> set (declarations ings) \<longleftrightarrow>
     (\<exists>ing \<in> set ings. \<not> ing_deleting ing \<and> (\<exists>tls \<in> set (ing_tls ing). trim_space (tls_secret tls) \<noteq> [] \<and>
        h \<in> set (effective_tls_hosts ing tls) \<and> s = candidate_of ing (trim_space (tls_secret tls))))"
  by (auto simp: declarations_def ingress_declarations_def tls_declarations_def Let_def)

end
