(* ===== verification/Emission.thy ===== *)
theory Emission
  imports Declarations
begin

text \<open>
  The emission loop of \<^verbatim>\<open>BuildManagedGateway\<close> as a function of the placed hostnames: which
  listener objects it produces on which parent, and what \<^verbatim>\<open>TLSSections\<close> and \<^verbatim>\<open>Placements\<close>
  hold afterwards.
\<close>

definition listener_for :: "managed_options \<Rightarrow> (string, projected_listener) gomap \<Rightarrow> string \<Rightarrow> listener" where
  "listener_for options byHostname hostname =
     https_listener_obj hostname (pj_secret (gm_or zero_listener byHostname hostname))
       (dns_label [mo_https_section options, hostname])"

abbreviation placed_at :: "(string, nat) gomap \<Rightarrow> string \<Rightarrow> nat" where
  "placed_at \<equiv> gm_or 0"

lemma fold_emit_listener:
  "fold (emit_listener options byH placed) hs em =
     \<lparr>em_listeners = em_listeners em @ map (listener_for options byH) (filter (\<lambda>h. placed_at placed h = 0) hs),
      em_entries = fold (\<lambda>h. multi_put (placed_at placed h) (listener_for options byH h))
        (filter (\<lambda>h. placed_at placed h \<noteq> 0) hs) (em_entries em),
      em_max = fold (\<lambda>h. max (placed_at placed h)) (filter (\<lambda>h. placed_at placed h \<noteq> 0) hs) (em_max em),
      em_sections = fold (\<lambda>h. fold (\<lambda>g. gm_put g (listener_ref_of h (placed_at placed h) options))
        (pj_hosts (gm_or zero_listener byH h))) hs (em_sections em),
      em_placements = fold (\<lambda>h. gm_put h \<lparr>lp_set = placed_at placed h,
        lp_secret = pj_secret (gm_or zero_listener byH h)\<rparr>) hs (em_placements em)\<rparr>"
proof (induction hs arbitrary: em)
  case (Cons h hs)
  then show ?case by (simp add: emit_listener_def Let_def listener_for_def)
qed simp

lemma fold_max_le: "i \<in> set is \<Longrightarrow> i \<le> fold max is (m :: nat)"
proof -
  have "m \<le> fold max is m" for m :: nat and "is" by (induction "is" arbitrary: m) (auto, use max.bounded_iff in blast)
  then show "i \<in> set is \<Longrightarrow> i \<le> fold max is m"
    by (induction "is" arbitrary: m) (auto, metis max.bounded_iff)
qed

subsection \<open>A consistent placement\<close>

locale placement_of =
  fixes options :: managed_options and projected unplaced :: "projected_listener list" and placed :: "(string, nat) gomap"
  assumes projected_distinct: "distinct (map pj_hostname projected)"
    and hosts_distinct: "distinct (concat (map pj_hosts projected))"
    and placed_eq: "place_listeners projected options = (placed, unplaced)"
begin

definition by_host :: "(string, projected_listener) gomap" where
  "by_host = fold (\<lambda>l. gm_put (pj_hostname l) l) projected []"

lemmas placed_facts = place_listeners_facts [OF projected_distinct placed_eq]

lemma placed_distinct: "distinct (gm_keys placed)"
  using placed_facts(1) by (simp add: gomap_ok_def)

lemma by_host_get: "l \<in> set projected \<Longrightarrow> gm_get by_host (pj_hostname l) = Some l"
  unfolding by_host_def using projected_distinct
  by (intro gm.get_fold_put_hit [where g = "\<lambda>l. l"]) (auto simp: distinct_map dest: inj_onD)

lemma placed_or_unplaced: "l \<in> set projected \<Longrightarrow> pj_hostname l \<in> set (gm_keys placed) \<or> l \<in> set unplaced"
proof -
  assume l: "l \<in> set projected"
  have "set (map fst placed) \<union> set (map pj_hostname unplaced) = set (map pj_hostname projected)"
    using arg_cong [OF placed_facts(4), of set_mset] by simp
  then have "pj_hostname l \<in> set (map fst placed) \<union> set (map pj_hostname unplaced)" using l by simp
  then show "pj_hostname l \<in> set (gm_keys placed) \<or> l \<in> set unplaced"
    using placed_facts(7) l projected_distinct by (auto simp: distinct_map dest: inj_onD)
qed

lemma placed_projected:
  assumes "h \<in> set (gm_keys placed)"
  obtains l where "l \<in> set projected" "pj_hostname l = h" "gm_get by_host h = Some l"
proof -
  have "set (map fst placed) \<subseteq> set (map pj_hostname projected)"
    using arg_cong [OF placed_facts(4), of set_mset] by auto
  then have "h \<in> set (map pj_hostname projected)" using assms by blast
  then show thesis using that by_host_get by auto
qed

definition hostnames :: "string list" where
  "hostnames = sort_strings (gm_keys placed)"

lemma hostnames_facts: "distinct hostnames" "set hostnames = set (gm_keys placed)"
  using placed_distinct by (simp_all add: hostnames_def)

lemma hostnames_placed: "h \<in> set hostnames \<Longrightarrow> gm_get placed h = Some (placed_at placed h)"
  using gm_has_keys [of placed h] hostnames_facts(2) by (auto simp: gm_or_def split: option.split)

lemma load_hostnames: "length (filter (\<lambda>h. placed_at placed h = i) hostnames) = load placed i"
proof -
  have eq: "(fst p, snd p) = p \<and> placed_at placed (fst p) = snd p" if "p \<in> set placed" for p
  proof -
    have "gm_get placed (fst p) = Some (snd p)" using that placed_facts(1) gomap_ok_in [of placed "fst p" "snd p"] by simp
    then show ?thesis by (simp add: gm_or_def)
  qed
  have "mset (filter (\<lambda>h. placed_at placed h = i) hostnames) = filter_mset (\<lambda>h. placed_at placed h = i) (mset (gm_keys placed))"
    by (simp add: hostnames_def sort_strings_def)
  then have "length (filter (\<lambda>h. placed_at placed h = i) hostnames) = length (filter (\<lambda>h. placed_at placed h = i) (gm_keys placed))"
    by (metis mset_filter size_mset)
  also have "\<dots> = length (filter (\<lambda>p. snd p = i) placed)"
    unfolding filter_map length_map using eq by (intro arg_cong [where f = length] filter_cong) (auto simp: comp_def)
  finally show ?thesis by (simp add: load_def)
qed

subsection \<open>What is emitted\<close>

abbreviation listener_at :: "string \<Rightarrow> listener" where
  "listener_at \<equiv> listener_for options by_host"

lemma emit_eq: "emit options projected placed = fold (emit_listener options by_host placed) hostnames
  \<lparr>em_listeners = [http_listener options], em_entries = [], em_max = 0, em_sections = [], em_placements = []\<rparr>"
  by (simp add: emit_def by_host_def hostnames_def Let_def)

lemma emit_listeners: "em_listeners (emit options projected placed) =
    http_listener options # map listener_at (filter (\<lambda>h. placed_at placed h = 0) hostnames)"
  unfolding emit_eq fold_emit_listener by simp

lemma emit_entries: "em_entries (emit options projected placed) =
    group_on (placed_at placed) listener_at (filter (\<lambda>h. placed_at placed h \<noteq> 0) hostnames)"
  unfolding emit_eq fold_emit_listener by (simp add: group_on_def)

lemma emit_max: "h \<in> set hostnames \<Longrightarrow> placed_at placed h \<le> em_max (emit options projected placed)"
proof (cases "placed_at placed h = 0")
  case False
  assume h: "h \<in> set hostnames"
  have "em_max (emit options projected placed) =
      fold max (map (placed_at placed) (filter (\<lambda>h. placed_at placed h \<noteq> 0) hostnames)) 0"
    unfolding emit_eq fold_emit_listener by (simp add: fold_map comp_def)
  then show ?thesis using False h by (auto intro!: fold_max_le)
qed simp

definition set_listeners :: "nat \<Rightarrow> listener list" where
  "set_listeners i = map listener_at (filter (\<lambda>h. placed_at placed h = i) hostnames)"

definition used_sets :: "nat list" where
  "used_sets = filter (\<lambda>i. i \<in> placed_at placed ` set hostnames) [1..<Suc (em_max (emit options projected placed))]"

lemma used_sets_iff: "i \<in> set used_sets \<longleftrightarrow> i \<noteq> 0 \<and> i \<in> placed_at placed ` set hostnames"
  using emit_max by (fastforce simp: used_sets_def)

lemma used_sets_sorted: "sorted_wrt (<) used_sets" "distinct used_sets"
  by (simp_all add: used_sets_def sorted_wrt_filter del: upt_Suc)

lemma emit_sets_eq: "emit_sets options (emit options projected placed) =
    map (\<lambda>i. managed_listener_set options i (set_listeners i)) used_sets"
proof -
  have "concat (map (\<lambda>i. case gm_get (em_entries (emit options projected placed)) i of None \<Rightarrow> []
      | Some entries \<Rightarrow> [managed_listener_set options i entries]) is) =
      map (\<lambda>i. managed_listener_set options i (set_listeners i)) (filter (\<lambda>i. i \<in> placed_at placed ` set hostnames) is)"
    if "0 \<notin> set is" for "is"
    using that
  proof (induction "is")
    case (Cons i "is")
    have "i \<noteq> 0" using Cons.prems by auto
    then have "filter (\<lambda>h. placed_at placed h = i) (filter (\<lambda>h. placed_at placed h \<noteq> 0) hostnames) =
        filter (\<lambda>h. placed_at placed h = i) hostnames" by (auto intro: filter_cong)
    then show ?case using Cons \<open>i \<noteq> 0\<close> by (auto simp: emit_entries group_on_get set_listeners_def)
  qed simp
  from this [of "[1..<Suc (em_max (emit options projected placed))]"] show ?thesis
    unfolding emit_sets_def used_sets_def by (simp del: upt_Suc)
qed

lemma emit_placements: "gm_get (em_placements (emit options projected placed)) h =
    (if h \<in> set hostnames then Some \<lparr>lp_set = placed_at placed h, lp_secret = pj_secret (gm_or zero_listener by_host h)\<rparr> else None)"
  "gomap_ok (em_placements (emit options projected placed))"
  unfolding emit_eq fold_emit_listener
  by (simp_all add: gm.get_fold_put_all [where f = "\<lambda>h. h" and h = "\<lambda>h. \<lparr>lp_set = placed_at placed h,
      lp_secret = pj_secret (gm_or zero_listener by_host h)\<rparr>"] gm.ok_fold_put [where f = "\<lambda>h. h"])

lemma emit_placement_keys: "set (gm_keys (em_placements (emit options projected placed))) = set hostnames"
proof (rule set_eqI)
  fix h
  show "h \<in> set (gm_keys (em_placements (emit options projected placed))) \<longleftrightarrow> h \<in> set hostnames"
    using emit_placements(1) [of h] gm_has_keys [of "em_placements (emit options projected placed)" h]
    by (cases "h \<in> set hostnames") (simp_all del: set_map)
qed

lemma fold_fold_put: "fold (\<lambda>h. fold (\<lambda>g. gm_put g (r h)) (f h)) hs m =
    fold (\<lambda>p. gm_put (fst p) (r (snd p))) (concat (map (\<lambda>h. map (\<lambda>g. (g, h)) (f h)) hs)) m"
  by (induction hs arbitrary: m) (simp_all add: fold_map comp_def)

definition serves :: "string \<Rightarrow> string \<Rightarrow> bool" where
  "serves h g \<longleftrightarrow> h \<in> set hostnames \<and> g \<in> set (pj_hosts (gm_or zero_listener by_host h))"

lemma serves_projected:
  assumes "serves h g"
  obtains l where "l \<in> set projected" "pj_hostname l = h" "gm_or zero_listener by_host h = l" "g \<in> set (pj_hosts l)"
proof -
  obtain l where "l \<in> set projected" "pj_hostname l = h" "gm_get by_host h = Some l"
    using assms placed_projected hostnames_facts(2) unfolding serves_def by blast
  then show thesis using that assms by (simp add: serves_def gm_or_def)
qed

lemma serves_unique: "serves h g \<Longrightarrow> serves h' g \<Longrightarrow> h = h'"
proof -
  note * = distinct_concat_unique [OF hosts_distinct]
  show "serves h g \<Longrightarrow> serves h' g \<Longrightarrow> h = h'"
    by (elim serves_projected) (use * in blast)
qed

lemma emit_sections: "gm_get (em_sections (emit options projected placed)) g = Some ref \<longleftrightarrow>
    (\<exists>h. serves h g \<and> ref = listener_ref_of h (placed_at placed h) options)"
proof -
  let ?ps = "concat (map (\<lambda>h. map (\<lambda>g. (g, h)) (pj_hosts (gm_or zero_listener by_host h))) hostnames)"
  let ?r = "\<lambda>h. listener_ref_of h (placed_at placed h) options"
  have eq: "em_sections (emit options projected placed) = fold (\<lambda>p. gm_put (fst p) (?r (snd p))) ?ps []"
    unfolding emit_eq fold_emit_listener by (simp add: fold_fold_put)
  have ps: "(g, h) \<in> set ?ps \<longleftrightarrow> serves h g" for g h by (auto simp: serves_def)
  show ?thesis
  proof (cases "\<exists>h. serves h g")
    case True
    then obtain h where h: "serves h g" by blast
    have "gm_get (fold (\<lambda>p. gm_put (fst p) (?r (snd p))) ?ps []) (fst (g, h)) = Some (?r (snd (g, h)))"
    proof (rule gm.get_fold_put_hit)
      show "(g, h) \<in> set ?ps" using h ps by blast
      show "?r (snd p) = ?r (snd (g, h))" if "p \<in> set ?ps" "fst p = fst (g, h)" for p
        using that h ps [of "fst p" "snd p"] serves_unique by (metis fst_conv prod.collapse snd_conv)
    qed
    then show ?thesis unfolding eq using h serves_unique by auto
  next
    case False
    then have "g \<notin> fst ` set ?ps" using ps by (force simp del: set_concat)
    then have "gm_get (fold (\<lambda>p. gm_put (fst p) (?r (snd p))) ?ps []) g = gm_get [] g"
      by (rule gm.get_fold_put_miss)
    then show ?thesis unfolding eq using False by auto
  qed
qed

lemma emit_sections_ok: "gomap_ok (em_sections (emit options projected placed))"
  unfolding emit_eq fold_emit_listener by (simp add: fold_fold_put gm.ok_fold_put)

text \<open>Every host of a projected listener is served, or its listener is left out.\<close>

lemma served_or_unplaced:
  assumes "l \<in> set projected" and "g \<in> set (pj_hosts l)"
  shows "serves (pj_hostname l) g \<or> l \<in> set unplaced"
  using placed_or_unplaced [OF assms(1)] by_host_get [OF assms(1)] assms(2) hostnames_facts(2)
  by (auto simp: serves_def gm_or_def simp del: set_map)

end

end
