(* ===== verification/ManagedPlan.thy ===== *)
theory ManagedPlan
  imports Emission
begin

text \<open>
  The whole of \<^verbatim>\<open>BuildManagedGateway\<close>: the invariants its comment promises, read off the objects
  the plan contains, and what the controller relies on when it compares two plans.
\<close>

subsection \<open>The plan of the collected hostnames\<close>

definition projected_of :: "ingress list \<Rightarrow> managed_options \<Rightarrow> projected_listener list" where
  "projected_of ings options = project_listeners options (cc_certs (collect ings))"

abbreviation placed_of :: "ingress list \<Rightarrow> managed_options \<Rightarrow> (string, nat) gomap" where
  "placed_of ings options \<equiv> fst (place_listeners (projected_of ings options) options)"

abbreviation unplaced_of :: "ingress list \<Rightarrow> managed_options \<Rightarrow> projected_listener list" where
  "unplaced_of ings options \<equiv> snd (place_listeners (projected_of ings options) options)"

lemma projected_of_distinct: "distinct (map pj_hostname (projected_of ings options))"
  unfolding projected_of_def by (rule projected_distinct [OF collect_facts(1)])

lemma projected_of_hosts: "mset (concat (map pj_hosts (projected_of ings options))) = mset (gm_keys (cc_certs (collect ings)))"
  unfolding projected_of_def by (rule projected_hosts [OF collect_facts(1)])

lemma projected_of_hosts_distinct: "distinct (concat (map pj_hosts (projected_of ings options)))"
  using projected_of_hosts collect_facts(1) by (metis gomap_ok_def mset_eq_imp_distinct_iff)

interpretation mg: placement_of options "projected_of ings options" "unplaced_of ings options" "placed_of ings options"
  for options ings
  by unfold_locales (simp_all add: projected_of_distinct projected_of_hosts_distinct)

abbreviation emitted_of :: "ingress list \<Rightarrow> managed_options \<Rightarrow> emitted" where
  "emitted_of ings options \<equiv> emit options (projected_of ings options) (placed_of ings options)"

lemma plan_fields:
  "gp_gateway (build_managed_gateway ings options) =
     \<lparr>gw_meta = \<lparr>om_name = mo_name options, om_namespace = mo_namespace options, om_labels = managed_labels options\<rparr>,
      gw_class = mo_class options, gw_listeners = em_listeners (emitted_of ings options),
      gw_parameters = (if mo_proxy_name options \<noteq> []
        then Some \<lparr>lo_group = ngf_group, lo_kind = ''NginxProxy'', lo_name = mo_proxy_name options\<rparr> else None),
      gw_allowed = (if mo_allow_sets options \<or> emit_sets options (emitted_of ings options) \<noteq> [] then Some FromSame else None)\<rparr>"
  "gp_sets (build_managed_gateway ings options) = emit_sets options (emitted_of ings options)"
  "gp_grants (build_managed_gateway ings options) =
     map (certificate_reference_grant options) (grant_secrets options (em_placements (emitted_of ings options)))"
  "gp_tls_hosts (build_managed_gateway ings options) = cc_hosts (collect ings)"
  "gp_tls_sections (build_managed_gateway ings options) = em_sections (emitted_of ings options)"
  "gp_placements (build_managed_gateway ings options) = em_placements (emitted_of ings options)"
  "gp_issues (build_managed_gateway ings options) =
     report_unplaced (cc_declared (collect ings)) (unplaced_of ings options) (cc_issues (collect ings))"
  by (simp_all add: build_managed_gateway_def Let_def projected_of_def split: prod.split)

text \<open>All listeners of a plan, each with the kind and the name of the object that holds it.\<close>

definition plan_listeners :: "gateway_plan \<Rightarrow> (string \<times> string \<times> listener) list" where
  "plan_listeners plan =
     map (\<lambda>l. (GatewayKind, om_name (gw_meta (gp_gateway plan)), l)) (gw_listeners (gp_gateway plan)) @
     concat (map (\<lambda>s. map (\<lambda>l. (ListenerSetKind, om_name (ls_meta s), l)) (ls_listeners s)) (gp_sets plan))"

definition tls_listeners :: "gateway_plan \<Rightarrow> (string \<times> string \<times> listener) list" where
  "tls_listeners plan = filter (\<lambda>(kind, name, l). li_protocol l = HTTPS) (plan_listeners plan)"

text \<open>The parent of a listener with an index.\<close>

definition parent_of :: "managed_options \<Rightarrow> nat \<Rightarrow> string \<times> string" where
  "parent_of options i = (if i = 0 then (GatewayKind, mo_name options)
     else (ListenerSetKind, managed_listener_set_name (mo_name options) i))"

lemma listener_for_simps [simp]:
  "li_protocol (listener_for options byH h) = HTTPS" "li_hostname (listener_for options byH h) = Some h"
  "li_name (listener_for options byH h) = dns_label [mo_https_section options, h]"
  "li_certs (listener_for options byH h) = Some [\<lparr>sr_name = nn_name (pj_secret (gm_or zero_listener byH h)),
     sr_namespace = Some (nn_namespace (pj_secret (gm_or zero_listener byH h)))\<rparr>]"
  by (simp_all add: listener_for_def https_listener_obj_def)

lemma http_listener_simps [simp]: "li_protocol (http_listener options) = HTTP"
  by (simp add: http_listener_def)

lemma managed_listener_set_simps [simp]:
  "ls_listeners (managed_listener_set options i entries) = entries"
  "om_name (ls_meta (managed_listener_set options i entries)) = managed_listener_set_name (mo_name options) i"
  by (simp_all add: managed_listener_set_def)

lemma tls_listeners_eq:
  "tls_listeners (build_managed_gateway ings options) =
     map (\<lambda>h. (fst (parent_of options (placed_at (placed_of ings options) h)),
               snd (parent_of options (placed_at (placed_of ings options) h)), mg.listener_at options ings h))
       (concat (map (\<lambda>i. filter (\<lambda>h. placed_at (placed_of ings options) h = i) (mg.hostnames ings options))
          (0 # mg.used_sets options ings)))"
proof -
  let ?at = "placed_at (placed_of ings options)" and ?hs = "mg.hostnames ings options"
  let ?L = "mg.listener_at options ings"
  let ?f = "\<lambda>h. (fst (parent_of options (?at h)), snd (parent_of options (?at h)), ?L h)"
  have one: "map ?f (filter (\<lambda>h. ?at h = i) ?hs) =
      map (\<lambda>h. (fst (parent_of options i), snd (parent_of options i), ?L h)) (filter (\<lambda>h. ?at h = i) ?hs)" for i
    by simp
  have "tls_listeners (build_managed_gateway ings options) =
      map (\<lambda>h. (GatewayKind, mo_name options, ?L h)) (filter (\<lambda>h. ?at h = 0) ?hs) @
      concat (map (\<lambda>i. map (\<lambda>h. (ListenerSetKind, managed_listener_set_name (mo_name options) i, ?L h))
        (filter (\<lambda>h. ?at h = i) ?hs)) (mg.used_sets options ings))"
    unfolding tls_listeners_def plan_listeners_def plan_fields mg.emit_sets_eq mg.emit_listeners
    by (simp add: mg.set_listeners_def comp_def filter_concat filter_map)
  also have "\<dots> = map ?f (filter (\<lambda>h. ?at h = 0) ?hs) @
      concat (map (\<lambda>i. map ?f (filter (\<lambda>h. ?at h = i) ?hs)) (mg.used_sets options ings))"
  proof -
    have "map ?f (filter (\<lambda>h. ?at h = i) ?hs) =
        map (\<lambda>h. (ListenerSetKind, managed_listener_set_name (mo_name options) i, ?L h)) (filter (\<lambda>h. ?at h = i) ?hs)"
      if "i \<in> set (mg.used_sets options ings)" for i
      using that unfolding mg.used_sets_iff one by (simp add: parent_of_def)
    then have eq: "map (\<lambda>i. map ?f (filter (\<lambda>h. ?at h = i) ?hs)) (mg.used_sets options ings) =
        map (\<lambda>i. map (\<lambda>h. (ListenerSetKind, managed_listener_set_name (mo_name options) i, ?L h))
          (filter (\<lambda>h. ?at h = i) ?hs)) (mg.used_sets options ings)" by (rule map_cong [OF refl])
    have zero: "map ?f (filter (\<lambda>h. ?at h = 0) ?hs) = map (\<lambda>h. (GatewayKind, mo_name options, ?L h)) (filter (\<lambda>h. ?at h = 0) ?hs)"
      unfolding one by (simp add: parent_of_def)
    show ?thesis by (simp only: zero eq)
  qed
  finally show ?thesis by (simp add: map_concat comp_def)
qed

lemma all_hostnames:
  "mset (concat (map (\<lambda>i. filter (\<lambda>h. placed_at (placed_of ings options) h = i) (mg.hostnames ings options))
     (0 # mg.used_sets options ings))) = mset (mg.hostnames ings options)"
proof (rule mset_concat_group)
  show "distinct (0 # mg.used_sets options ings)"
    using mg.used_sets_sorted(2) [of options ings] by (simp add: mg.used_sets_iff)
  show "placed_at (placed_of ings options) ` set (mg.hostnames ings options) \<subseteq> set (0 # mg.used_sets options ings)"
    by (auto simp: mg.used_sets_iff)
qed

lemma tls_listener_in:
  "(kind, name, l) \<in> set (tls_listeners (build_managed_gateway ings options)) \<longleftrightarrow>
     (\<exists>h \<in> set (mg.hostnames ings options). (kind, name) = parent_of options (placed_at (placed_of ings options) h) \<and>
        l = mg.listener_at options ings h)"
  unfolding tls_listeners_eq set_map mset_eq_setD [OF all_hostnames] by (auto simp: prod_eq_iff)

subsection \<open>Every declared hostname\<close>

lemma projected_of_covers:
  assumes "h \<in> set (cc_hosts (collect ings))"
  obtains l where "l \<in> set (projected_of ings options)" "h \<in> set (pj_hosts l)"
proof -
  have "set (concat (map pj_hosts (projected_of ings options))) = set (cc_hosts (collect ings))"
    using mset_eq_setD [OF projected_of_hosts [of ings options]] collect_facts(3) [of ings] by (simp del: set_map)
  then show thesis using assms that by auto
qed

lemma projected_of_declared: "l \<in> set (projected_of ings options) \<Longrightarrow> set (pj_hosts l) \<subseteq> set (cc_hosts (collect ings))"
  using mset_eq_setD [OF projected_of_hosts [of ings options]] collect_facts(3) [of ings] by fastforce

lemma plan_sections:
  "gm_get (gp_tls_sections (build_managed_gateway ings options)) g = Some ref \<longleftrightarrow>
     (\<exists>h. mg.serves ings options h g \<and> ref = listener_ref_of h (placed_at (placed_of ings options) h) options)"
  unfolding plan_fields by (rule mg.emit_sections)

lemma multi_put_keeps: "i \<in> set (gm_or [] m k) \<Longrightarrow> i \<in> set (gm_or [] (multi_put k' i' m) k)"
  by (auto simp: gomap_simps)

lemma report_keeps:
  "i \<in> set (gm_or [] issues k) \<Longrightarrow> i \<in> set (gm_or [] (report_unplaced declared unplaced issues) k)"
  unfolding report_unplaced_def by (intro fold_inv [where P = "\<lambda>m. i \<in> set (gm_or [] m k)"] multi_put_keeps)

lemma fold_establish:
  assumes "x \<in> set xs" and "\<And>s. P (f x s)" and "\<And>y s. P s \<Longrightarrow> P (f y s)"
  shows "P (fold f xs s)"
  using assms(1)
proof (induction xs arbitrary: s)
  case (Cons y ys)
  have "P (fold f ys (f y s))" if "P (f y s)" using that by (rule fold_inv [of P f, OF assms(3), rotated])
  then show ?case using Cons assms(2) by (cases "x = y") auto
qed simp

lemma report_reports:
  assumes "l \<in> set unplaced" and "h \<in> set (pj_hosts l)" and "k \<in> set (gm_or [] declared h)"
  shows "error_issue ''spec.tls'' (unplaced_message h) \<in> set (gm_or [] (report_unplaced declared unplaced issues) k)"
proof -
  let ?i = "error_issue ''spec.tls'' (unplaced_message h)"
  have keep: "?i \<in> set (gm_or [] (fold (\<lambda>source. multi_put source (error_issue ''spec.tls'' (unplaced_message g))) ks m) k)"
    if "?i \<in> set (gm_or [] m k)" for g ks m
    using that by (intro fold_inv [where P = "\<lambda>m. ?i \<in> set (gm_or [] m k)"] multi_put_keeps)
  show ?thesis
    unfolding report_unplaced_def
  proof (rule fold_establish [OF assms(1)], goal_cases)
    case (1 s)
    show ?case
      by (rule fold_establish [OF assms(2)], rule fold_establish [of k])
        (use assms(3) keep multi_put_keeps in \<open>auto simp: gomap_simps\<close>)
  next
    case (2 y s)
    then show ?case by (intro fold_inv [where P = "\<lambda>m. ?i \<in> set (gm_or [] m k)"] keep)
  qed
qed

lemma plan_host_served:
  assumes "h \<in> set (gp_tls_hosts (build_managed_gateway ings options))"
  shows "gm_has (gp_tls_sections (build_managed_gateway ings options)) h \<or>
    (\<not> mo_overflow options \<and> (\<exists>l \<in> set (unplaced_of ings options). h \<in> set (pj_hosts l)))"
proof -
  obtain l where l: "l \<in> set (projected_of ings options)" "h \<in> set (pj_hosts l)"
    using assms projected_of_covers unfolding plan_fields by blast
  from mg.served_or_unplaced [OF l] show ?thesis
  proof
    assume "mg.serves ings options (pj_hostname l) h"
    then have "gm_get (gp_tls_sections (build_managed_gateway ings options)) h =
        Some (listener_ref_of (pj_hostname l) (placed_at (placed_of ings options) (pj_hostname l)) options)"
      unfolding plan_sections by blast
    then show ?thesis by simp
  next
    assume u: "l \<in> set (unplaced_of ings options)"
    then have "\<not> mo_overflow options"
      using mg.placed_facts(5) [of options ings] by (metis empty_iff empty_set)
    then show ?thesis using u l(2) by blast
  qed
qed

subsection \<open>The invariants of the plan\<close>

text \<open>
  C6. Every declared TLS hostname is served by the listener \<^verbatim>\<open>TLSSections\<close> names for it, or no
  ListenerSet overflow is available and every Ingress that declares the hostname receives a fatal
  issue saying that it cannot be served. The hostnames of the plan are the declared ones.
\<close>

theorem declared_hosts_served_or_reported:
  assumes "(h, s) \<in> set (declarations ings)"
  shows "h \<in> set (gp_tls_hosts (build_managed_gateway ings options)) \<and>
    ((\<exists>ref. gm_get (gp_tls_sections (build_managed_gateway ings options)) h = Some ref) \<or>
     (\<not> mo_overflow options \<and>
        error_issue ''spec.tls'' (unplaced_message h) \<in> set (gm_or [] (gp_issues (build_managed_gateway ings options)) (so_source s))))"
proof -
  have c: "collects (declarations ings) (collect ings)"
    using collect_declarations by (simp add: collected_so_far_def)
  have "h \<in> fst ` set (declarations ings)" "so_source s \<in> so_source ` {s. (h, s) \<in> set (declarations ings)}"
    using assms by (force, blast)
  with c have h: "h \<in> set (gp_tls_hosts (build_managed_gateway ings options))"
    and s: "so_source s \<in> set (gm_or [] (cc_declared (collect ings)) h)"
    unfolding collects_def plan_fields by simp_all
  have "error_issue ''spec.tls'' (unplaced_message h) \<in> set (gm_or [] (gp_issues (build_managed_gateway ings options)) (so_source s))"
    if "l \<in> set (unplaced_of ings options)" "h \<in> set (pj_hosts l)" for l
    unfolding plan_fields using that s by (rule report_reports)
  note reported = this
  from plan_host_served [OF h] show ?thesis
  proof (elim disjE conjE bexE)
    assume "gm_has (gp_tls_sections (build_managed_gateway ings options)) h"
    then obtain ref where "gm_get (gp_tls_sections (build_managed_gateway ings options)) h = Some ref" by blast
    with h show ?thesis by blast
  qed (use h reported in blast)
qed

lemma sample_declarations:
  "declarations [sample_ingress ''app'' ''a.example'' ''tls''] =
     [(''a.example'', candidate_of (sample_ingress ''app'' ''a.example'' ''tls'') ''tls'')]"
  by code_simp

theorem declared_hosts_served_or_reported_witness:
  "\<exists>ref. gm_get (gp_tls_sections (build_managed_gateway [sample_ingress ''app'' ''a.example'' ''tls''] sample_options)) ''a.example'' = Some ref"
  using declared_hosts_served_or_reported [of "''a.example''" _ "[sample_ingress ''app'' ''a.example'' ''tls'']" sample_options]
  by (simp add: sample_declarations sample_options_def)

lemma section_listener:
  assumes "gm_get (gp_tls_sections (build_managed_gateway ings options)) h = Some ref"
  shows "\<exists>l g secret. (lr_kind ref, lr_name ref, l) \<in> set (tls_listeners (build_managed_gateway ings options)) \<and>
    li_name l = lr_section ref \<and> li_hostname l = Some g \<and> (g = h \<or> one_label_up h = Some g) \<and>
    li_certs l = Some [\<lparr>sr_name = nn_name secret, sr_namespace = Some (nn_namespace secret)\<rparr>] \<and>
    map_option (class_of options) (first_declaration h (declarations ings)) = Some (class_of options secret)"
proof -
  obtain g where g: "mg.serves ings options g h" "ref = listener_ref_of g (placed_at (placed_of ings options) g) options"
    using assms unfolding plan_sections by blast
  from g(1) obtain l where l: "l \<in> set (projected_of ings options)" "pj_hostname l = g"
    "gm_or zero_listener (mg.by_host ings options) g = l" "h \<in> set (pj_hosts l)" by (rule mg.serves_projected)
  note pr = projected_serves [OF collect_facts(1) l(1) [unfolded projected_of_def] l(4)]
  have "h \<in> set (gm_keys (cc_certs (collect ings)))"
    using projected_of_declared [OF l(1)] l(4) collect_facts(3) by blast
  then obtain src where src: "gm_get (cc_certs (collect ings)) h = Some src"
    using gm_has_keys [of "cc_certs (collect ings)" h] by auto
  then have "first_declaration h (declarations ings) = Some (cl_secret (claim_of (cc_certs (collect ings)) h))"
    using collect_declarations [of ings]
    by (simp add: collected_so_far_def collects_def claim_of_def source_of_def Let_def gm_or_def cert_key_def)
      (metis cert_key_def option.simps(9))
  then have f: "map_option (class_of options) (first_declaration h (declarations ings)) = Some (class_of options (pj_secret l))"
    using pr(2) by simp
  have "(lr_kind ref, lr_name ref, mg.listener_at options ings g) \<in> set (tls_listeners (build_managed_gateway ings options))"
    unfolding tls_listener_in using g by (intro bexI [of _ g]) (auto simp: mg.serves_def listener_ref_of_def parent_of_def Let_def)
  moreover have "lr_section ref = dns_label [mo_https_section options, g]"
    using g(2) by (simp add: listener_ref_of_def Let_def)
  ultimately show ?thesis
    using f pr(1) l(2,3) by (intro exI [of _ "mg.listener_at options ings g"] exI [of _ g] exI [of _ "pj_secret l"]) auto
qed

text \<open>
  C15. \<^verbatim>\<open>TLSSections\<close> refers to a listener the plan emits, on the parent it names and under the
  section it names; the hostname of that listener is the declared one or its wildcard one label up,
  and its certificate is of the class of the Secret the first declaration of the hostname names.
\<close>

theorem tls_section_names_listener:
  assumes "gm_get (gp_tls_sections (build_managed_gateway ings options)) h = Some ref"
  shows "\<exists>l g secret. (lr_kind ref, lr_name ref, l) \<in> set (tls_listeners (build_managed_gateway ings options)) \<and>
    li_name l = lr_section ref \<and> li_hostname l = Some g \<and> (g = h \<or> one_label_up h = Some g) \<and>
    li_certs l = Some [\<lparr>sr_name = nn_name secret, sr_namespace = Some (nn_namespace secret)\<rparr>] \<and>
    map_option (class_of options) (first_declaration h (declarations ings)) = Some (class_of options secret)"
  using assms by (rule section_listener)

abbreviation sample_plan :: gateway_plan where
  "sample_plan \<equiv> build_managed_gateway [sample_ingress ''app'' ''a.example'' ''tls''] sample_options"

lemma sample_hosts: "gp_tls_hosts sample_plan = [''a.example'']"
  unfolding plan_fields by code_simp

lemma sample_section: "\<exists>ref. gm_get (gp_tls_sections sample_plan) ''a.example'' = Some ref"
  using plan_host_served [of "''a.example''" "[sample_ingress ''app'' ''a.example'' ''tls'']" sample_options]
  by (simp add: sample_hosts) (simp add: sample_options_def)

theorem tls_section_names_listener_witness:
  "\<exists>ref l g. gm_get (gp_tls_sections sample_plan) ''a.example'' = Some ref \<and>
     (lr_kind ref, lr_name ref, l) \<in> set (tls_listeners sample_plan) \<and>
     li_hostname l = Some g \<and> (g = ''a.example'' \<or> one_label_up ''a.example'' = Some g)"
proof -
  obtain ref where "gm_get (gp_tls_sections sample_plan) ''a.example'' = Some ref" using sample_section by blast
  from this tls_section_names_listener [OF this] show ?thesis by blast
qed

text \<open>C23. No two HTTPS listeners of a plan share a hostname, on whatever parents they are.\<close>

theorem tls_listener_hostnames_distinct:
  "distinct (map (\<lambda>(kind, name, l). li_hostname l) (tls_listeners (build_managed_gateway ings options)))"
proof -
  let ?hs = "concat (map (\<lambda>i. filter (\<lambda>h. placed_at (placed_of ings options) h = i) (mg.hostnames ings options))
    (0 # mg.used_sets options ings))"
  have "map (\<lambda>(kind, name, l). li_hostname l) (tls_listeners (build_managed_gateway ings options)) = map Some ?hs"
    unfolding tls_listeners_eq by (simp add: comp_def)
  moreover have "distinct ?hs"
    using mset_eq_imp_distinct_iff [OF all_hostnames] mg.hostnames_facts(1) by blast
  then have "distinct (map Some ?hs)" unfolding distinct_map by simp
  ultimately show ?thesis by (rule ssubst)
qed

lemma used_sets_overflow:
  assumes "i \<in> set (mg.used_sets options ings)"
  shows "mo_overflow options"
proof -
  from assms obtain h where "h \<in> set (mg.hostnames ings options)" "placed_at (placed_of ings options) h = i" "i \<noteq> 0"
    unfolding mg.used_sets_iff by auto
  then have "gm_get (placed_of ings options) h = Some i" using mg.hostnames_placed by metis
  then show ?thesis using mg.placed_facts(3) [OF map_of_SomeD] \<open>i \<noteq> 0\<close> by (auto simp: listener_usable_def)
qed

lemma placement_index:
  assumes "(h, p) \<in> set (gp_placements (build_managed_gateway ings options))"
  shows "lp_set p = placed_at (placed_of ings options) h"
proof -
  have "gm_get (gp_placements (build_managed_gateway ings options)) h = Some p"
    using gomap_ok_in [OF mg.emit_placements(2)] assms unfolding plan_fields by blast
  then show ?thesis using mg.emit_placements(1) unfolding plan_fields by (auto split: if_splits)
qed

text \<open>
  C24. The Gateway holds at most 64 listeners, its HTTP listener first, and every ListenerSet of a
  plan between 1 and 64; without ListenerSet overflow there are no ListenerSets.
\<close>

theorem listener_capacities:
  "length (gw_listeners (gp_gateway (build_managed_gateway ings options))) \<le> 64 \<and>
   hd (gw_listeners (gp_gateway (build_managed_gateway ings options))) = http_listener options \<and>
   list_all (\<lambda>s. 1 \<le> length (ls_listeners s) \<and> length (ls_listeners s) \<le> 64) (gp_sets (build_managed_gateway ings options)) \<and>
   (mo_overflow options \<or> gp_sets (build_managed_gateway ings options) = [])"
proof -
  have load: "load (placed_of ings options) i \<le> listener_capacity i" for i by (rule mg.placed_facts(2))
  note usable = used_sets_overflow [of _ options ings]
  have "mg.set_listeners options ings i \<noteq> []" if "i \<in> set (mg.used_sets options ings)" for i
    using that unfolding mg.used_sets_iff by (auto simp: mg.set_listeners_def filter_empty_conv)
  moreover have "length (mg.set_listeners options ings i) \<le> 64" if "i \<in> set (mg.used_sets options ings)" for i
    using that load [of i] unfolding mg.used_sets_iff mg.set_listeners_def
    by (simp add: mg.load_hostnames listener_capacity_def listenerSetCapacity_def)
  moreover have "length (filter (\<lambda>h. placed_at (placed_of ings options) h = 0) (mg.hostnames ings options)) \<le> 63"
    using load [of 0] by (simp add: mg.load_hostnames listener_capacity_def gatewayHTTPSCapacity_def)
  ultimately show ?thesis
    using usable unfolding plan_fields mg.emit_sets_eq
    by (cases "mg.used_sets options ings") (auto simp: mg.emit_listeners list_all_iff Suc_le_eq)
qed

text \<open>The Secrets the listeners of a plan reference.\<close>

definition referenced_secrets :: "gateway_plan \<Rightarrow> nsname set" where
  "referenced_secrets plan =
     {nsname ns (sr_name r) | ns r. \<exists>(kind, name, l) \<in> set (tls_listeners plan).
        \<exists>rs. li_certs l = Some rs \<and> r \<in> set rs \<and> sr_namespace r = Some ns}"

definition granted_secrets :: "gateway_plan \<Rightarrow> nsname list" where
  "granted_secrets plan = concat (map (\<lambda>g. map (\<lambda>to. nsname (om_namespace (rg_meta g)) (lo_name to)) (rg_to g)) (gp_grants plan))"

lemma referenced_secrets_eq: "referenced_secrets (build_managed_gateway ings options) =
    (\<lambda>h. pj_secret (gm_or zero_listener (mg.by_host ings options) h)) ` set (mg.hostnames ings options)"
proof (rule set_eqI, rule iffI)
  let ?S = "\<lambda>h. pj_secret (gm_or zero_listener (mg.by_host ings options) h)"
  fix s
  assume "s \<in> referenced_secrets (build_managed_gateway ings options)"
  then obtain ns r kind name l rs where *: "(kind, name, l) \<in> set (tls_listeners (build_managed_gateway ings options))"
    "li_certs l = Some rs" "r \<in> set rs" "sr_namespace r = Some ns" "s = nsname ns (sr_name r)"
    unfolding referenced_secrets_def by blast
  then obtain h where "h \<in> set (mg.hostnames ings options)" "l = mg.listener_at options ings h"
    unfolding tls_listener_in by blast
  with * show "s \<in> ?S ` set (mg.hostnames ings options)" by auto
next
  let ?S = "\<lambda>h. pj_secret (gm_or zero_listener (mg.by_host ings options) h)"
  fix s
  assume "s \<in> ?S ` set (mg.hostnames ings options)"
  then obtain h where h: "h \<in> set (mg.hostnames ings options)" "s = ?S h" by blast
  let ?r = "\<lparr>sr_name = nn_name s, sr_namespace = Some (nn_namespace s)\<rparr>"
  from h(1) have "(fst (parent_of options (placed_at (placed_of ings options) h)),
      snd (parent_of options (placed_at (placed_of ings options) h)), mg.listener_at options ings h)
      \<in> set (tls_listeners (build_managed_gateway ings options))"
    unfolding tls_listener_in by auto
  moreover have "li_certs (mg.listener_at options ings h) = Some [?r]" using h(2) by simp
  moreover have "s = nsname (nn_namespace s) (sr_name ?r)" by simp
  ultimately show "s \<in> referenced_secrets (build_managed_gateway ings options)"
    unfolding referenced_secrets_def by force
qed

lemma placement_secrets: "(\<lambda>p. lp_secret (snd p)) ` set (em_placements (emitted_of ings options)) =
    (\<lambda>h. pj_secret (gm_or zero_listener (mg.by_host ings options) h)) ` set (mg.hostnames ings options)"
proof -
  have "(h, p) \<in> set (em_placements (emitted_of ings options)) \<longleftrightarrow> h \<in> set (mg.hostnames ings options) \<and>
      p = \<lparr>lp_set = placed_at (placed_of ings options) h, lp_secret = pj_secret (gm_or zero_listener (mg.by_host ings options) h)\<rparr>" for h p
    using gomap_ok_in [OF mg.emit_placements(2)] mg.emit_placements(1) [where ings = ings and options = options and h = h]
    by (auto split: if_splits)
  then have "set (em_placements (emitted_of ings options)) =
      (\<lambda>h. (h, \<lparr>lp_set = placed_at (placed_of ings options) h, lp_secret = pj_secret (gm_or zero_listener (mg.by_host ings options) h)\<rparr>))
        ` set (mg.hostnames ings options)" by auto
  then show ?thesis by (simp add: image_image)
qed

text \<open>
  C25. The ReferenceGrants of a plan admit exactly the Secrets of other namespaces that its
  listeners reference, each once.
\<close>

theorem grants_exactly_referenced:
  "distinct (granted_secrets (build_managed_gateway ings options)) \<and>
   set (granted_secrets (build_managed_gateway ings options)) =
     {s \<in> referenced_secrets (build_managed_gateway ings options). nn_namespace s \<noteq> mo_namespace options}"
proof -
  have one: "concat (map (\<lambda>g. map (\<lambda>to. nsname (om_namespace (rg_meta g)) (lo_name to)) (rg_to g))
      (map (certificate_reference_grant options) ss)) = ss" for ss
    by (induction ss) (simp_all add: certificate_reference_grant_def)
  have g: "granted_secrets (build_managed_gateway ings options) = grant_secrets options (em_placements (emitted_of ings options))"
    unfolding granted_secrets_def plan_fields by (rule one)
  have "set (grant_secrets options (em_placements (emitted_of ings options))) =
      {s \<in> (\<lambda>p. lp_secret (snd p)) ` set (em_placements (emitted_of ings options)). nn_namespace s \<noteq> mo_namespace options}"
    by (auto simp: grant_secrets_def)
  moreover have "distinct (grant_secrets options (em_placements (emitted_of ings options)))"
    by (simp add: grant_secrets_def sorted_namespaced_names_def)
  ultimately show ?thesis unfolding g placement_secrets referenced_secrets_eq by blast
qed

text \<open>
  C26. An Ingress that declares a hostname with another Secret than its first declaration receives
  a fatal issue, and so does an Ingress that declares it with the Secret of the first declaration.
\<close>

theorem conflicts_reported_on_both:
  assumes "(h, s) \<in> set (declarations ings)" and "first_declaration h (declarations ings) \<noteq> Some (cert_key s)"
  shows "conflict_at (declarations ings) (gp_issues (build_managed_gateway ings options)) h s"
proof -
  have "conflicts_reported (declarations ings) (cc_issues (collect ings))"
    using collect_declarations by (simp add: collected_so_far_def)
  then have "conflicts_reported (declarations ings) (gp_issues (build_managed_gateway ings options))"
    unfolding plan_fields by (rule conflicts_reported_mono) (auto simp: has_conflict_issue_def intro: report_keeps)
  then show ?thesis using assms by (simp add: conflicts_reported_def)
qed

definition conflicting_ingresses :: "ingress list" where
  "conflicting_ingresses = [sample_ingress ''app'' ''a.example'' ''tls'', sample_ingress ''blog'' ''a.example'' ''tls'']"

lemma conflicting_declarations:
  "declarations conflicting_ingresses =
     [(''a.example'', candidate_of (sample_ingress ''app'' ''a.example'' ''tls'') ''tls''),
      (''a.example'', candidate_of (sample_ingress ''blog'' ''a.example'' ''tls'') ''tls'')]"
  by code_simp

theorem conflicts_reported_on_both_witness:
  "conflict_at (declarations conflicting_ingresses) (gp_issues (build_managed_gateway conflicting_ingresses sample_options))
     ''a.example'' (candidate_of (sample_ingress ''blog'' ''a.example'' ''tls'') ''tls'')"
  by (rule conflicts_reported_on_both) (simp_all add: conflicting_declarations sample_ingress_def)

end
