(* ===== verification/Replanning.thy ===== *)
theory Replanning
  imports ManagedPlan
begin

text \<open>
  Planning again: when the previous plan's placements are the starting point and the Ingresses are
  the same, the plan is the same; and \<^verbatim>\<open>ChangedTLSHosts\<close> compares the plans it is given.
\<close>

subsection \<open>Nothing is left unplaced\<close>

abbreviation all_served :: "gateway_plan \<Rightarrow> bool" where
  "all_served plan \<equiv> list_all (\<lambda>h. gm_has (gp_tls_sections plan) h) (gp_tls_hosts plan)"

lemma projected_hosts_nonempty:
  assumes "l \<in> set (projected_of ings options)"
  shows "pj_hosts l \<noteq> []"
proof -
  let ?certs = "cc_certs (collect ings)"
  obtain t where t: "t \<in> claim_target options ` set (all_claims ?certs)"
    "l \<in> set (project_group options (group_claims options ?certs) t)"
    using assms unfolding projected_of_def by (rule projected_member)
  have ne: "group_of options ?certs t \<noteq> []" using t(1) by (auto simp: group_of_def filter_empty_conv)
  show ?thesis
  proof (cases "\<exists>c. l = fallback_listener c")
    case True
    then show ?thesis by auto
  next
    case False
    then have wild: "has_prefix t ''*.''" using project_group_member [OF collect_facts(1) t] by blast
    have "set (snd (resolve_wildcard_group t (group_of options ?certs t) options)) =
        fallback_listener ` set (losers options t (group_of options ?certs t))"
      using arg_cong [OF fallbacks_mset, of set_mset] by simp
    then have "l = fst (resolve_wildcard_group t (group_of options ?certs t) options)"
      using False t(2) unfolding project_group_wildcard [OF wild] by auto
    moreover obtain c where "c \<in> set (winners options t (group_of options ?certs t))"
      using winners_nonempty [OF ne, of options t] by (meson last_in_set)
    ultimately have "cl_host c \<in> set (pj_hosts l)" by (simp add: resolve_wildcard_group_fst)
    then show ?thesis by auto
  qed
qed

lemma all_served_placed:
  assumes "all_served (build_managed_gateway ings options)"
  shows "unplaced_of ings options = []"
proof (rule ccontr)
  assume "unplaced_of ings options \<noteq> []"
  then obtain l where u: "l \<in> set (unplaced_of ings options)" by (meson last_in_set)
  then have l: "l \<in> set (projected_of ings options)" using mg.placed_facts(7) by blast
  then obtain g where g: "g \<in> set (pj_hosts l)" using projected_hosts_nonempty by (meson last_in_set)
  then have "g \<in> set (gp_tls_hosts (build_managed_gateway ings options))"
    using projected_of_declared [OF l] unfolding plan_fields by blast
  then obtain ref where "gm_get (gp_tls_sections (build_managed_gateway ings options)) g = Some ref"
    using assms by (auto simp: list_all_iff)
  then obtain h where h: "mg.serves ings options h g" unfolding plan_sections by blast
  then obtain k where k: "k \<in> set (projected_of ings options)" "pj_hostname k = h" "g \<in> set (pj_hosts k)"
    by (rule mg.serves_projected)
  then have "k = l" using distinct_concat_unique [OF projected_of_hosts_distinct] l g by blast
  then have "pj_hostname l \<in> set (map fst (placed_of ings options))"
    using h k(2) mg.hostnames_facts(2) by (auto simp: mg.serves_def)
  moreover have "pj_hostname l \<in> set (map pj_hostname (unplaced_of ings options))" using u by simp
  moreover have "distinct (map fst (placed_of ings options) @ map pj_hostname (unplaced_of ings options))"
    using mg.placed_facts(4) [of ings options] projected_of_distinct
    by (metis mset_append mset_eq_imp_distinct_iff)
  ultimately show False by auto
qed

lemma all_served_hostnames:
  assumes "all_served (build_managed_gateway ings options)"
  shows "set (mg.hostnames ings options) = pj_hostname ` set (projected_of ings options)"
  using all_served_placed [OF assms] mset_eq_setD [of "map fst (placed_of ings options)" "map pj_hostname (projected_of ings options)"]
    mg.placed_facts(4) [of ings options] unfolding mg.hostnames_facts(2) by simp

subsection \<open>Every group is settled\<close>

definition again :: "managed_options \<Rightarrow> gateway_plan \<Rightarrow> managed_options" where
  "again options plan = options\<lparr>mo_current := gp_placements plan\<rparr>"

lemma again_simps [simp]:
  "mo_certs (again options plan) = mo_certs options" "mo_overflow (again options plan) = mo_overflow options"
  "mo_current (again options plan) = gp_placements plan" "mo_namespace (again options plan) = mo_namespace options"
  "mo_name (again options plan) = mo_name options" "mo_class (again options plan) = mo_class options"
  "mo_proxy_name (again options plan) = mo_proxy_name options" "mo_allow_sets (again options plan) = mo_allow_sets options"
  "mo_http_section (again options plan) = mo_http_section options"
  "mo_https_section (again options plan) = mo_https_section options"
  by (simp_all add: again_def)

lemma placements_get:
  assumes "all_served (build_managed_gateway ings options)"
  shows "gm_get (gp_placements (build_managed_gateway ings options)) h =
    (if h \<in> pj_hostname ` set (projected_of ings options)
     then Some \<lparr>lp_set = placed_at (placed_of ings options) h, lp_secret = pj_secret (gm_or zero_listener (mg.by_host ings options) h)\<rparr>
     else None)"
  using mg.emit_placements(1) [where ings = ings and options = options and h = h]
  unfolding plan_fields all_served_hostnames [OF assms] .

lemma placements_projected:
  assumes "all_served (build_managed_gateway ings options)" and "l \<in> set (projected_of ings options)"
  shows "gm_get (gp_placements (build_managed_gateway ings options)) (pj_hostname l) =
    Some \<lparr>lp_set = placed_at (placed_of ings options) (pj_hostname l), lp_secret = pj_secret l\<rparr>"
  using placements_get [OF assms(1), of "pj_hostname l"] assms(2) mg.by_host_get [OF assms(2)] by (simp add: gm_or_def)

lemma projected_in_group:
  assumes "t \<in> claim_target options ` set (all_claims (cc_certs (collect ings)))"
    and "l \<in> set (project_group options (group_claims options (cc_certs (collect ings))) t)"
  shows "l \<in> set (projected_of ings options)"
  using assms project_listeners_groups(2) [of options "cc_certs (collect ings)"]
  unfolding projected_of_def project_listeners_groups(1) set_concat set_map by blast

lemma winner_host_unprojected:
  assumes "c \<in> set (winners options t (group_of options certs t))" and "gomap_ok certs"
    and "l \<in> set (project_listeners options certs)" and "pj_hostname l = cl_host c"
  shows "cl_host c = t"
proof -
  have c: "c \<in> set (all_claims certs)" "claim_target options c = t" "c \<in> set (group_of options certs t)"
    using assms(1) by (simp_all add: winners_def group_of_def)
  obtain s where s: "s \<in> claim_target options ` set (all_claims certs)"
    "l \<in> set (project_group options (group_claims options certs) s)" by (rule projected_member [OF assms(3)])
  from project_group_member [OF assms(2) s]
  consider "pj_hostname l = s" | d where "d \<in> set (losers options s (group_of options certs s))" "l = fallback_listener d" by blast
  then show ?thesis
  proof cases
    case 1
    then show ?thesis using target_own_claim [OF assms(2) s(1) c(1)] assms(4) c(2) by simp
  next
    case 2
    then have d: "d \<in> set (all_claims certs)" "claim_target options d = s" "cl_host d = cl_host c"
      using assms(4) by (simp_all add: losers_def group_of_def)
    then have "d = c" using all_claims_inject [OF assms(2)] c(1) by blast
    with 2(1) assms(1) c(2) d(2) show ?thesis by (simp add: losers_def winners_def)
  qed
qed

lemma group_settled:
  assumes "all_served (build_managed_gateway ings options)" and "has_prefix t ''*.''"
    and "t \<in> claim_target options ` set (all_claims (cc_certs (collect ings)))"
  shows "settled options t (group_of options (cc_certs (collect ings)) t) (again options (build_managed_gateway ings options))"
proof -
  let ?certs = "cc_certs (collect ings)" and ?P = "gp_placements (build_managed_gateway ings options)"
  let ?g = "group_of options ?certs t"
  let ?r = "resolve_wildcard_group t ?g options"
  have w: "fst ?r \<in> set (projected_of ings options)"
    using project_group_wildcard [OF assms(2), of options ?certs] by (intro projected_in_group [OF assms(3)]) simp
  have f: "fallback_listener c \<in> set (projected_of ings options)" if "c \<in> set (losers options t ?g)" for c
  proof (rule projected_in_group [OF assms(3)])
    have "fallback_listener c \<in> set (snd ?r)"
      using that arg_cong [OF fallbacks_mset [of t ?g options], of set_mset] by simp
    then show "fallback_listener c \<in> set (project_group options (group_claims options ?certs) t)"
      unfolding project_group_wildcard [OF assms(2)] by simp
  qed
  have "map_option lp_secret (gm_get ?P t) = Some (canonical_secret options t (winners options t ?g))"
    using placements_projected [OF assms(1) w] by (simp add: resolve_wildcard_group_fst)
  moreover have "gm_has ?P (cl_host c)" if "c \<in> set (losers options t ?g)" for c
    using placements_projected [OF assms(1) f [OF that]] by simp
  moreover have "cl_host c = t \<or> \<not> gm_has ?P (cl_host c)" if "c \<in> set (winners options t ?g)" for c
    using winner_host_unprojected [OF that collect_facts(1)] placements_get [OF assms(1), of "cl_host c"]
    unfolding projected_of_def by (auto split: if_splits)
  ultimately show ?thesis unfolding settled_def again_simps by blast
qed

subsection \<open>The same plan again\<close>

lemma claim_target_again [simp]: "claim_target (again options plan) = claim_target options"
  by (simp add: claim_target_def fun_eq_iff)

lemma group_claims_again [simp]: "group_claims (again options plan) = group_claims options"
  by (simp add: group_claims_def fun_eq_iff)

lemma projected_again:
  assumes "all_served (build_managed_gateway ings options)"
  shows "projected_of ings (again options (build_managed_gateway ings options)) = projected_of ings options"
proof -
  let ?certs = "cc_certs (collect ings)" and ?o = "again options (build_managed_gateway ings options)"
  have "project_group ?o (group_claims options ?certs) t = project_group options (group_claims options ?certs) t"
    if t: "t \<in> set (sort_strings (gm_keys (group_claims options ?certs)))" for t
  proof (cases "has_prefix t ''*.''")
    case True
    let ?g = "group_of options ?certs t"
    have t': "t \<in> claim_target options ` set (all_claims ?certs)" using t unfolding project_listeners_groups(2) .
    then have "?g \<noteq> []" by (auto simp: group_of_def filter_empty_conv)
    then have "resolve_wildcard_group t ?g ?o = resolve_wildcard_group t ?g options"
      using group_settled [OF assms True t'] group_of_facts(1) [OF collect_facts(1)] group_of_pinned True
      by (intro resolve_wildcard_group_settled) auto
    then show ?thesis using True by (simp add: project_group_def Let_def group_claims_or)
  next
    case False
    then show ?thesis by (simp add: project_group_def)
  qed
  then show ?thesis
    unfolding projected_of_def project_listeners_groups(1) group_claims_again
    by (intro arg_cong [where f = concat] map_cong refl)
qed

lemma placed_again:
  assumes "all_served (build_managed_gateway ings options)"
  defines "o' \<equiv> again options (build_managed_gateway ings options)"
  shows "gm_get (placed_of ings o') = gm_get (placed_of ings options)"
    "set (gm_keys (placed_of ings o')) = set (gm_keys (placed_of ings options))" "unplaced_of ings o' = []"
proof -
  let ?ls = "projected_of ings options"
  have pr: "projected_of ings o' = ?ls" unfolding o'_def by (rule projected_again [OF assms(1)])
  have keys: "set (gm_keys (placed_of ings options)) = pj_hostname ` set ?ls"
    using all_served_hostnames [OF assms(1)] unfolding mg.hostnames_facts(2) .
  have prev: "previous_index (mo_current o') l = gm_get (placed_of ings options) (pj_hostname l)" if "l \<in> set ?ls" for l
  proof -
    have "pj_hostname l \<in> set (mg.hostnames ings options)" using that all_served_hostnames [OF assms(1)] by simp
    then show ?thesis
      using placements_projected [OF assms(1) that] mg.hostnames_placed
      by (simp add: previous_index_def o'_def)
  qed
  have run: "place_listeners ?ls o' = (placed_of ings o', unplaced_of ings o')" using pr by simp
  have usable: "listener_usable (mo_overflow o') i" if "(h, i) \<in> set (placed_of ings options)" for h i
    using mg.placed_facts(3) [OF that] by (simp add: o'_def)
  note same = place_listeners_fixpoint [OF projected_of_distinct run prev mg.placed_facts(1) keys mg.placed_facts(2) usable]
  show "gm_get (placed_of ings o') = gm_get (placed_of ings options)"
    "set (gm_keys (placed_of ings o')) = set (gm_keys (placed_of ings options))" "unplaced_of ings o' = []"
    by (rule same; assumption)+
qed

lemma emit_again:
  assumes "gm_get placed' = gm_get placed" and "set (gm_keys placed') = set (gm_keys placed)"
    and "gomap_ok placed" and "gomap_ok placed'"
  shows "emit (again options plan) projected placed' = emit options projected placed"
proof -
  have "gm_or 0 placed' = gm_or 0 placed" by (rule ext) (simp add: gm_or_def assms(1))
  moreover have "listener_ref_of h i (again options plan) = listener_ref_of h i options" for h i
    by (simp add: listener_ref_of_def Let_def)
  ultimately have "emit_listener (again options plan) byH placed' h em = emit_listener options byH placed h em" for byH h em
    by (simp add: emit_listener_def Let_def)
  then have "emit_listener (again options plan) byH placed' = emit_listener options byH placed" for byH
    by (intro ext)
  moreover have "sort_strings (gm_keys placed') = sort_strings (gm_keys placed)"
    using assms(2) assms(4,3) [unfolded gomap_ok_def] by (rule sort_strings_eqI)
  ultimately show ?thesis by (simp add: emit_def http_listener_def)
qed

lemma objects_again:
  "managed_labels (again options plan) = managed_labels options"
  "managed_listener_set (again options plan) = managed_listener_set options"
  "certificate_reference_grant (again options plan) = certificate_reference_grant options"
  "grant_secrets (again options plan) = grant_secrets options"
proof -
  show labels: "managed_labels (again options plan) = managed_labels options" by (simp add: managed_labels_def)
  show "managed_listener_set (again options plan) = managed_listener_set options"
    by (intro ext) (simp add: managed_listener_set_def labels)
  show "certificate_reference_grant (again options plan) = certificate_reference_grant options"
    by (intro ext) (simp add: certificate_reference_grant_def labels)
  show "grant_secrets (again options plan) = grant_secrets options" by (intro ext) (simp add: grant_secrets_def)
qed

lemma emit_sets_again: "emit_sets (again options plan) = emit_sets options"
  unfolding emit_sets_def objects_again ..

lemma replanned:
  assumes "all_served (build_managed_gateway ings options)"
  shows "build_managed_gateway ings (again options (build_managed_gateway ings options)) = build_managed_gateway ings options"
proof -
  let ?o = "again options (build_managed_gateway ings options)"
  note p = placed_again [OF assms]
  have em: "emitted_of ings ?o = emitted_of ings options"
    using emit_again [OF p(1,2) mg.placed_facts(1) mg.placed_facts(1)] by (simp add: projected_again [OF assms])
  show ?thesis
  proof (rule gateway_plan.equality)
  qed (simp_all add: plan_fields em emit_sets_again objects_again p(3) all_served_placed [OF assms])
qed

text \<open>
  Planning is stable: when a plan serves every declared hostname, planning the same Ingresses
  again from its placements gives the same plan, object by object.
\<close>

theorem replanning_fixpoint:
  assumes "all_served (build_managed_gateway ings options)"
  shows "build_managed_gateway ings (again options (build_managed_gateway ings options)) = build_managed_gateway ings options"
  using assms by (rule replanned)

theorem replanning_fixpoint_witness:
  "build_managed_gateway [sample_ingress ''app'' ''a.example'' ''tls''] (again sample_options sample_plan) = sample_plan"
  using sample_section by (intro replanning_fixpoint) (simp add: sample_hosts)

subsection \<open>Comparing plans\<close>

lemma serves_shape:
  assumes "mg.serves ings options g h"
  shows "g = h \<or> one_label_up h = Some g \<and> \<not> has_prefix h ''*.'' \<and> h \<notin> pj_hostname ` set (projected_of ings options)"
proof -
  let ?certs = "cc_certs (collect ings)"
  from assms obtain l where l: "l \<in> set (projected_of ings options)" "pj_hostname l = g" "h \<in> set (pj_hosts l)"
    by (rule mg.serves_projected)
  obtain t where t: "t \<in> claim_target options ` set (all_claims ?certs)"
    "l \<in> set (project_group options (group_claims options ?certs) t)"
    using l(1) unfolding projected_of_def by (rule projected_member)
  show ?thesis
  proof (cases "\<exists>c. l = fallback_listener c")
    case True
    then show ?thesis using l(2,3) by auto
  next
    case False
    then have wild: "has_prefix t ''*.''" using project_group_member [OF collect_facts(1) t] by blast
    have "set (snd (resolve_wildcard_group t (group_of options ?certs t) options)) =
        fallback_listener ` set (losers options t (group_of options ?certs t))"
      using arg_cong [OF fallbacks_mset, of set_mset] by simp
    then have "l = fst (resolve_wildcard_group t (group_of options ?certs t) options)"
      using False t(2) unfolding project_group_wildcard [OF wild] by auto
    then have g: "g = t" and "h \<in> cl_host ` set (winners options t (group_of options ?certs t))"
      using l(2,3) by (simp_all add: resolve_wildcard_group_fst)
    then obtain c where c: "c \<in> set (winners options t (group_of options ?certs t))" "cl_host c = h" by blast
    then have target: "claim_target options c = t" by (simp add: winners_def group_of_def)
    show ?thesis
    proof (cases "g = h")
      case False
      then have "h \<notin> pj_hostname ` set (projected_of ings options)"
        using winner_host_unprojected [OF c(1) collect_facts(1)] c(2) g unfolding projected_of_def by (metis imageE)
      with target False c(2) g show ?thesis by (elim claim_target_cases) auto
    qed simp
  qed
qed

lemma listener_ref_for_sections:
  assumes "gm_has (gp_tls_sections (build_managed_gateway ings options)) h"
    and "mo_name options' = mo_name options" and "mo_https_section options' = mo_https_section options"
  shows "listener_ref_for h (gp_placements (build_managed_gateway ings options)) options' =
    gm_get (gp_tls_sections (build_managed_gateway ings options)) h"
proof -
  obtain ref where "gm_get (gp_tls_sections (build_managed_gateway ings options)) h = Some ref" using assms(1) by auto
  then obtain g where g: "mg.serves ings options g h"
    and ref: "gm_get (gp_tls_sections (build_managed_gateway ings options)) h =
      Some (listener_ref_of g (placed_at (placed_of ings options) g) options)"
    unfolding plan_sections by auto
  have same: "listener_ref_of k i options' = listener_ref_of k i options" for k i
    using assms(2,3) by (simp add: listener_ref_of_def Let_def)
  have P: "gm_get (gp_placements (build_managed_gateway ings options)) g =
      Some \<lparr>lp_set = placed_at (placed_of ings options) g, lp_secret = pj_secret (gm_or zero_listener (mg.by_host ings options) g)\<rparr>"
    using g mg.emit_placements(1) unfolding plan_fields by (simp add: mg.serves_def)
  from serves_shape [OF g] show ?thesis
  proof
    assume "g = h"
    with P ref show ?thesis by (simp add: listener_ref_for_def same)
  next
    assume *: "one_label_up h = Some g \<and> \<not> has_prefix h ''*.'' \<and> h \<notin> pj_hostname ` set (projected_of ings options)"
    have "set (mg.hostnames ings options) \<subseteq> pj_hostname ` set (projected_of ings options)"
      unfolding mg.hostnames_facts(2) using mg.placed_projected [of _ ings options] by (metis image_eqI subsetI)
    then have "gm_get (gp_placements (build_managed_gateway ings options)) h = None"
      using * mg.emit_placements(1) unfolding plan_fields by auto
    with * P ref show ?thesis by (simp add: listener_ref_for_def same)
  qed
qed

text \<open>
  C33. \<^verbatim>\<open>ChangedTLSHosts\<close> rebuilds the serving listener of a hostname from the placements of the
  previous plan: of the hostnames that plan served, it reports those the new plan serves by another
  listener and no other.
\<close>

theorem changed_tls_hosts_iff:
  assumes "gm_has (gp_tls_sections (build_managed_gateway ings options)) h"
    and "mo_name options' = mo_name options" and "mo_https_section options' = mo_https_section options"
  shows "h \<in> set (changed_tls_hosts (gp_placements (build_managed_gateway ings options)) (build_managed_gateway ings' options') options') \<longleftrightarrow>
    gm_has (gp_tls_sections (build_managed_gateway ings' options')) h \<and>
    gm_get (gp_tls_sections (build_managed_gateway ings' options')) h \<noteq> gm_get (gp_tls_sections (build_managed_gateway ings options)) h"
proof -
  have ok: "gomap_ok (gp_tls_sections (build_managed_gateway ings' options'))"
    unfolding plan_fields by (rule mg.emit_sections_ok)
  show ?thesis
    using listener_ref_for_sections [OF assms]
    by (force simp: changed_tls_hosts_def gomap_ok_in [OF ok])
qed

theorem changed_tls_hosts_iff_witness:
  "''a.example'' \<notin> set (changed_tls_hosts (gp_placements sample_plan) sample_plan sample_options)"
  using changed_tls_hosts_iff [of "[sample_ingress ''app'' ''a.example'' ''tls'']" sample_options "''a.example''" sample_options
      "[sample_ingress ''app'' ''a.example'' ''tls'']"] sample_section by auto

subsection \<open>Newly declared hostnames in the choice of a class\<close>

text \<open>
  \<^verbatim>\<open>resolveWildcardGroup\<close> takes a hostname without a listener of its own for one the wildcard
  listener served before, also when no Ingress declared it then. Two hostnames that are new with
  another certificate outvote the one hostname the wildcard serves: it has to move, although
  serving it as before would have moved nothing.
\<close>

definition wildcard_secret :: "string \<Rightarrow> certificate_info" where
  "wildcard_secret fingerprint = \<lparr>ci_wildcard_sans = [''*.example.com''], ci_fingerprint = fingerprint\<rparr>"

definition newcomer_options :: managed_options where
  "newcomer_options = sample_options\<lparr>
     mo_certs := Some [(nsname ''app'' ''old'', wildcard_secret ''aa''), (nsname ''app'' ''new'', wildcard_secret ''bb'')],
     mo_current := [(''*.example.com'', \<lparr>lp_set = 0, lp_secret = nsname ''app'' ''old''\<rparr>)]\<rparr>"

definition newcomer_claims :: "listener_claim list" where
  "newcomer_claims =
     [\<lparr>cl_host = ''a.example.com'', cl_secret = nsname ''app'' ''old'', cl_pinned = False\<rparr>,
      \<lparr>cl_host = ''b.example.com'', cl_secret = nsname ''app'' ''new'', cl_pinned = False\<rparr>,
      \<lparr>cl_host = ''c.example.com'', cl_secret = nsname ''app'' ''new'', cl_pinned = False\<rparr>]"

lemma newcomers_displace_served_host:
  "pj_hosts (fst (resolve_wildcard_group ''*.example.com'' newcomer_claims newcomer_options)) = [''b.example.com'', ''c.example.com'']"
  "map pj_hostname (snd (resolve_wildcard_group ''*.example.com'' newcomer_claims newcomer_options)) = [''a.example.com'']"
  by code_simp+

end
