(* ===== verification/Config.thy ===== *)
theory Config
  imports Replanning
begin

text \<open>
  \<^verbatim>\<open>internal/controller/config.go\<close>: which Ingresses the bridge selects, and the options
  \<^verbatim>\<open>reconcileManagedGateway\<close> derives from the configuration.
\<close>

record config =
  cf_namespace :: string
  cf_name :: string
  cf_class :: string
  cf_proxy_name :: string
  cf_manage :: bool
  cf_allow_sets :: bool
  cf_http_section :: string
  cf_https_section :: string
  cf_collapse :: bool
  cf_sets_available :: bool
  cf_without_class :: bool
  cf_classes :: "string list"
  cf_allow_snippets :: bool
  cf_strict :: bool
  cf_update_status :: bool

definition annotation_bool :: "string \<Rightarrow> bool" where
  "annotation_bool value = (to_lower (trim_space value) \<in> set [''1'', ''on'', ''true'', ''yes''])"

definition classAnnotation :: string where
  "classAnnotation = ''kubernetes.io/ingress.class''"

definition ingress_class :: "ingress \<Rightarrow> string" where
  "ingress_class ing =
     trim_space (case ing_class ing of Some c \<Rightarrow> c | None \<Rightarrow> annotation ing classAnnotation)"

definition selected :: "config \<Rightarrow> ingress \<Rightarrow> bool" where
  "selected c ing =
     (if (case gm_get (ing_annotations ing) IgnoreAnnotation of None \<Rightarrow> False | Some value \<Rightarrow> annotation_bool value) then False
      else (case gm_get (ing_annotations ing) EnabledAnnotation of
              Some value \<Rightarrow> annotation_bool value
            | None \<Rightarrow>
                if ingress_class ing = [] then cf_without_class c else ingress_class ing \<in> set (cf_classes c)))"

definition managed_options_of :: "config \<Rightarrow> (nsname, certificate_info) gomap option \<Rightarrow>
    (string, listener_placement) gomap \<Rightarrow> managed_options" where
  "managed_options_of c certificates placements =
     \<lparr>mo_namespace = cf_namespace c, mo_name = cf_name c, mo_class = cf_class c, mo_proxy_name = cf_proxy_name c,
      mo_allow_sets = cf_allow_sets c, mo_http_section = cf_http_section c, mo_https_section = cf_https_section c,
      mo_overflow = cf_sets_available c, mo_certs = certificates, mo_current = placements\<rparr>"

lemma managed_options_of_simps [simp]:
  "mo_namespace (managed_options_of c certs ps) = cf_namespace c" "mo_name (managed_options_of c certs ps) = cf_name c"
  "mo_overflow (managed_options_of c certs ps) = cf_sets_available c" "mo_current (managed_options_of c certs ps) = ps"
  "mo_certs (managed_options_of c certs ps) = certs" "mo_https_section (managed_options_of c certs ps) = cf_https_section c"
  by (simp_all add: managed_options_of_def)

lemma managed_options_again:
  "again (managed_options_of c certs ps) plan = managed_options_of c certs (gp_placements plan)"
  by (simp add: again_def managed_options_of_def)

text \<open>
  The two annotations decide before any class does: an Ingress that asks to be ignored is never
  selected, one that is enabled or disabled explicitly is selected accordingly, and only without
  either annotation does the class of the Ingress decide, the field before the legacy annotation.
\<close>

theorem selected_precedence:
  assumes "gm_get (ing_annotations ing) IgnoreAnnotation = ignore" and "gm_get (ing_annotations ing) EnabledAnnotation = enabled"
  shows "selected c ing \<longleftrightarrow>
    \<not> (\<exists>v. ignore = Some v \<and> annotation_bool v) \<and>
    (case enabled of
       Some v \<Rightarrow> annotation_bool v
     | None \<Rightarrow> (ingress_class ing = [] \<and> cf_without_class c) \<or> (ingress_class ing \<noteq> [] \<and> ingress_class ing \<in> set (cf_classes c)))"
  using assms by (auto simp: selected_def split: option.splits)

theorem selected_precedence_witness:
  "\<not> selected \<lparr>cf_namespace = [], cf_name = [], cf_class = [], cf_proxy_name = [], cf_manage = True, cf_allow_sets = False,
     cf_http_section = [], cf_https_section = [], cf_collapse = True, cf_sets_available = True, cf_without_class = True,
     cf_classes = [''nginx''], cf_allow_snippets = False, cf_strict = True, cf_update_status = False\<rparr>
     ((sample_ingress ''app'' ''a.example'' ''tls'')\<lparr>ing_annotations := [(IgnoreAnnotation, ''true'')]\<rparr>)"
proof -
  have "annotation_bool ''true''" by code_simp
  then show ?thesis by (subst selected_precedence [OF refl refl]) simp
qed

end
