(* ===== verification/Observed.thy ===== *)
theory Observed
  imports Config
begin

text \<open>
  \<^verbatim>\<open>observedListenerPlacements\<close> and \<^verbatim>\<open>recordObservedListeners\<close> of
  \<^verbatim>\<open>internal/controller/managed_gateway.go\<close>: a restarted controller reads the placements of the
  previous plan back from the objects in the cluster. The answers of the API server are arguments:
  an error, or the object or the objects of the query.
\<close>

type_synonym placements = "(string, listener_placement) gomap"

subsection \<open>Reading listeners\<close>

definition observed_placement :: "string \<Rightarrow> nat \<Rightarrow> listener \<Rightarrow> (string \<times> listener_placement) option" where
  "observed_placement parentNamespace index l =
     (if li_protocol l \<noteq> HTTPS \<or> li_port l \<noteq> 443 then None
      else (case (li_hostname l, li_certs l) of
              (Some hostname, Some (ref # _)) \<Rightarrow>
                let secretNamespace = (case sr_namespace ref of
                      Some ns \<Rightarrow> if ns \<noteq> [] then ns else parentNamespace | None \<Rightarrow> parentNamespace)
                in Some (hostname, \<lparr>lp_set = index, lp_secret = nsname secretNamespace (sr_name ref)\<rparr>)
            | _ \<Rightarrow> None))"

definition record_placement :: "string \<times> listener_placement \<Rightarrow> placements \<Rightarrow> placements" where
  "record_placement = (\<lambda>(hostname, placement) m.
     case gm_get m hostname of
       None \<Rightarrow> gm_put hostname placement m
     | Some existing \<Rightarrow> if lp_set placement < lp_set existing then gm_put hostname placement m else m)"

definition record_observed_listeners :: "string \<Rightarrow> nat \<Rightarrow> listener list \<Rightarrow> placements \<Rightarrow> placements" where
  "record_observed_listeners parentNamespace index listeners m =
     fold (\<lambda>l m. case observed_placement parentNamespace index l of None \<Rightarrow> m | Some e \<Rightarrow> record_placement e m) listeners m"

subsection \<open>Reading the cluster\<close>

definition managed_by_gateway :: "config \<Rightarrow> object_meta \<Rightarrow> bool" where
  "managed_by_gateway c meta \<longleftrightarrow>
     gm_get (om_labels meta) ManagedByLabel = Some ControllerName \<and>
     gm_get (om_labels meta) GatewayLabel = Some (gateway_label_value (cf_namespace c) (cf_name c))"

text \<open>The index label and the name that goes with it, or \<^theory_text>\<open>None\<close> when the set is skipped.\<close>

definition observed_set_index :: "config \<Rightarrow> listener_set \<Rightarrow> nat option" where
  "observed_set_index c s =
     (case atoi (gm_or [] (om_labels (ls_meta s)) ListenerSetIndexLabel) of
        None \<Rightarrow> None
      | Some i \<Rightarrow> if i < 1 then None
                   else if om_name (ls_meta s) \<noteq> managed_listener_set_name (cf_name c) (nat i) then None
                   else Some (nat i))"

definition record_set :: "config \<Rightarrow> listener_set \<Rightarrow> placements \<Rightarrow> placements" where
  "record_set c s m =
     (case observed_set_index c s of
        None \<Rightarrow> m
      | Some i \<Rightarrow> record_observed_listeners (om_namespace (ls_meta s)) i (ls_listeners s) m)"

definition observed_listener_placements :: "config \<Rightarrow> 'e + gateway option \<Rightarrow> 'e + listener_set list \<Rightarrow> 'e + placements" where
  "observed_listener_placements c get_gateway list_sets =
     (case get_gateway of
        Inl err \<Rightarrow> Inl err
      | Inr None \<Rightarrow> Inr []
      | Inr (Some gateway) \<Rightarrow>
          let m = (if gm_get (om_labels (gw_meta gateway)) ManagedByLabel = Some ControllerName
                   then record_observed_listeners (om_namespace (gw_meta gateway)) 0 (gw_listeners gateway) []
                   else [])
          in if \<not> cf_sets_available c then Inr m
             else (case list_sets of
                     Inl err \<Rightarrow> Inl err
                   | Inr sets \<Rightarrow>
                       Inr (fold (record_set c)
                         (filter (\<lambda>s. om_namespace (ls_meta s) = cf_namespace c \<and> managed_by_gateway c (ls_meta s)) sets) m)))"

subsection \<open>One table of entries\<close>

definition observed_entries :: "string \<Rightarrow> nat \<Rightarrow> listener list \<Rightarrow> (string \<times> listener_placement) list" where
  "observed_entries parentNamespace index listeners = List.map_filter (observed_placement parentNamespace index) listeners"

lemma record_observed_entries:
  "record_observed_listeners ns i ls m = fold record_placement (observed_entries ns i ls) m"
  unfolding record_observed_listeners_def observed_entries_def
  by (induction ls arbitrary: m) (auto simp: map_filter_simps split: option.split)

lemma record_placement_get:
  "gm_get (record_placement e m) h =
     (if h = fst e \<and> (\<forall>p. gm_get m h = Some p \<longrightarrow> lp_set (snd e) < lp_set p) then Some (snd e) else gm_get m h)"
  by (auto simp: record_placement_def gomap_simps split: prod.split option.split)

lemma fold_record_distinct:
  assumes "distinct (map fst es)" and "set (map fst es) \<inter> set (gm_keys m) = {}"
  shows "gm_get (fold record_placement es m) h = (case gm_get es h of Some p \<Rightarrow> Some p | None \<Rightarrow> gm_get m h)"
  using assms
proof (induction es arbitrary: m)
  case (Cons e es)
  have new: "gm_get m (fst e) = None" using Cons.prems(2) by (auto simp: map_of_eq_None_iff)
  have "record_placement e m = gm_put (fst e) (snd e) m"
    using new by (cases e) (simp add: record_placement_def)
  moreover have "gm_get (fold record_placement es (gm_put (fst e) (snd e) m)) h =
      (case gm_get es h of Some p \<Rightarrow> Some p | None \<Rightarrow> gm_get (gm_put (fst e) (snd e) m) h)"
    using Cons.prems by (intro Cons.IH) (auto simp: gm_keys_put)
  moreover have "gm_get es (fst e) = None" using Cons.prems(1) by (auto simp: map_of_eq_None_iff)
  ultimately show ?case by (cases e) (auto simp: gomap_simps split: option.split)
qed (auto split: option.split)

lemma record_placement_has: "gm_has (record_placement e m) h \<longleftrightarrow> h = fst e \<or> gm_has m h"
  by (auto simp: record_placement_get)

lemma record_has: "gm_has (fold record_placement es m) h \<longleftrightarrow> h \<in> fst ` set es \<or> gm_has m h"
  by (induction es arbitrary: m) (auto simp: record_placement_has simp del: not_None_eq)

text \<open>
  A hostname observed under several indexes keeps the lowest, whatever the order in which the
  listeners are read.
\<close>

theorem observed_keeps_lowest:
  assumes "gm_get (fold record_placement es []) h = Some p"
  shows "(h, p) \<in> set es \<and> list_all (\<lambda>e. fst e \<noteq> h \<or> lp_set p \<le> lp_set (snd e)) es"
  using assms
proof (induction es arbitrary: p rule: rev_induct)
  case (snoc e es)
  show ?case
  proof (cases "gm_get (fold record_placement es []) h")
    case None
    have "h \<notin> fst ` set es"
      using record_has [of es "[]" h] None by simp
    then show ?thesis using None snoc.prems by (cases e) (auto simp: record_placement_get list_all_iff split: if_splits)
  next
    case (Some q)
    from snoc.IH [OF this] show ?thesis using Some snoc.prems
      by (cases e) (force simp: record_placement_get list_all_iff split: if_splits)
  qed
qed simp

theorem observed_keeps_lowest_witness:
  "lp_set (the (gm_get (fold record_placement
      [(''a.example'', \<lparr>lp_set = 3, lp_secret = nsname ''app'' ''tls''\<rparr>), (''a.example'', \<lparr>lp_set = 1, lp_secret = nsname ''app'' ''tls''\<rparr>)] []) ''a.example'')) \<le> 3"
proof -
  let ?es = "[(''a.example'', \<lparr>lp_set = 3, lp_secret = nsname ''app'' ''tls''\<rparr>), (''a.example'', \<lparr>lp_set = 1, lp_secret = nsname ''app'' ''tls''\<rparr>)]"
  have "gm_get (fold record_placement ?es []) ''a.example'' = Some \<lparr>lp_set = 1, lp_secret = nsname ''app'' ''tls''\<rparr>"
    by (simp add: record_placement_def)
  from observed_keeps_lowest [OF this] this show ?thesis by simp
qed

subsection \<open>What was planned is what is observed\<close>

lemma observed_entries_planned:
  assumes "\<And>h. h \<in> set hs \<Longrightarrow> nn_namespace (pj_secret (gm_or zero_listener byH h)) \<noteq> []"
  shows "observed_entries ns i (map (listener_for options byH) hs) =
    map (\<lambda>h. (h, \<lparr>lp_set = i, lp_secret = pj_secret (gm_or zero_listener byH h)\<rparr>)) hs"
  using assms
  by (induction hs) (auto simp: observed_entries_def map_filter_simps observed_placement_def listener_for_def
      https_listener_obj_def)

lemma observed_http_listener: "observed_placement ns i (http_listener options) = None"
  by (simp add: observed_placement_def http_listener_def)

lemma managed_set_observed:
  assumes "0 < i" and "i < 2 ^ 63"
  shows "observed_set_index c (managed_listener_set (managed_options_of c certs ps) i entries) = Some i"
    "managed_by_gateway c (ls_meta (managed_listener_set (managed_options_of c certs ps) i entries))"
    "om_namespace (ls_meta (managed_listener_set (managed_options_of c certs ps) i entries)) = cf_namespace c"
proof -
  have labels: "om_labels (ls_meta (managed_listener_set (managed_options_of c certs ps) i entries)) =
      [(ManagedByLabel, ControllerName), (GatewayLabel, gateway_label_value (cf_namespace c) (cf_name c)),
       (ListenerSetIndexLabel, itoa (int i))]"
    by (simp add: managed_listener_set_def managed_labels_def)
  have keys: "ListenerSetIndexLabel \<noteq> ManagedByLabel" "ListenerSetIndexLabel \<noteq> GatewayLabel" "GatewayLabel \<noteq> ManagedByLabel"
    by (simp_all add: ListenerSetIndexLabel_def ManagedByLabel_def GatewayLabel_def)
  have "atoi (itoa (int i)) = Some (int i)" using assms by (intro atoi_itoa) auto
  then show "observed_set_index c (managed_listener_set (managed_options_of c certs ps) i entries) = Some i"
    using assms keys unfolding observed_set_index_def labels by (simp add: gm_or_def)
  show "managed_by_gateway c (ls_meta (managed_listener_set (managed_options_of c certs ps) i entries))"
    using keys unfolding managed_by_gateway_def labels by simp
  show "om_namespace (ls_meta (managed_listener_set (managed_options_of c certs ps) i entries)) = cf_namespace c"
    by (simp add: managed_listener_set_def)
qed

lemma declared_secret_namespaced:
  assumes "list_all (\<lambda>ing. ing_namespace ing \<noteq> []) ings" and "h \<in> set (gm_keys (cc_certs (collect ings)))"
  shows "nn_namespace (cl_secret (claim_of (cc_certs (collect ings)) h)) \<noteq> []"
proof -
  have "gm_has (cc_certs (collect ings)) h" using assms(2) unfolding gm_has_keys .
  then obtain s where s: "gm_get (cc_certs (collect ings)) h = Some s" by auto
  have "collects (declarations ings) (collect ings)" using collect_declarations by (simp add: collected_so_far_def)
  then have "(h, s) \<in> set (declarations ings)" using s by (simp add: collects_def)
  then obtain ing where "ing \<in> set ings" "so_namespace s = ing_namespace ing"
    unfolding declarations_in by (auto simp: candidate_of_def)
  then show ?thesis using s assms(1) by (auto simp: claim_of_def source_of_def gm_or_def list_all_iff Let_def)
qed

lemma placed_secret_namespaced:
  assumes "list_all (\<lambda>ing. ing_namespace ing \<noteq> []) ings" and "h \<in> set (mg.hostnames ings options)"
  shows "nn_namespace (pj_secret (gm_or zero_listener (mg.by_host ings options) h)) \<noteq> []"
proof -
  obtain l where l: "l \<in> set (projected_of ings options)" "gm_get (mg.by_host ings options) h = Some l"
    using mg.placed_projected assms(2) unfolding mg.hostnames_facts(2) by blast
  obtain g where "g \<in> set (pj_hosts l)" using projected_hosts_nonempty [OF l(1)] by (meson last_in_set)
  from projected_serves(3) [OF collect_facts(1) l(1) [unfolded projected_of_def] this] obtain k where "k \<in> set (gm_keys (cc_certs (collect ings)))" "pj_secret l = cl_secret (claim_of (cc_certs (collect ings)) k)"
    by blast
  then show ?thesis using declared_secret_namespaced [OF assms(1)] l(2) by (simp add: gm_or_def del: set_map)
qed

text \<open>The entries of a plan: those of the Gateway first, then those of its ListenerSets.\<close>

definition entries_at :: "managed_options \<Rightarrow> ingress list \<Rightarrow> nat \<Rightarrow> (string \<times> listener_placement) list" where
  "entries_at options ings i =
     map (\<lambda>h. (h, \<lparr>lp_set = i, lp_secret = pj_secret (gm_or zero_listener (mg.by_host ings options) h)\<rparr>))
       (filter (\<lambda>h. placed_at (placed_of ings options) h = i) (mg.hostnames ings options))"

definition all_entries :: "managed_options \<Rightarrow> ingress list \<Rightarrow> (string \<times> listener_placement) list" where
  "all_entries options ings = concat (map (entries_at options ings) (0 # mg.used_sets options ings))"

lemma entries_observed:
  assumes "list_all (\<lambda>ing. ing_namespace ing \<noteq> []) ings"
  shows "observed_entries ns i (map (mg.listener_at options ings)
      (filter (\<lambda>h. placed_at (placed_of ings options) h = i) (mg.hostnames ings options))) = entries_at options ings i"
  unfolding entries_at_def using placed_secret_namespaced [OF assms] by (intro observed_entries_planned) auto

lemma all_entries_distinct: "distinct (map fst (all_entries options ings))"
  and all_entries_get: "gm_get (all_entries options ings) = gm_get (gp_placements (build_managed_gateway ings options))"
proof -
  let ?hs = "mg.hostnames ings options" and ?at = "placed_at (placed_of ings options)"
  have keys: "map fst (all_entries options ings) = concat (map (\<lambda>i. filter (\<lambda>h. ?at h = i) ?hs) (0 # mg.used_sets options ings))"
    unfolding all_entries_def entries_at_def by (simp add: map_concat comp_def)
  show dist: "distinct (map fst (all_entries options ings))"
    unfolding keys using mset_eq_imp_distinct_iff [OF all_hostnames] mg.hostnames_facts(1) by blast
  show "gm_get (all_entries options ings) = gm_get (gp_placements (build_managed_gateway ings options))"
  proof
    fix h
    have served: "h \<in> set (map fst (all_entries options ings)) \<longleftrightarrow> h \<in> set ?hs"
      unfolding keys using mset_eq_setD [OF all_hostnames] by blast
    show "gm_get (all_entries options ings) h = gm_get (gp_placements (build_managed_gateway ings options)) h"
    proof (cases "h \<in> set ?hs")
      case True
      then obtain p where p: "(h, p) \<in> set (all_entries options ings)" using served by auto
      then have "p = \<lparr>lp_set = ?at h, lp_secret = pj_secret (gm_or zero_listener (mg.by_host ings options) h)\<rparr>"
        unfolding all_entries_def entries_at_def by auto
      then show ?thesis using p dist True mg.emit_placements(1) unfolding plan_fields by simp
    next
      case False
      then have "gm_get (all_entries options ings) h = None" using served by (simp add: map_of_eq_None_iff)
      then show ?thesis using False mg.emit_placements(1) unfolding plan_fields by simp
    qed
  qed
qed

lemma used_set_small:
  assumes "list_all (\<lambda>p. lp_set (snd p) < n) (gp_placements (build_managed_gateway ings options))"
    and "i \<in> set (mg.used_sets options ings)"
  shows "i < n"
proof -
  from assms(2) obtain h where "h \<in> set (mg.hostnames ings options)" "i = placed_at (placed_of ings options) h"
    unfolding mg.used_sets_iff by blast
  then have "gm_get (gp_placements (build_managed_gateway ings options)) h =
      Some \<lparr>lp_set = i, lp_secret = pj_secret (gm_or zero_listener (mg.by_host ings options) h)\<rparr>"
    using mg.emit_placements(1) unfolding plan_fields by simp
  then show ?thesis using assms(1) map_of_SomeD by (fastforce simp: list_all_iff)
qed

text \<open>
  C34. A restarted controller recovers the previous plan's placements: reading back the Gateway and
  the ListenerSets of a plan gives the placements of the plan, hostname by hostname.
\<close>

theorem observed_placements_roundtrip:
  assumes "list_all (\<lambda>ing. ing_namespace ing \<noteq> []) ings"
    and "list_all (\<lambda>p. lp_set (snd p) < 2 ^ 63) (gp_placements (build_managed_gateway ings (managed_options_of c certs ps)))"
  shows "\<exists>m. observed_listener_placements c (Inr (Some (gp_gateway (build_managed_gateway ings (managed_options_of c certs ps)))))
      (Inr (gp_sets (build_managed_gateway ings (managed_options_of c certs ps)))) = Inr m \<and>
    gm_get m = gm_get (gp_placements (build_managed_gateway ings (managed_options_of c certs ps)))"
proof -
  let ?o = "managed_options_of c certs ps"
  let ?plan = "build_managed_gateway ings ?o"
  have gateway: "(if gm_get (om_labels (gw_meta (gp_gateway ?plan))) ManagedByLabel = Some ControllerName
      then record_observed_listeners (om_namespace (gw_meta (gp_gateway ?plan))) 0 (gw_listeners (gp_gateway ?plan)) [] else []) =
      fold record_placement (entries_at ?o ings 0) []"
    unfolding plan_fields record_observed_entries mg.emit_listeners
    using entries_observed [OF assms(1), of _ 0] by (simp add: managed_labels_def observed_entries_def map_filter_simps observed_http_listener)
  have sets: "fold (record_set c) (filter (\<lambda>s. om_namespace (ls_meta s) = cf_namespace c \<and> managed_by_gateway c (ls_meta s))
      (map (\<lambda>i. managed_listener_set ?o i (mg.set_listeners ?o ings i)) is)) m = fold record_placement (concat (map (entries_at ?o ings) is)) m"
    if "set is \<subseteq> set (mg.used_sets ?o ings)" for "is" m
    using that
  proof (induction "is" arbitrary: m)
    case (Cons i "is")
    then have i: "0 < i" "i < 2 ^ 63" using used_set_small [OF assms(2)] mg.used_sets_iff by auto
    show ?case
      using Cons managed_set_observed [OF i] entries_observed [OF assms(1)]
      by (simp add: record_set_def record_observed_entries mg.set_listeners_def)
  qed simp
  have unused: "mg.used_sets ?o ings = []" if "\<not> cf_sets_available c"
    using used_sets_overflow [of _ ?o ings] that by (metis all_not_in_conv managed_options_of_simps(3) set_empty)
  have "observed_listener_placements c (Inr (Some (gp_gateway ?plan))) (Inr (gp_sets ?plan)) = Inr (fold record_placement (all_entries ?o ings) [])"
    unfolding observed_listener_placements_def all_entries_def sum.case option.case gateway plan_fields(2) mg.emit_sets_eq
    using sets [OF subset_refl] unused by (simp add: Let_def)
  moreover have "gm_get (fold record_placement (all_entries ?o ings) []) = gm_get (gp_placements ?plan)"
    using fold_record_distinct [OF all_entries_distinct [of ?o ings], of "[]"] all_entries_get [of ?o ings] by (auto split: option.split)
  ultimately show ?thesis by blast
qed

definition sample_config :: config where
  "sample_config = \<lparr>cf_namespace = ''gw'', cf_name = ''edge'', cf_class = ''nginx'', cf_proxy_name = [], cf_manage = True,
     cf_allow_sets = False, cf_http_section = ''http'', cf_https_section = ''https'', cf_collapse = False,
     cf_sets_available = True, cf_without_class = True, cf_classes = [''nginx''], cf_allow_snippets = False,
     cf_strict = True, cf_update_status = False\<rparr>"

lemma sample_placed:
  "placed_of [sample_ingress ''app'' ''a.example'' ''tls''] (managed_options_of sample_config None []) = [(''a.example'', 0)]"
  by code_simp

theorem observed_placements_roundtrip_witness:
  "\<exists>m. observed_listener_placements sample_config
      (Inr (Some (gp_gateway (build_managed_gateway [sample_ingress ''app'' ''a.example'' ''tls''] (managed_options_of sample_config None [])))))
      (Inr (gp_sets (build_managed_gateway [sample_ingress ''app'' ''a.example'' ''tls''] (managed_options_of sample_config None [])))) = Inr m \<and>
    gm_get m = gm_get (gp_placements (build_managed_gateway [sample_ingress ''app'' ''a.example'' ''tls''] (managed_options_of sample_config None [])))"
proof (rule observed_placements_roundtrip)
  show "list_all (\<lambda>ing. ing_namespace ing \<noteq> []) [sample_ingress ''app'' ''a.example'' ''tls'']" by (simp add: sample_ingress_def)
  show "list_all (\<lambda>p. lp_set (snd p) < 2 ^ 63)
      (gp_placements (build_managed_gateway [sample_ingress ''app'' ''a.example'' ''tls''] (managed_options_of sample_config None [])))"
    by (auto simp: list_all_iff dest!: placement_index simp: sample_placed gm_or_def)
qed

end
