(* ===== verification/CertificateCache.thy ===== *)
theory CertificateCache
  imports Config
begin

text \<open>
  \<^verbatim>\<open>internal/controller/certificates.go\<close>: the projection of TLS Secrets kept in the informer cache,
  the controller's snapshot of it, and when a change of a Secret leads to a new plan. The JSON
  encoding of a \<^verbatim>\<open>CertificateInfo\<close> and the certificate libraries are parameters.
\<close>

record codec =
  jc_marshal :: "certificate_info \<Rightarrow> string option"
  jc_unmarshal :: "string \<Rightarrow> certificate_info option"

text \<open>A Secret; the data is \<^theory_text>\<open>None\<close> when it is nil.\<close>

record tls_secret_object =
  se_namespace :: string
  se_name :: string
  se_uid :: string
  se_generation :: int
  se_type :: string
  se_labels :: strmap
  se_annotations :: strmap
  se_data :: "strmap option"

definition certificateInfoAnnotation :: string where
  "certificateInfoAnnotation = ''gateway.zyno.io/internal-certificate-info''"

subsection \<open>The cached projection\<close>

definition encoded_info :: "codec \<Rightarrow> x509_lib \<Rightarrow> strmap option \<Rightarrow> string" where
  "encoded_info J L data =
     (case parse_certificate_info L (case data of None \<Rightarrow> [] | Some d \<Rightarrow> d) of
        None \<Rightarrow> []
      | Some info \<Rightarrow> (case jc_marshal J info of None \<Rightarrow> [] | Some text' \<Rightarrow> text'))"

definition transform_tls_secret :: "codec \<Rightarrow> x509_lib \<Rightarrow> tls_secret_object \<Rightarrow> tls_secret_object" where
  "transform_tls_secret J L s =
     (if se_data s = None \<and> gm_has (se_annotations s) certificateInfoAnnotation then s
      else s\<lparr>se_labels := [], se_annotations := [(certificateInfoAnnotation, encoded_info J L (se_data s))], se_data := None\<rparr>)"

definition certificate_info_from_secret :: "codec \<Rightarrow> tls_secret_object \<Rightarrow> certificate_info option" where
  "certificate_info_from_secret J s =
     (case gm_get (se_annotations s) certificateInfoAnnotation of
        None \<Rightarrow> None
      | Some raw \<Rightarrow> if raw = [] then None else jc_unmarshal J raw)"

subsection \<open>The controller's snapshot\<close>

text \<open>An entry is the projection of a Secret, or nothing for one that is missing or invalid.\<close>

type_synonym cert_cache = "(nsname, certificate_info option) gomap"

definition read_certificate :: "codec \<Rightarrow> (nsname \<Rightarrow> 'e + tls_secret_object option) \<Rightarrow> nsname \<Rightarrow> 'e + certificate_info option" where
  "read_certificate J get key =
     (case get key of
        Inl err \<Rightarrow> Inl err
      | Inr None \<Rightarrow> Inr None
      | Inr (Some secret) \<Rightarrow> Inr (certificate_info_from_secret J secret))"

definition tls_secret_keys :: "ingress \<Rightarrow> nsname list" where
  "tls_secret_keys ing =
     concat (map (\<lambda>tls. let name = trim_space (tls_secret tls) in if name = [] then [] else [nsname (ing_namespace ing) name]) (ing_tls ing))"

fun lookup_loop :: "(nsname \<Rightarrow> 'e + certificate_info option) \<Rightarrow> nsname list \<Rightarrow> cert_cache \<Rightarrow> (nsname, certificate_info) gomap \<Rightarrow>
    ('e + (nsname, certificate_info) gomap) \<times> cert_cache" where
  "lookup_loop read [] cache result = (Inr result, cache)"
| "lookup_loop read (key # keys) cache result =
     (case gm_get cache key of
        Some entry \<Rightarrow>
          lookup_loop read keys cache (case entry of None \<Rightarrow> result | Some info \<Rightarrow> gm_put key info result)
      | None \<Rightarrow>
          (case read key of
             Inl err \<Rightarrow> (Inl err, cache)
           | Inr entry \<Rightarrow>
               lookup_loop read keys (gm_put key entry cache) (case entry of None \<Rightarrow> result | Some info \<Rightarrow> gm_put key info result)))"

text \<open>The snapshot is \<^theory_text>\<open>None\<close> when it is nil; it is returned as the call leaves it, also on an error.\<close>

definition certificate_infos :: "codec \<Rightarrow> config \<Rightarrow> (nsname \<Rightarrow> 'e + tls_secret_object option) \<Rightarrow> ingress list \<Rightarrow> cert_cache option \<Rightarrow>
    ('e + (nsname, certificate_info) gomap option) \<times> cert_cache option" where
  "certificate_infos J c get ings snapshot =
     (if \<not> cf_collapse c then (Inr None, snapshot)
      else let keys = concat (map tls_secret_keys ings)
        in (case lookup_loop (read_certificate J get) keys (case snapshot of None \<Rightarrow> [] | Some cache \<Rightarrow> cache) [] of
              (Inl err, cache) \<Rightarrow> (Inl err, Some cache)
            | (Inr result, cache) \<Rightarrow> (Inr (Some result), Some (filter (\<lambda>(key, _). key \<in> set keys) cache))))"

subsection \<open>Events\<close>

definition certificateSettleDelay :: nat where
  "certificateSettleDelay = 10"

definition zero_info :: certificate_info where
  "zero_info = \<lparr>ci_wildcard_sans = [], ci_fingerprint = []\<rparr>"

text \<open>The delay in seconds of the plan after an update of a Secret; \<^theory_text>\<open>None\<close> when it is ignored.\<close>

definition update_delay :: "certificate_info option \<Rightarrow> certificate_info option \<Rightarrow> nat option" where
  "update_delay old new =
     (let oldInfo = (case old of None \<Rightarrow> zero_info | Some i \<Rightarrow> i); newInfo = (case new of None \<Rightarrow> zero_info | Some i \<Rightarrow> i) in
      if (old \<noteq> None) = (new \<noteq> None) \<and> ci_fingerprint oldInfo = ci_fingerprint newInfo \<and>
         ci_wildcard_sans oldInfo = ci_wildcard_sans newInfo then None
      else if old \<noteq> None \<and> new \<noteq> None \<and> ci_wildcard_sans oldInfo = ci_wildcard_sans newInfo \<and>
         ci_fingerprint oldInfo \<noteq> ci_fingerprint newInfo then Some certificateSettleDelay
      else Some 0)"

text \<open>A failed list (\<^theory_text>\<open>None\<close>) counts as a reference.\<close>

definition secret_referenced :: "config \<Rightarrow> (string \<Rightarrow> ingress list option) \<Rightarrow> string \<Rightarrow> string \<Rightarrow> bool" where
  "secret_referenced c list_ingresses namespace name =
     (case list_ingresses namespace of
        None \<Rightarrow> True
      | Some ings \<Rightarrow>
          list_ex (\<lambda>ing. \<not> ing_deleting ing \<and> selected c ing \<and> list_ex (\<lambda>tls. trim_space (tls_secret tls) = name) (ing_tls ing)) ings)"

text \<open>Whether the sync request is queued, and with which delay.\<close>

definition enqueue_certificate_sync :: "config \<Rightarrow> (string \<Rightarrow> ingress list option) \<Rightarrow> tls_secret_object \<Rightarrow> nat \<Rightarrow> nat option" where
  "enqueue_certificate_sync c list_ingresses secret delay =
     (if secret_referenced c list_ingresses (se_namespace secret) (se_name secret) then Some delay else None)"

datatype secret_event = SecretCreated tls_secret_object | SecretDeleted tls_secret_object
  | SecretUpdated tls_secret_object tls_secret_object

fun secret_event_handler :: "codec \<Rightarrow> config \<Rightarrow> (string \<Rightarrow> ingress list option) \<Rightarrow> secret_event \<Rightarrow> nat option" where
  "secret_event_handler J c list_ingresses (SecretCreated s) = enqueue_certificate_sync c list_ingresses s 0"
| "secret_event_handler J c list_ingresses (SecretDeleted s) = enqueue_certificate_sync c list_ingresses s 0"
| "secret_event_handler J c list_ingresses (SecretUpdated old new) =
     (case update_delay (certificate_info_from_secret J old) (certificate_info_from_secret J new) of
        None \<Rightarrow> None
      | Some delay \<Rightarrow> enqueue_certificate_sync c list_ingresses new delay)"

subsection \<open>The projection\<close>

definition lawful_for :: "codec \<Rightarrow> certificate_info \<Rightarrow> bool" where
  "lawful_for J info \<longleftrightarrow> (case jc_marshal J info of None \<Rightarrow> False | Some raw \<Rightarrow> raw \<noteq> [] \<and> jc_unmarshal J raw = Some info)"

text \<open>
  What the controller reads of a cached Secret is what its certificate says, provided the JSON
  encoding of the projection can be read back: the projection of the stripped Secret is the
  \<^verbatim>\<open>CertificateInfo\<close> of the original data, and stripping it again changes nothing.
\<close>

theorem cached_projection_roundtrip:
  assumes "se_data s = Some data" and "pred_option (lawful_for J) (parse_certificate_info L data)"
  shows "certificate_info_from_secret J (transform_tls_secret J L s) = parse_certificate_info L data \<and>
    transform_tls_secret J L (transform_tls_secret J L s) = transform_tls_secret J L s"
  using assms
  by (auto simp: certificate_info_from_secret_def transform_tls_secret_def encoded_info_def lawful_for_def split: option.splits)

definition sample_codec :: codec where
  "sample_codec = \<lparr>jc_marshal = (\<lambda>i. Some (''{'' @ ci_fingerprint i @ ''}'')),
     jc_unmarshal = (\<lambda>raw. Some \<lparr>ci_wildcard_sans = [], ci_fingerprint = butlast (tl raw)\<rparr>)\<rparr>"

definition sample_secret_object :: tls_secret_object where
  "sample_secret_object = \<lparr>se_namespace = ''app'', se_name = ''tls'', se_uid = ''u'', se_generation = 1, se_type = ''kubernetes.io/tls'',
     se_labels = [(''a'', ''b'')], se_annotations = [], se_data = Some [(''tls.key'', ''secret'')]\<rparr>"

definition sample_x509 :: x509_lib where
  "sample_x509 = \<lparr>xl_key_pair = (\<lambda>crt key. Some \<lparr>kp_chain = [''der''], kp_leaf = Some \<lparr>ce_dns_names = []\<rparr>\<rparr>), xl_parse = (\<lambda>_. None),
     xl_base64 = (\<lambda>_. None), xl_pem = (\<lambda>_. None)\<rparr>"

theorem cached_projection_roundtrip_witness:
  "certificate_info_from_secret sample_codec (transform_tls_secret sample_codec sample_x509 sample_secret_object) =
     parse_certificate_info sample_x509 [(''tls.key'', ''secret'')]"
proof -
  have "se_data sample_secret_object = Some [(''tls.key'', ''secret'')]" by (simp add: sample_secret_object_def)
  moreover have "pred_option (lawful_for sample_codec) (parse_certificate_info sample_x509 [(''tls.key'', ''secret'')])"
    by (simp add: parse_certificate_info_def sample_x509_def sample_codec_def lawful_for_def wildcard_sans_def sort_strings_def)
  ultimately show ?thesis by (rule cached_projection_roundtrip [THEN conjunct1])
qed

text \<open>
  No certificate or key material stays in the cache: a transformed Secret has no data, no
  labels and no annotation but the projection, whose text depends on the data only through the
  \<^verbatim>\<open>CertificateInfo\<close>.
\<close>

theorem certificate_material_dropped:
  "se_data (transform_tls_secret J L s) = None \<and>
   (if se_data s = None \<and> gm_has (se_annotations s) certificateInfoAnnotation then transform_tls_secret J L s = s
    else se_labels (transform_tls_secret J L s) = [] \<and>
      se_annotations (transform_tls_secret J L s) =
        [(certificateInfoAnnotation,
          case parse_certificate_info L (case se_data s of None \<Rightarrow> [] | Some d \<Rightarrow> d) of
            None \<Rightarrow> [] | Some info \<Rightarrow> (case jc_marshal J info of None \<Rightarrow> [] | Some text' \<Rightarrow> text'))])"
  by (simp add: transform_tls_secret_def encoded_info_def)

subsection \<open>The snapshot\<close>

text \<open>What a lookup finds: the cached entry, or else what the API server answers now.\<close>

definition entry_now :: "(nsname \<Rightarrow> 'e + certificate_info option) \<Rightarrow> cert_cache \<Rightarrow> nsname \<Rightarrow> 'e + certificate_info option" where
  "entry_now read cache key = (case gm_get cache key of Some entry \<Rightarrow> Inr entry | None \<Rightarrow> read key)"

definition or_previous :: "'a option \<Rightarrow> 'a option \<Rightarrow> 'a option" where
  "or_previous previous entry = (case entry of None \<Rightarrow> previous | Some i \<Rightarrow> Some i)"

lemma lookup_loop_Cons:
  assumes "entry_now read cache k = Inr e"
  shows "\<exists>cache1 result1. lookup_loop read (k # ks) cache result = lookup_loop read ks cache1 result1 \<and>
    gm_get cache1 = (gm_get cache)(k \<mapsto> e) \<and> gm_get result1 = (gm_get result)(k := or_previous (gm_get result k) e)"
proof (cases "gm_get cache k")
  case None
  with assms have "lookup_loop read (k # ks) cache result =
      lookup_loop read ks (gm_put k e cache) (case e of None \<Rightarrow> result | Some info \<Rightarrow> gm_put k info result)"
    by (simp add: entry_now_def)
  then show ?thesis
    by (intro exI conjI; assumption?) (auto simp: gomap_simps or_previous_def fun_eq_iff split: option.split)
next
  case (Some entry)
  with assms have "e = entry" by (simp add: entry_now_def)
  with Some have "lookup_loop read (k # ks) cache result =
      lookup_loop read ks cache (case e of None \<Rightarrow> result | Some info \<Rightarrow> gm_put k info result)" by simp
  with Some \<open>e = entry\<close> show ?thesis
    by (intro exI conjI; assumption?) (auto simp: gomap_simps or_previous_def fun_eq_iff split: option.split)
qed

lemma lookup_loop_error: "entry_now read cache k = Inl err \<Longrightarrow> lookup_loop read (k # ks) cache result = (Inl err, cache)"
  by (simp add: entry_now_def split: option.splits)

lemma lookup_loop_result:
  assumes "lookup_loop read keys cache result = (Inr m, cache')"
  shows "(key \<in> set keys \<longrightarrow> (\<exists>e. entry_now read cache key = Inr e \<and> gm_get cache' key = Some e \<and>
        gm_get m key = or_previous (gm_get result key) e)) \<and>
    (key \<notin> set keys \<longrightarrow> gm_get cache' key = gm_get cache key \<and> gm_get m key = gm_get result key)"
  using assms
proof (induction keys arbitrary: cache result)
  case (Cons k ks)
  show ?case
  proof (cases "entry_now read cache k")
    case (Inl err)
    from lookup_loop_error [OF this, of ks result] Cons.prems Inl show ?thesis by (simp del: lookup_loop.simps)
  next
    case (Inr e)
    from lookup_loop_Cons [OF this] obtain cache1 result1 where
      eq: "lookup_loop read (k # ks) cache result = lookup_loop read ks cache1 result1" and
      c: "gm_get cache1 = (gm_get cache)(k \<mapsto> e)" and r: "gm_get result1 = (gm_get result)(k := or_previous (gm_get result k) e)" by blast
    have now: "entry_now read cache1 key = (if key = k then Inr e else entry_now read cache key)"
      by (simp add: entry_now_def c)
    from Cons.IH [OF Cons.prems [unfolded eq]] show ?thesis
      using Inr now by (cases "key = k"; cases "key \<in> set ks"; cases e) (auto simp: c r or_previous_def)
  qed
qed simp

lemma lookup_loop_fails:
  assumes "lookup_loop read keys cache result = (Inl err, cache')"
  shows "\<exists>key \<in> set keys. entry_now read cache key = Inl err"
  using assms
proof (induction keys arbitrary: cache result)
  case (Cons k ks)
  show ?case
  proof (cases "entry_now read cache k")
    case (Inl e)
    from lookup_loop_error [OF this, of ks result] Cons.prems Inl show ?thesis by (simp del: lookup_loop.simps)
  next
    case (Inr e)
    from lookup_loop_Cons [OF this] obtain cache1 result1 where
      eq: "lookup_loop read (k # ks) cache result = lookup_loop read ks cache1 result1" and c: "gm_get cache1 = (gm_get cache)(k \<mapsto> e)" by blast
    from Cons.IH [OF Cons.prems [unfolded eq]] obtain key where "key \<in> set ks" "entry_now read cache1 key = Inl err" by blast
    then show ?thesis by (auto simp: entry_now_def c split: if_splits)
  qed
qed simp

lemma get_filter: "gm_get (filter (\<lambda>(k, _). P k) m) k = (if P k then gm_get m k else None)"
  by (induction m) auto

definition referenced_secrets_of :: "ingress list \<Rightarrow> nsname list" where
  "referenced_secrets_of ings = concat (map tls_secret_keys ings)"

text \<open>
  The snapshot the plan is built from is exact: for every Secret an Ingress references it has
  the projection known before or else the one read now, nothing for a missing or invalid Secret,
  and nothing else; and after the call the snapshot remembers the referenced Secrets only, so a
  Secret that changes while no Ingress references it is read again. A failed lookup fails the call.
\<close>

theorem certificate_snapshot_exact:
  "case certificate_infos J c get ings (Some cache) of
     (Inr None, snapshot) \<Rightarrow> \<not> cf_collapse c \<and> snapshot = Some cache
   | (Inr (Some certs), snapshot) \<Rightarrow>
       (\<forall>key. if key \<in> set (referenced_secrets_of ings)
         then Inr (gm_get certs key) = entry_now (read_certificate J get) cache key \<and>
           gm_get (the snapshot) key = Some (gm_get certs key)
         else gm_get certs key = None \<and> gm_get (the snapshot) key = None)
   | (Inl err, snapshot) \<Rightarrow> list_ex (\<lambda>key. read_certificate J get key = Inl err) (referenced_secrets_of ings)"
proof (cases "cf_collapse c")
  case True
  obtain r cache' where l: "lookup_loop (read_certificate J get) (referenced_secrets_of ings) cache [] = (r, cache')" by fastforce
  show ?thesis
  proof (cases r)
    case (Inl err)
    with lookup_loop_fails [of "read_certificate J get"] l have
      "\<exists>key \<in> set (referenced_secrets_of ings). entry_now (read_certificate J get) cache key = Inl err" by blast
    then have "list_ex (\<lambda>key. read_certificate J get key = Inl err) (referenced_secrets_of ings)"
      by (auto simp: list_ex_iff entry_now_def split: option.splits)
    with True l Inl show ?thesis by (simp add: certificate_infos_def referenced_secrets_of_def Let_def)
  next
    case (Inr m)
    have eq: "certificate_infos J c get ings (Some cache) =
        (Inr (Some m), Some (filter (\<lambda>(key, _). key \<in> set (referenced_secrets_of ings)) cache'))"
      using True l Inr by (simp add: certificate_infos_def referenced_secrets_of_def Let_def)
    have "if key \<in> set (referenced_secrets_of ings)
        then Inr (gm_get m key) = entry_now (read_certificate J get) cache key \<and>
          gm_get (the (Some (filter (\<lambda>(key, _). key \<in> set (referenced_secrets_of ings)) cache'))) key = Some (gm_get m key)
        else gm_get m key = None \<and> gm_get (the (Some (filter (\<lambda>(key, _). key \<in> set (referenced_secrets_of ings)) cache'))) key = None" for key
      using lookup_loop_result [OF l [unfolded Inr], of key]
      by (cases "gm_get m key") (auto simp: get_filter or_previous_def split: option.splits)
    then show ?thesis unfolding eq prod.case sum.case option.case by (intro allI)
  qed
qed (simp add: certificate_infos_def)

subsection \<open>Which changes are acted on\<close>

text \<open>
  An update of a Secret is ignored exactly when the projection, all that a plan ever sees of
  it, is unchanged; the plan is delayed exactly for a renewal, a new chain with the same wildcards.
\<close>

theorem update_delay_cases:
  "update_delay old new =
     (if old = new then None
      else if old \<noteq> None \<and> new \<noteq> None \<and> map_option ci_wildcard_sans old = map_option ci_wildcard_sans new then Some 10 else Some 0)"
  by (cases old; cases new) (auto simp: update_delay_def zero_info_def certificateSettleDelay_def Let_def)

end
