(* ===== verification/Readiness.thy ===== *)
theory Readiness
  imports Config
begin

text \<open>
  When a translation counts as ready, from \<^verbatim>\<open>internal/controller/status.go\<close>. The
  conditions of an object are the map from condition types that \<^verbatim>\<open>apimeta.FindStatusCondition\<close> reads;
  the answers of the API server are the fields of a view, each an error, nothing (\<^verbatim>\<open>NotFound\<close>) or the
  part of the object the code looks at.
\<close>

subsection \<open>Conditions and observed objects\<close>

datatype cond_status = CondTrue | CondFalse | CondUnknown

record condition =
  cn_status :: cond_status
  cn_reason :: string
  cn_message :: string
  cn_generation :: int

type_synonym conditions = "(string, condition) gomap"

definition nginxGatewayController :: string where
  "nginxGatewayController = ''gateway.nginx.org/nginx-gateway-controller''"

record 'a observed =
  ob_generation :: int
  ob_status :: 'a

record address =
  ad_type :: "string option"
  ad_value :: string

record gateway_status =
  gs_conditions :: conditions
  gs_addresses :: "address list"

text \<open>A policy ancestor or a route parent: both name a controller and a parent.\<close>

record parent_status =
  pa_controller :: string
  pa_parent :: parent_ref
  pa_conditions :: conditions

record controller_status =
  ct_controller :: string
  ct_conditions :: conditions

record resource_reference =
  rf_api_version :: string
  rf_kind :: string
  rf_namespace :: string
  rf_name :: string

record translation_issue =
  ti_severity :: string
  ti_field :: string
  ti_message :: string

record translation_status =
  tr_generation :: int
  tr_conditions :: conditions
  tr_resources :: "resource_reference list"
  tr_issues :: "translation_issue list"

datatype generated =
    GenRoute http_route
  | GenBackendTLS backend_tls_policy
  | GenClient client_settings_policy
  | GenProxy proxy_settings_policy
  | GenAuth authentication_filter
  | GenSnippets snippets_filter

fun gen_meta :: "generated \<Rightarrow> object_meta" where
  "gen_meta (GenRoute r) = hr_meta r"
| "gen_meta (GenBackendTLS p) = bt_meta p"
| "gen_meta (GenClient p) = cs_meta p"
| "gen_meta (GenProxy p) = ps_meta p"
| "gen_meta (GenAuth f) = af_meta f"
| "gen_meta (GenSnippets f) = sf_meta f"

fun gen_kind :: "generated \<Rightarrow> string" where
  "gen_kind (GenRoute r) = ''HTTPRoute''"
| "gen_kind (GenBackendTLS p) = ''BackendTLSPolicy''"
| "gen_kind (GenClient p) = ''ClientSettingsPolicy''"
| "gen_kind (GenProxy p) = ''ProxySettingsPolicy''"
| "gen_kind (GenAuth f) = ''AuthenticationFilter''"
| "gen_kind (GenSnippets f) = ''SnippetsFilter''"

text \<open>The \<^verbatim>\<open>TypeMeta\<close> the translator gives its objects.\<close>

fun gen_api_version :: "generated \<Rightarrow> string" where
  "gen_api_version (GenRoute r) = group_name @ ''/v1''"
| "gen_api_version (GenBackendTLS p) = group_name @ ''/v1''"
| "gen_api_version g = ngf_group @ ''/v1alpha1''"

definition gen_key :: "generated \<Rightarrow> string \<times> nsname" where
  "gen_key g = (gen_kind g, object_key (gen_meta g))"

definition plan_objects :: "plan \<Rightarrow> generated list" where
  "plan_objects p =
     map GenRoute (pl_routes p) @ map GenBackendTLS (pl_backend_tls p) @ map GenClient (pl_client p) @
     map GenProxy (pl_proxy p) @ map GenAuth (pl_auth p) @ map GenSnippets (pl_snippets p)"

record 'e view =
  vw_gateway :: "nsname \<Rightarrow> 'e + gateway_status observed option"
  vw_set :: "nsname \<Rightarrow> 'e + conditions observed option"
  vw_policy :: "string \<Rightarrow> nsname \<Rightarrow> 'e + parent_status list observed option"
  vw_filter :: "string \<Rightarrow> nsname \<Rightarrow> 'e + controller_status list observed option"
  vw_route :: "nsname \<Rightarrow> 'e + parent_status list observed option"
  vw_ingress :: "nsname \<Rightarrow> 'e + int option"
  vw_translation :: "nsname \<Rightarrow> 'e + translation_status option"

text \<open>Status, reason, message and error of a readiness check.\<close>

type_synonym 'e ready = "cond_status \<times> string \<times> string \<times> 'e option"

definition is_ready :: "'e ready \<Rightarrow> bool" where
  "is_ready r \<longleftrightarrow> (case r of (status, _, _, err) \<Rightarrow> status = CondTrue \<and> err = None)"

subsection \<open>Parents\<close>

definition or_else :: "'a \<Rightarrow> 'a option \<Rightarrow> 'a" where
  "or_else d v = (case v of None \<Rightarrow> d | Some x \<Rightarrow> x)"

definition same_parent_ref :: "parent_ref \<Rightarrow> parent_ref \<Rightarrow> string \<Rightarrow> bool" where
  "same_parent_ref have' want routeNamespace =
     (if or_else group_name (pr_group have') \<noteq> or_else group_name (pr_group want) then False
      else if or_else GatewayKind (pr_kind have') \<noteq> or_else GatewayKind (pr_kind want) \<or> pr_name have' \<noteq> pr_name want then False
      else if or_else routeNamespace (pr_namespace have') \<noteq> or_else routeNamespace (pr_namespace want) then False
      else (case pr_section want of None \<Rightarrow> True | Some s \<Rightarrow> pr_section have' = Some s))"

definition matching_parent_status :: "parent_status list \<Rightarrow> parent_ref \<Rightarrow> string \<Rightarrow> parent_status option" where
  "matching_parent_status parents want routeNamespace =
     find (\<lambda>p. pa_controller p = nginxGatewayController \<and> same_parent_ref (pa_parent p) want routeNamespace) parents"

definition set_parent :: "string \<Rightarrow> string \<Rightarrow> parent_ref \<Rightarrow> string list" where
  "set_parent routeNamespace gatewayNamespace ref =
     (if pr_kind ref \<noteq> Some ListenerSetKind then []
      else if pr_group ref \<noteq> None \<and> pr_group ref \<noteq> Some group_name then []
      else if or_else routeNamespace (pr_namespace ref) \<noteq> gatewayNamespace then []
      else [pr_name ref])"

definition desired_listener_sets :: "generated list \<Rightarrow> string \<Rightarrow> string list" where
  "desired_listener_sets desired gatewayNamespace =
     sort_strings (remdups (concat (map (\<lambda>g. case g of
         GenRoute r \<Rightarrow> concat (map (set_parent (om_namespace (hr_meta r)) gatewayNamespace) (hr_parents r))
       | _ \<Rightarrow> []) desired)))"

subsection \<open>Policies and filters\<close>

definition pending_object :: "string \<Rightarrow> string \<Rightarrow> 'e option \<Rightarrow> 'e ready" where
  "pending_object kind name err = (CondUnknown, ''PolicyPending'', kind @ '' '' @ name @ '' is not readable yet'', err)"

text \<open>The loop shared by policies and filters: a rejection at this generation wins over an acceptance.\<close>

fun accepted_loop :: "string \<Rightarrow> string \<Rightarrow> int \<Rightarrow> bool \<Rightarrow> (string \<times> conditions) list \<Rightarrow> cond_status \<times> string \<times> string" where
  "accepted_loop kind name generation found [] =
     (if found then (CondTrue, ''Programmed'', [])
      else (CondUnknown, ''PolicyPending'', kind @ '' '' @ name @ '' has incomplete status''))"
| "accepted_loop kind name generation found ((controller, conditions) # rest) =
     (if controller \<noteq> nginxGatewayController then accepted_loop kind name generation found rest
      else (case gm_get conditions ''Accepted'' of
              None \<Rightarrow> accepted_loop kind name generation found rest
            | Some accepted \<Rightarrow>
                if cn_generation accepted \<noteq> generation then accepted_loop kind name generation found rest
                else if cn_status accepted \<noteq> CondTrue
                then (CondFalse, ''PolicyRejected'', kind @ '' '' @ name @ '': '' @ cn_message accepted)
                else accepted_loop kind name generation True rest))"

definition attached_policy_ready :: "string \<Rightarrow> string \<Rightarrow> int \<Rightarrow> parent_status list \<Rightarrow> cond_status \<times> string \<times> string" where
  "attached_policy_ready kind name generation ancestors =
     (if ancestors = [] then (CondUnknown, ''PolicyPending'', kind @ '' '' @ name @ '' has no ancestor status yet'')
      else accepted_loop kind name generation False (map (\<lambda>a. (pa_controller a, pa_conditions a)) ancestors))"

definition extension_filter_ready :: "string \<Rightarrow> string \<Rightarrow> int \<Rightarrow> controller_status list \<Rightarrow> cond_status \<times> string \<times> string" where
  "extension_filter_ready kind name generation controllers =
     (if controllers = [] then (CondUnknown, ''PolicyPending'', kind @ '' '' @ name @ '' has no controller status yet'')
      else accepted_loop kind name generation False (map (\<lambda>c. (ct_controller c, ct_conditions c)) controllers))"

text \<open>\<^theory_text>\<open>None\<close> when the object is ready, otherwise what the whole check returns.\<close>

definition unless_ready :: "cond_status \<times> string \<times> string \<Rightarrow> 'e ready option" where
  "unless_ready r = (case r of (status, reason, message) \<Rightarrow>
     if status \<noteq> CondTrue then Some (status, reason, message, None) else None)"

definition policy_check :: "'e view \<Rightarrow> string \<Rightarrow> object_meta \<Rightarrow> 'e ready option" where
  "policy_check view kind meta =
     (case vw_policy view kind (object_key meta) of
        Inl err \<Rightarrow> Some (pending_object kind (om_name meta) (Some err))
      | Inr None \<Rightarrow> Some (pending_object kind (om_name meta) None)
      | Inr (Some current) \<Rightarrow> unless_ready (attached_policy_ready kind (om_name meta) (ob_generation current) (ob_status current)))"

definition filter_check :: "'e view \<Rightarrow> string \<Rightarrow> object_meta \<Rightarrow> 'e ready option" where
  "filter_check view kind meta =
     (case vw_filter view kind (object_key meta) of
        Inl err \<Rightarrow> Some (pending_object kind (om_name meta) (Some err))
      | Inr None \<Rightarrow> Some (pending_object kind (om_name meta) None)
      | Inr (Some current) \<Rightarrow> unless_ready (extension_filter_ready kind (om_name meta) (ob_generation current) (ob_status current)))"

definition policy_pending :: "string \<Rightarrow> string \<Rightarrow> 'e option \<Rightarrow> 'e ready" where
  "policy_pending name text' err = (CondUnknown, ''PolicyPending'', ''BackendTLSPolicy '' @ name @ text', err)"

definition policy_rejected :: "string \<Rightarrow> condition \<Rightarrow> 'e ready" where
  "policy_rejected name condition = (CondFalse, ''PolicyRejected'', ''BackendTLSPolicy '' @ name @ '': '' @ cn_message condition, None)"

definition own_ancestor :: "config \<Rightarrow> parent_status \<Rightarrow> bool" where
  "own_ancestor c a \<longleftrightarrow> pa_controller a = nginxGatewayController \<and> pr_name (pa_parent a) = cf_name c \<and>
     or_else (cf_namespace c) (pr_namespace (pa_parent a)) = cf_namespace c"

definition ancestor_check :: "string \<Rightarrow> int \<Rightarrow> conditions \<Rightarrow> 'e ready option" where
  "ancestor_check name generation conditions =
     (case gm_get conditions ''Accepted'' of
        None \<Rightarrow> Some (policy_pending name '' has incomplete status'' None)
      | Some accepted \<Rightarrow>
          if cn_generation accepted \<noteq> generation then Some (policy_pending name '' has incomplete status'' None)
          else if cn_status accepted \<noteq> CondTrue then Some (policy_rejected name accepted)
          else (case gm_get conditions ''ResolvedRefs'' of
                  None \<Rightarrow> None
                | Some resolved \<Rightarrow>
                    if cn_generation resolved \<noteq> generation then Some (policy_pending name '' has incomplete status'' None)
                    else if cn_status resolved \<noteq> CondTrue then Some (policy_rejected name resolved)
                    else None))"

fun first_failure :: "('a \<Rightarrow> 'b option) \<Rightarrow> 'a list \<Rightarrow> 'b option" where
  "first_failure f [] = None"
| "first_failure f (x # xs) = (case f x of None \<Rightarrow> first_failure f xs | Some r \<Rightarrow> Some r)"

lemma first_failure_None [simp]: "first_failure f xs = None \<longleftrightarrow> (\<forall>x \<in> set xs. f x = None)"
  by (induction xs) (auto split: option.split)

lemma first_failure_Some: "first_failure f xs = Some r \<Longrightarrow> \<exists>x \<in> set xs. f x = Some r"
  by (induction xs) (auto split: option.splits)

definition backend_tls_check :: "config \<Rightarrow> 'e view \<Rightarrow> object_meta \<Rightarrow> 'e ready option" where
  "backend_tls_check c view meta =
     (case vw_policy view ''BackendTLSPolicy'' (object_key meta) of
        Inl err \<Rightarrow> Some (policy_pending (om_name meta) '' is not readable yet'' (Some err))
      | Inr None \<Rightarrow> Some (policy_pending (om_name meta) '' is not readable yet'' None)
      | Inr (Some current) \<Rightarrow>
          if ob_status current = [] then Some (policy_pending (om_name meta) '' has no ancestor status yet'' None)
          else (case first_failure (\<lambda>a. if own_ancestor c a then ancestor_check (om_name meta) (ob_generation current) (pa_conditions a) else None)
                    (ob_status current) of
                  Some r \<Rightarrow> Some r
                | None \<Rightarrow>
                    if list_ex (own_ancestor c) (ob_status current) then None
                    else Some (policy_pending (om_name meta) '' has no status for the target Gateway'' None)))"

subsection \<open>Routes\<close>

definition route_pending :: "string \<Rightarrow> string \<Rightarrow> 'e option \<Rightarrow> 'e ready" where
  "route_pending name text' err = (CondUnknown, ''RoutePending'', ''HTTPRoute '' @ name @ text', err)"

definition route_condition_check :: "string \<Rightarrow> int \<Rightarrow> conditions \<Rightarrow> string \<Rightarrow> 'e ready option" where
  "route_condition_check name generation conditions conditionType =
     (case gm_get conditions conditionType of
        None \<Rightarrow> Some (route_pending name '' has incomplete status'' None)
      | Some condition \<Rightarrow>
          if cn_generation condition \<noteq> generation then Some (route_pending name '' has incomplete status'' None)
          else if cn_status condition \<noteq> CondTrue
          then Some (CondFalse, ''RouteRejected'', ''HTTPRoute '' @ name @ '': '' @ cn_message condition, None)
          else None)"

definition route_parent_check :: "object_meta \<Rightarrow> parent_status list observed \<Rightarrow> parent_ref \<Rightarrow> 'e ready option" where
  "route_parent_check meta current want =
     (case matching_parent_status (ob_status current) want (om_namespace meta) of
        None \<Rightarrow> Some (route_pending (om_name meta) '' has no status for the target Gateway'' None)
      | Some parent \<Rightarrow>
          first_failure (route_condition_check (om_name meta) (ob_generation current) (pa_conditions parent)) [''Accepted'', ''ResolvedRefs''])"

definition route_check :: "'e view \<Rightarrow> http_route \<Rightarrow> 'e ready option" where
  "route_check view route =
     (case vw_route view (object_key (hr_meta route)) of
        Inl err \<Rightarrow> Some (route_pending (om_name (hr_meta route)) '' is not readable yet'' (Some err))
      | Inr None \<Rightarrow> Some (route_pending (om_name (hr_meta route)) '' is not readable yet'' None)
      | Inr (Some current) \<Rightarrow>
          if ob_status current = [] then Some (route_pending (om_name (hr_meta route)) '' has no parent status yet'' None)
          else first_failure (route_parent_check (hr_meta route) current) (hr_parents route))"

subsection \<open>Gateway and ListenerSets\<close>

definition gateway_check :: "config \<Rightarrow> 'e view \<Rightarrow> 'e ready option" where
  "gateway_check c view =
     (case vw_gateway view (nsname (cf_namespace c) (cf_name c)) of
        Inl err \<Rightarrow> Some (CondUnknown, ''LookupFailed'', ''could not read target Gateway'', Some err)
      | Inr None \<Rightarrow> Some (CondUnknown, ''GatewayPending'', ''target Gateway does not exist yet'', None)
      | Inr (Some gateway) \<Rightarrow>
          (case gm_get (gs_conditions (ob_status gateway)) ''Programmed'' of
             None \<Rightarrow> Some (CondUnknown, ''GatewayPending'', ''target Gateway has not reported Programmed'', None)
           | Some programmed \<Rightarrow>
               if cn_generation programmed \<noteq> ob_generation gateway \<or> cn_status programmed = CondUnknown
               then Some (CondUnknown, ''GatewayPending'', ''target Gateway has not reported Programmed'', None)
               else if cn_status programmed \<noteq> CondTrue then Some (CondFalse, ''GatewayNotProgrammed'', cn_message programmed, None)
               else None))"

definition set_condition_check :: "string \<Rightarrow> conditions observed \<Rightarrow> string \<Rightarrow> 'e ready option" where
  "set_condition_check name current conditionType =
     (case gm_get (ob_status current) conditionType of
        None \<Rightarrow> Some (CondUnknown, ''ListenerSetPending'', ''ListenerSet '' @ name @ '' has not reported '' @ conditionType, None)
      | Some condition \<Rightarrow>
          if cn_generation condition \<noteq> ob_generation current \<or> cn_status condition = CondUnknown
          then Some (CondUnknown, ''ListenerSetPending'', ''ListenerSet '' @ name @ '' has not reported '' @ conditionType, None)
          else if cn_status condition \<noteq> CondTrue
          then Some (CondFalse, ''ListenerSetNotProgrammed'', ''ListenerSet '' @ name @ '': '' @ cn_message condition, None)
          else None)"

definition set_check :: "config \<Rightarrow> 'e view \<Rightarrow> string \<Rightarrow> 'e ready option" where
  "set_check c view name =
     (case vw_set view (nsname (cf_namespace c) name) of
        Inl err \<Rightarrow> Some (CondUnknown, ''LookupFailed'', ''could not read managed ListenerSet'', Some err)
      | Inr None \<Rightarrow> Some (CondUnknown, ''ListenerSetPending'', ''ListenerSet '' @ name @ '' does not exist yet'', None)
      | Inr (Some current) \<Rightarrow> first_failure (set_condition_check name current) [''Accepted'', ''Programmed''])"

subsection \<open>The whole check\<close>

fun object_check :: "config \<Rightarrow> 'e view \<Rightarrow> generated \<Rightarrow> 'e ready option" where
  "object_check c view (GenClient p) = policy_check view ''ClientSettingsPolicy'' (cs_meta p)"
| "object_check c view (GenProxy p) = policy_check view ''ProxySettingsPolicy'' (ps_meta p)"
| "object_check c view (GenAuth f) = filter_check view ''AuthenticationFilter'' (af_meta f)"
| "object_check c view (GenSnippets f) = filter_check view ''SnippetsFilter'' (sf_meta f)"
| "object_check c view (GenBackendTLS p) = backend_tls_check c view (bt_meta p)"
| "object_check c view (GenRoute r) = route_check view r"

definition generated_ready :: "config \<Rightarrow> 'e view \<Rightarrow> generated list \<Rightarrow> 'e ready" where
  "generated_ready c view desired =
     (case gateway_check c view of
        Some r \<Rightarrow> r
      | None \<Rightarrow>
          (case first_failure (set_check c view) (desired_listener_sets desired (cf_namespace c)) of
             Some r \<Rightarrow> r
           | None \<Rightarrow>
               (case first_failure (object_check c view) desired of
                  Some r \<Rightarrow> r
                | None \<Rightarrow> (CondTrue, ''Programmed'', ''Gateway, generated routes, filters, and policies are programmed'', None))))"

subsection \<open>Canaries follow their primary\<close>

definition delegated_pending :: "string \<Rightarrow> 'e ready" where
  "delegated_pending message = (CondUnknown, ''DelegatedRoutePending'', message, None)"

definition delegated_ready :: "'e view \<Rightarrow> string \<Rightarrow> string \<Rightarrow> 'e ready" where
  "delegated_ready view namespace primaryName =
     (case vw_ingress view (nsname namespace primaryName) of
        Inl err \<Rightarrow> (CondUnknown, ''LookupFailed'', ''could not read primary Ingress'', Some err)
      | Inr None \<Rightarrow> delegated_pending (''primary Ingress '' @ primaryName @ '' does not exist'')
      | Inr (Some generation) \<Rightarrow>
          (case vw_translation view (nsname namespace primaryName) of
             Inl err \<Rightarrow> (CondUnknown, ''LookupFailed'', ''could not read primary IngressTranslation'', Some err)
           | Inr None \<Rightarrow> delegated_pending (''primary IngressTranslation '' @ primaryName @ '' does not exist yet'')
           | Inr (Some translation) \<Rightarrow>
               if tr_generation translation \<noteq> generation
               then delegated_pending (''primary IngressTranslation '' @ primaryName @ '' has not observed generation '' @ itoa generation)
               else (case gm_get (tr_conditions translation) ''Ready'' of
                       None \<Rightarrow> delegated_pending (''primary IngressTranslation '' @ primaryName @ '' has incomplete readiness status'')
                     | Some ready \<Rightarrow>
                         if cn_generation ready \<noteq> generation
                         then delegated_pending (''primary IngressTranslation '' @ primaryName @ '' has incomplete readiness status'')
                         else (case cn_status ready of
                                 CondTrue \<Rightarrow> (CondTrue, ''Delegated'', ''routing is consolidated into Ready primary Ingress '' @ primaryName, None)
                               | CondFalse \<Rightarrow> (CondFalse, ''DelegatedRouteNotReady'',
                                   ''primary IngressTranslation '' @ primaryName @ '' is not Ready: '' @ cn_message ready, None)
                               | CondUnknown \<Rightarrow> delegated_pending
                                   (''primary IngressTranslation '' @ primaryName @ '' is pending: '' @ cn_message ready)))))"

subsection \<open>The status of a translation\<close>

definition TranslationStatusReady :: string where "TranslationStatusReady = ''ready''"
definition TranslationStatusPending :: string where "TranslationStatusPending = ''pending''"
definition TranslationStatusFailed :: string where "TranslationStatusFailed = ''failed''"

definition translation_status_label_value :: "cond_status \<Rightarrow> string" where
  "translation_status_label_value ready =
     (if ready = CondTrue then TranslationStatusReady
      else if ready = CondUnknown then TranslationStatusPending else TranslationStatusFailed)"

definition generated_references :: "generated list \<Rightarrow> resource_reference list" where
  "generated_references objects =
     map (\<lambda>g. \<lparr>rf_api_version = gen_api_version g, rf_kind = gen_kind g, rf_namespace = om_namespace (gen_meta g),
       rf_name = om_name (gen_meta g)\<rparr>) objects"

fun severity_text :: "severity \<Rightarrow> string" where
  "severity_text SeverityError = ''Error''"
| "severity_text SeverityWarning = ''Warning''"

definition status_issues :: "issue list \<Rightarrow> translation_issue list" where
  "status_issues issues =
     map (\<lambda>i. \<lparr>ti_severity = severity_text (is_severity i), ti_field = is_field i, ti_message = is_message i\<rparr>) issues"

text \<open>\<^verbatim>\<open>apimeta.SetStatusCondition\<close>, without transition times: the condition replaces the one of its type.\<close>

definition set_condition :: "string \<Rightarrow> condition \<Rightarrow> conditions \<Rightarrow> conditions" where
  "set_condition conditionType condition conditions = gm_put conditionType condition conditions"

definition failed_conditions :: "int \<Rightarrow> conditions \<Rightarrow> conditions" where
  "failed_conditions generation conditions =
     set_condition ''Ready'' \<lparr>cn_status = CondFalse, cn_reason = ''TranslationFailed'',
         cn_message = ''generated routing has been removed'', cn_generation = generation\<rparr>
       (set_condition ''Translated'' \<lparr>cn_status = CondFalse, cn_reason = ''UnsupportedIngress'',
         cn_message = ''one or more Ingress fields cannot be reproduced faithfully'', cn_generation = generation\<rparr> conditions)"

definition translated_conditions :: "int \<Rightarrow> cond_status \<Rightarrow> string \<Rightarrow> string \<Rightarrow> conditions \<Rightarrow> conditions" where
  "translated_conditions generation status reason message conditions =
     set_condition ''Ready'' \<lparr>cn_status = status, cn_reason = reason, cn_message = message, cn_generation = generation\<rparr>
       (set_condition ''Translated'' \<lparr>cn_status = CondTrue, cn_reason = ''TranslationSucceeded'',
         cn_message = ''Ingress was translated without fatal compatibility issues'', cn_generation = generation\<rparr> conditions)"

text \<open>
  The status and the label \<^verbatim>\<open>reconcileTranslationStatus\<close> computes from the conditions the API server
  returned for the applied IngressTranslation, or the error of a lookup.
\<close>

definition compute_translation_status ::
  "config \<Rightarrow> 'e view \<Rightarrow> ingress \<Rightarrow> plan \<Rightarrow> generated list \<Rightarrow> conditions \<Rightarrow> 'e + translation_status \<times> string" where
  "compute_translation_status c view ing p desired before =
     (let status = (\<lambda>conditions. \<lparr>tr_generation = ing_generation ing, tr_conditions = conditions,
            tr_resources = generated_references desired, tr_issues = status_issues (pl_issues p)\<rparr>)
      in if plan_fatal p then Inr (status (failed_conditions (ing_generation ing) before), TranslationStatusFailed)
         else (case (if pl_delegated p \<noteq> [] then delegated_ready view (ing_namespace ing) (pl_delegated p)
                     else generated_ready c view desired) of
                 (_, _, _, Some err) \<Rightarrow> Inl err
               | (ready, reason, message, None) \<Rightarrow>
                   Inr (status (translated_conditions (ing_generation ing) ready reason message before),
                        translation_status_label_value ready)))"

subsection \<open>Addresses\<close>

definition ingress_address :: "address \<Rightarrow> lb_ingress" where
  "ingress_address a =
     (if ad_type a = Some ''IPAddress'' then \<lparr>lb_ip = ad_value a, lb_hostname = []\<rparr>
      else \<lparr>lb_ip = [], lb_hostname = ad_value a\<rparr>)"

text \<open>
  What \<^verbatim>\<open>mirrorIngressStatus\<close> writes: an error, nothing, or the addresses of the Gateway, which it
  reads once more after the check.
\<close>

definition mirrored_status ::
  "config \<Rightarrow> 'e view \<Rightarrow> 'e + gateway_status observed option \<Rightarrow> ingress \<Rightarrow> generated list \<Rightarrow> 'e + lb_ingress list option" where
  "mirrored_status c view later ing desired =
     (case generated_ready c view desired of
        (_, _, _, Some err) \<Rightarrow> Inl err
      | (ready, _, _, None) \<Rightarrow>
          if ready \<noteq> CondTrue then Inr None
          else (case later of
                  Inl err \<Rightarrow> Inl err
                | Inr None \<Rightarrow> Inr None
                | Inr (Some gateway) \<Rightarrow>
                    (case gm_get (gs_conditions (ob_status gateway)) ''Programmed'' of
                       None \<Rightarrow> Inr None
                     | Some programmed \<Rightarrow>
                         if cn_generation programmed \<noteq> ob_generation gateway \<or> cn_status programmed \<noteq> CondTrue \<or>
                            gs_addresses (ob_status gateway) = []
                         then Inr None
                         else let addresses = map ingress_address (gs_addresses (ob_status gateway))
                              in if ing_lb ing = addresses then Inr None else Inr (Some addresses))))"

end
