(* ===== verification/Canary.thy ===== *)
theory Canary
  imports Config
begin

text \<open>
  \<^verbatim>\<open>internal/controller/canary.go\<close>: which primary Ingress each canary Ingress belongs to. A route
  footprint is the hostname and the path around a NUL byte, as in the code.
\<close>

definition ingressNginxCanaryAnnotation :: string where
  "ingressNginxCanaryAnnotation = ''nginx.ingress.kubernetes.io/canary''"

definition is_canary_ingress :: "ingress \<Rightarrow> bool" where
  "is_canary_ingress ing = annotation_bool (annotation ing ingressNginxCanaryAnnotation)"

definition footprint :: "string \<Rightarrow> string \<Rightarrow> string" where
  "footprint host path = host @ [CHR 0x00] @ path"

definition rule_footprints :: "ingress_rule \<Rightarrow> string list" where
  "rule_footprints rule =
     (case ir_http rule of
        None \<Rightarrow> []
      | Some paths \<Rightarrow>
          map (\<lambda>p. footprint (to_lower (trim_space (ir_host rule))) (if hp_path p = [] then ''/'' else hp_path p)) paths)"

definition ingress_spec_route_footprints :: "ingress \<Rightarrow> string list" where
  "ingress_spec_route_footprints ing =
     remdups (concat (map rule_footprints (ing_rules ing)) @
       (case ing_default_backend ing of None \<Rightarrow> [] | Some _ \<Rightarrow> [footprint [] ''/'']))"

definition footprints_contain :: "string list \<Rightarrow> string list \<Rightarrow> bool" where
  "footprints_contain primary canary = list_all (\<lambda>f. f \<in> set primary) canary"

definition older :: "ingress \<Rightarrow> ingress \<Rightarrow> bool" where
  "older left right =
     (if ing_created left = ing_created right then ing_name left < ing_name right
      else ing_created left < ing_created right)"

interpretation older: key_order "\<lambda>ing. (ing_created ing, ing_name ing)" older
  by unfold_locales (auto simp: older_def)

definition canary_candidates :: "ingress list \<Rightarrow> ingress \<Rightarrow> ingress list" where
  "canary_candidates ingresses canary =
     filter (\<lambda>primary. footprints_contain (ingress_spec_route_footprints primary) (ingress_spec_route_footprints canary))
       (filter (\<lambda>ing. \<not> is_canary_ingress ing) ingresses)"

definition assign_canary :: "ingress list \<Rightarrow> ingress \<Rightarrow> (string, string) gomap \<Rightarrow> (string, string) gomap" where
  "assign_canary ingresses canary result =
     (if \<not> is_canary_ingress canary then result
      else if ingress_spec_route_footprints canary = [] then result
      else (case sort_slice older (canary_candidates ingresses canary) of
              [] \<Rightarrow> result
            | primary # _ \<Rightarrow> gm_put (ing_name canary) (ing_name primary) result))"

definition canary_assignments :: "ingress list \<Rightarrow> (string, string) gomap" where
  "canary_assignments ingresses = fold (assign_canary ingresses) ingresses []"

subsection \<open>What an assignment says\<close>

text \<open>
  A primary Ingress that may take a canary: it is not a canary itself and it declares every
  hostname and path of the canary.
\<close>

definition eligible :: "ingress list \<Rightarrow> ingress \<Rightarrow> ingress \<Rightarrow> bool" where
  "eligible ings canary primary \<longleftrightarrow> primary \<in> set ings \<and> \<not> is_canary_ingress primary \<and>
     set (ingress_spec_route_footprints canary) \<subseteq> set (ingress_spec_route_footprints primary)"

lemma canary_candidates_set: "primary \<in> set (canary_candidates ings canary) \<longleftrightarrow> eligible ings canary primary"
  by (auto simp: canary_candidates_def footprints_contain_def eligible_def list_all_iff)

definition oldest_eligible :: "ingress list \<Rightarrow> ingress \<Rightarrow> ingress \<Rightarrow> bool" where
  "oldest_eligible ings canary primary \<longleftrightarrow> eligible ings canary primary \<and>
     (\<forall>other. eligible ings canary other \<longrightarrow> \<not> older other primary)"

definition assignable :: "ingress \<Rightarrow> bool" where
  "assignable canary \<longleftrightarrow> is_canary_ingress canary \<and> ingress_spec_route_footprints canary \<noteq> []"

lemma assign_canary_cases:
  "(assign_canary ings canary result = result \<and> (\<not> assignable canary \<or> (\<nexists>p. eligible ings canary p))) \<or>
   (\<exists>p. assignable canary \<and> oldest_eligible ings canary p \<and>
      assign_canary ings canary result = gm_put (ing_name canary) (ing_name p) result)"
proof (cases "sort_slice older (canary_candidates ings canary)")
  case Nil
  then have "\<nexists>p. eligible ings canary p" using canary_candidates_set [of _ ings canary] by fastforce
  with Nil show ?thesis by (simp add: assign_canary_def)
next
  case (Cons p ps)
  then have "p \<in> set (canary_candidates ings canary)" by (metis list.set_intros(1) set_sort_slice)
  moreover have "\<not> older other p" if "eligible ings canary other" for other
    using older.sort_slice_head_least [OF Cons] that by (simp add: canary_candidates_set)
  ultimately have "oldest_eligible ings canary p" by (simp add: oldest_eligible_def canary_candidates_set)
  with Cons show ?thesis by (auto simp: assign_canary_def assignable_def)
qed

lemma fold_assign:
  assumes "distinct (map ing_name cs)" and "c \<in> set cs" and "ing_name c \<notin> set (gm_keys m)"
  shows "(gm_get (fold (assign_canary ings) cs m) (ing_name c) = None \<and> (\<not> assignable c \<or> (\<nexists>p. eligible ings c p))) \<or>
    (\<exists>p. assignable c \<and> oldest_eligible ings c p \<and> gm_get (fold (assign_canary ings) cs m) (ing_name c) = Some (ing_name p))"
proof -
  have miss: "gm_get (fold (assign_canary ings) ds m) n = gm_get m n" if "n \<notin> ing_name ` set ds" for ds m n
    using that
  proof (induction ds arbitrary: m)
    case (Cons d ds)
    then show ?case using assign_canary_cases [of ings d m] by (auto simp: gomap_simps)
  qed simp
  obtain as bs where cs: "cs = as @ c # bs" using assms(2) by (meson split_list)
  then have "ing_name c \<notin> ing_name ` set as" "ing_name c \<notin> ing_name ` set bs" using assms(1) by auto
  moreover have "gm_get m (ing_name c) = None" using assms(3) by (simp add: map_of_eq_None_iff)
  ultimately show ?thesis
    using assign_canary_cases [of ings c "fold (assign_canary ings) as m"] by (auto simp: cs miss gomap_simps)
qed

text \<open>
  C35. A canary Ingress is assigned exactly when some primary Ingress declares all of its hostnames
  and paths, and then to the oldest such primary, the first by name among equally old ones.
\<close>

theorem canary_assigned_to_oldest:
  assumes "distinct (map ing_name ings)" and "canary \<in> set ings"
  shows "(gm_get (canary_assignments ings) (ing_name canary) = None \<and> (\<not> assignable canary \<or> (\<nexists>p. eligible ings canary p))) \<or>
    (\<exists>p. assignable canary \<and> oldest_eligible ings canary p \<and> gm_get (canary_assignments ings) (ing_name canary) = Some (ing_name p))"
  unfolding canary_assignments_def by (rule fold_assign [OF assms]) simp

definition sample_route :: "string \<Rightarrow> int \<Rightarrow> (string \<times> string) list \<Rightarrow> ingress" where
  "sample_route name created annotations =
     (sample_ingress ''app'' ''a.example'' ''tls'')\<lparr>ing_name := name, ing_created := created, ing_annotations := annotations,
       ing_rules := [\<lparr>ir_host = ''a.example'', ir_http = Some [\<lparr>hp_path = ''/'', hp_type = None,
         hp_backend = \<lparr>be_service = None\<rparr>\<rparr>]\<rparr>]\<rparr>"

definition sample_canary :: ingress where
  "sample_canary = sample_route ''canary'' 5 [(ingressNginxCanaryAnnotation, ''true'')]"

definition sample_namespace :: "ingress list" where
  "sample_namespace = [sample_route ''new'' 9 [], sample_canary, sample_route ''old'' 2 []]"

lemma sample_namespace_facts:
  "distinct (map ing_name sample_namespace)" "sample_canary \<in> set sample_namespace" "ing_name sample_canary = ''canary''"
  by (simp_all add: sample_namespace_def sample_canary_def sample_route_def)

lemma sample_assignments: "canary_assignments sample_namespace = [(''canary'', ''old'')]"
  by code_simp

theorem canary_assigned_to_oldest_witness:
  "\<exists>p. oldest_eligible sample_namespace sample_canary p \<and> ing_name p = ''old''"
  using canary_assigned_to_oldest [OF sample_namespace_facts(1,2)]
  by (auto simp: sample_assignments sample_namespace_facts(3))

end
