(* ===== verification/Watches.thy ===== *)
theory Watches
  imports Observed Canary TlsHosts
begin

text \<open>
  Which Ingresses are reconciled when something else changes, from
  \<^verbatim>\<open>internal/controller/ingress_controller.go\<close> and \<^verbatim>\<open>managed_gateway.go\<close>. A request is the name of
  an Ingress; the lists of the API server are arguments, \<^theory_text>\<open>None\<close> when the list fails.
\<close>

definition globalReconcileKey :: nsname where
  "globalReconcileKey = nsname [] ''ingress-nginx-gateway-bridge-global-sync''"

type_synonym lister = "string \<Rightarrow> ingress list option"

definition request_less :: "nsname \<Rightarrow> nsname \<Rightarrow> bool" where
  "request_less a b \<longleftrightarrow> nn_string a < nn_string b"

interpretation requests: key_order nn_string request_less
  by unfold_locales (simp add: request_less_def)

definition selected_requests :: "config \<Rightarrow> ingress list \<Rightarrow> nsname list" where
  "selected_requests c ings = map ing_key (filter (selected c) ings)"

definition ingress_references_service :: "ingress \<Rightarrow> string \<Rightarrow> bool" where
  "ingress_references_service ing service =
     ((case ing_default_backend ing of
         None \<Rightarrow> False
       | Some b \<Rightarrow> (case be_service b of None \<Rightarrow> False | Some s \<Rightarrow> sb_name s = service)) \<or>
      list_ex (\<lambda>rule. case ir_http rule of
          None \<Rightarrow> False
        | Some paths \<Rightarrow> list_ex (\<lambda>p. case be_service (hp_backend p) of None \<Rightarrow> False | Some s \<Rightarrow> sb_name s = service) paths)
        (ing_rules ing))"

definition service_to_ingresses :: "config \<Rightarrow> lister \<Rightarrow> nsname \<Rightarrow> nsname list" where
  "service_to_ingresses c listed service =
     (case listed (nn_namespace service) of
        None \<Rightarrow> []
      | Some ings \<Rightarrow>
          if list_ex (\<lambda>ing. selected c ing \<and> ingress_references_service ing (nn_name service)) ings
          then selected_requests c ings else [])"

definition config_map_to_ingresses :: "lister \<Rightarrow> nsname \<Rightarrow> nsname list" where
  "config_map_to_ingresses listed configMap =
     (case listed (nn_namespace configMap) of
        None \<Rightarrow> []
      | Some ings \<Rightarrow>
          map ing_key (filter (\<lambda>ing. let reference = trim_space (annotation ing annAuthProxySetHeaders)
            in reference = nn_name configMap \<or> reference = nn_namespace configMap @ ''/'' @ nn_name configMap) ings))"

definition ingress_to_namespace_ingresses :: "config \<Rightarrow> lister \<Rightarrow> nsname \<Rightarrow> nsname list" where
  "ingress_to_namespace_ingresses c listed ingress =
     (case listed (nn_namespace ingress) of None \<Rightarrow> [] | Some ings \<Rightarrow> selected_requests c ings)"

definition all_selected_ingresses :: "config \<Rightarrow> ingress list option \<Rightarrow> nsname list" where
  "all_selected_ingresses c ings =
     (case ings of None \<Rightarrow> [] | Some ings \<Rightarrow> sort_slice request_less (selected_requests c ings))"

definition gateway_to_ingresses :: "config \<Rightarrow> ingress list option \<Rightarrow> nsname \<Rightarrow> nsname list" where
  "gateway_to_ingresses c ings gateway =
     (if nn_namespace gateway \<noteq> cf_namespace c \<or> nn_name gateway \<noteq> cf_name c then []
      else all_selected_ingresses c ings @ [globalReconcileKey])"

definition managed_grant_to_ingresses :: "config \<Rightarrow> ingress list option \<Rightarrow> object_meta \<Rightarrow> nsname list" where
  "managed_grant_to_ingresses c ings meta =
     (if gm_or [] (om_labels meta) ManagedByLabel \<noteq> ControllerName \<or>
         gm_or [] (om_labels meta) GatewayLabel \<noteq> gateway_label_value (cf_namespace c) (cf_name c) then []
      else all_selected_ingresses c ings @ [globalReconcileKey])"

definition managed_listener_set_to_ingresses :: "config \<Rightarrow> ingress list option \<Rightarrow> object_meta \<Rightarrow> nsname list" where
  "managed_listener_set_to_ingresses c ings meta =
     (if om_namespace meta \<noteq> cf_namespace c then [] else managed_grant_to_ingresses c ings meta)"

text \<open>The requests of the canaries of a primary, sorted, so that the order of the map is lost.\<close>

definition translation_to_canaries :: "config \<Rightarrow> lister \<Rightarrow> nsname \<Rightarrow> nsname list" where
  "translation_to_canaries c listed translation =
     (case listed (nn_namespace translation) of
        None \<Rightarrow> []
      | Some ings \<Rightarrow>
          sort_slice request_less (map (\<lambda>(canary, _). nsname (nn_namespace translation) canary)
            (filter (\<lambda>(_, primary). primary = nn_name translation)
              (canary_assignments (filter (\<lambda>ing. selected c ing \<and> \<not> ing_deleting ing) ings)))))"

subsection \<open>Listeners that moved\<close>

definition ingress_affected :: "string list \<Rightarrow> string list \<Rightarrow> ingress \<Rightarrow> bool" where
  "ingress_affected tlsHosts changed ing = list_ex (\<lambda>host. host \<in> set changed) (route_tls_hostnames ing tlsHosts)"

text \<open>The channel holds up to \<open>capacity\<close> events; a full channel drops the event.\<close>

definition push_affected :: "nat \<Rightarrow> nsname \<Rightarrow> nsname list \<Rightarrow> nsname list" where
  "push_affected capacity key channel = (if length channel < capacity then channel @ [key] else channel)"

definition affectedCapacity :: nat where
  "affectedCapacity = 1024"

definition enqueue_affected_ingresses :: "ingress list \<Rightarrow> string list \<Rightarrow> string list \<Rightarrow> nsname list \<Rightarrow> nsname list" where
  "enqueue_affected_ingresses ings tlsHosts changed channel =
     (if changed = [] then channel
      else fold (\<lambda>ing channel. if ingress_affected tlsHosts changed ing then push_affected affectedCapacity (ing_key ing) channel else channel)
             ings channel)"

subsection \<open>Overlapping routes\<close>

record path_scan =
  fs_prints :: "string list"
  fs_first :: "string option"
  fs_paths :: "string list"

text \<open>One rule: its footprints, and the paths of the first host seen.\<close>

definition scan_rule :: "ingress_rule \<Rightarrow> path_scan \<Rightarrow> path_scan" where
  "scan_rule rule st =
     (case ir_http rule of
        None \<Rightarrow> st
      | Some paths \<Rightarrow>
          let host = to_lower (trim_space (ir_host rule));
              first = (case fs_first st of None \<Rightarrow> host | Some h \<Rightarrow> h);
              values = map (\<lambda>p. if hp_path p = [] then ''/'' else hp_path p) paths
          in \<lparr>fs_prints = fs_prints st @ map (footprint host) values, fs_first = Some first,
              fs_paths = fs_paths st @ (if host = first then values else [])\<rparr>)"

definition alias_hosts :: "ingress \<Rightarrow> string list" where
  "alias_hosts ing =
     filter (\<lambda>alias. alias \<noteq> []) (map (\<lambda>item. to_lower (trim_space item)) (split_on CHR '','' (annotation ing annServerAlias)))"

definition ingress_route_footprints :: "ingress \<Rightarrow> string list" where
  "ingress_route_footprints ing =
     (let scan = fold scan_rule (ing_rules ing) \<lparr>fs_prints = [], fs_first = None, fs_paths = []\<rparr> in
      remdups (fs_prints scan @ (case ing_default_backend ing of None \<Rightarrow> [] | Some _ \<Rightarrow> [footprint [] ''/'']) @
        concat (map (\<lambda>alias. map (footprint alias) (fs_paths scan)) (alias_hosts ing))))"

definition requires_settings_snippets :: "config \<Rightarrow> ('e + ingress list) \<Rightarrow> ingress \<Rightarrow> string list \<Rightarrow> 'e + bool" where
  "requires_settings_snippets c list_result ing excluded =
     (case list_result of
        Inl err \<Rightarrow> Inl err
      | Inr ings \<Rightarrow>
          Inr (list_ex (\<lambda>candidate.
            \<not> (ing_name candidate = ing_name ing \<or> ing_deleting candidate \<or> \<not> selected c candidate) \<and>
            ing_name candidate \<notin> set excluded \<and>
            list_ex (\<lambda>f. f \<in> set (ingress_route_footprints ing)) (ingress_route_footprints candidate)) ings))"

subsection \<open>Who is woken up\<close>

lemma push_affected_room: "length channel < capacity \<Longrightarrow> push_affected capacity key channel = channel @ [key]"
  by (simp add: push_affected_def)

lemma fold_push:
  "length channel + length (filter P ings) \<le> affectedCapacity \<Longrightarrow>
   fold (\<lambda>ing channel. if P ing then push_affected affectedCapacity (ing_key ing) channel else channel) ings channel =
     channel @ map ing_key (filter P ings)"
  by (induction ings arbitrary: channel) (auto simp: push_affected_def)

text \<open>The raw hostnames of an Ingress's rules and aliases.\<close>

definition named_hosts :: "ingress \<Rightarrow> string set" where
  "named_hosts ing = (\<lambda>raw. normal_host raw) ` (ir_host ` set (ing_rules ing) \<union> set (split_csv (annotation ing annServerAlias)))"

lemma ingress_affected_iff:
  "ingress_affected T changed ing \<longleftrightarrow> (\<exists>host \<in> named_hosts ing. matching_tls_host host T \<noteq> [] \<and> matching_tls_host host T \<in> set changed)"
  unfolding ingress_affected_def list_ex_iff route_tls_hostnames_set named_hosts_def by blast

text \<open>
  Unless the channel overflows, exactly the Ingresses with a hostname served by a listener that
  moved are pushed to the front of the queue, in order and once each; a full channel only drops the
  last ones.
\<close>

theorem affected_ingresses_pushed:
  "if changed \<noteq> [] \<and> length channel + length (filter (ingress_affected T changed) ings) \<le> affectedCapacity
   then enqueue_affected_ingresses ings T changed channel = channel @ map ing_key (filter (ingress_affected T changed) ings)
   else list_all (\<lambda>key. key \<in> set channel \<or> list_ex (\<lambda>ing. ing_key ing = key \<and> ingress_affected T changed ing) ings)
     (enqueue_affected_ingresses ings T changed channel)"
proof -
  have "set (fold (\<lambda>ing channel. if P ing then push_affected affectedCapacity (ing_key ing) channel else channel) ings channel) \<subseteq>
      set channel \<union> ing_key ` {ing \<in> set ings. P ing}" for P channel
    by (induction ings arbitrary: channel) (fastforce simp: push_affected_def split: if_splits)+
  from this [of "ingress_affected T changed" channel] show ?thesis
    using fold_push [of channel "ingress_affected T changed" ings]
    by (fastforce simp: enqueue_affected_ingresses_def list_all_iff list_ex_iff)
qed

text \<open>
  A change of an IngressTranslation wakes up exactly the canaries assigned to the Ingress of
  its name, in an order that does not depend on Go's map iteration.
\<close>

theorem translation_wakes_its_canaries:
  "case listed (nn_namespace t) of
     None \<Rightarrow> translation_to_canaries c listed t = []
   | Some ings \<Rightarrow>
       set (translation_to_canaries c listed t) =
         {nsname (nn_namespace t) canary | canary.
            gm_get (canary_assignments (filter (\<lambda>ing. selected c ing \<and> \<not> ing_deleting ing) ings)) canary = Some (nn_name t)} \<and>
       sorted (map nn_string (translation_to_canaries c listed t))"
proof (cases "listed (nn_namespace t)")
  case (Some ings)
  let ?m = "canary_assignments (filter (\<lambda>ing. selected c ing \<and> \<not> ing_deleting ing) ings)"
  have "gomap_ok (fold (assign_canary is) cs m)" if "gomap_ok m" for "is" cs and m :: "(string, string) gomap"
    using that by (induction cs arbitrary: m) (auto simp: assign_canary_def split: list.split)
  then have ok: "gomap_ok ?m" by (simp add: canary_assignments_def)
  have "set (translation_to_canaries c listed t) = (\<lambda>(canary, _). nsname (nn_namespace t) canary) ` {e \<in> set ?m. snd e = nn_name t}"
    by (auto simp: translation_to_canaries_def Some)
  also have "\<dots> = {nsname (nn_namespace t) canary | canary. gm_get ?m canary = Some (nn_name t)}"
    using gomap_ok_in [OF ok] by (auto simp: image_iff)
  finally show ?thesis
    using requests.sorted_keys by (simp add: Some) (simp add: translation_to_canaries_def Some)
qed (simp add: translation_to_canaries_def)

end
