(* ===== verification/Netip.thy ===== *)
theory Netip
  imports Strconv
begin

text \<open>
  \<^verbatim>\<open>net/netip.ParsePrefix\<close> as far as the program reads its result: whether the text is a valid
  CIDR, of which address family, and how long the prefix is.
\<close>

definition is_hex_digit :: "char \<Rightarrow> bool" where
  "is_hex_digit c \<longleftrightarrow> is_digit c \<or> (97 \<le> code c \<and> code c \<le> 102) \<or> (65 \<le> code c \<and> code c \<le> 70)"

definition v4_field :: "string \<Rightarrow> bool" where
  "v4_field f \<longleftrightarrow> f \<noteq> [] \<and> list_all is_digit f \<and> (f = ''0'' \<or> hd f \<noteq> CHR ''0'') \<and> nat_of_digits f \<le> 255"

definition valid_v4 :: "string \<Rightarrow> bool" where
  "valid_v4 s \<longleftrightarrow> (let fields = split_on CHR ''.'' s in length fields = 4 \<and> list_all v4_field fields)"

text \<open>The first \<open>i\<close> bytes are read; \<open>ell\<close> tells whether a double colon was seen.\<close>

definition v6_finish :: "nat \<Rightarrow> bool \<Rightarrow> bool" where
  "v6_finish i ell = (if i < 16 then ell else \<not> ell)"

function v6_loop :: "nat \<Rightarrow> bool \<Rightarrow> string \<Rightarrow> bool" where
  "v6_loop i ell s =
     (if 16 \<le> i then s = [] \<and> \<not> ell
      else if takeWhile is_hex_digit s = [] \<or> 4 < length (takeWhile is_hex_digit s) then False
      else (case dropWhile is_hex_digit s of
              [] \<Rightarrow> v6_finish (i + 2) ell
            | c # cs \<Rightarrow>
                if c = CHR ''.'' then (ell \<or> i = 12) \<and> i + 4 \<le> 16 \<and> valid_v4 s \<and> v6_finish (i + 4) ell
                else if c \<noteq> CHR '':'' \<or> cs = [] then False
                else if hd cs = CHR '':'' then
                  (if ell then False
                   else if tl cs = [] then v6_finish (i + 2) True
                   else v6_loop (i + 2) True (tl cs))
                else v6_loop (i + 2) ell cs))"
  by pat_completeness auto
termination by (relation "measure (\<lambda>(i, ell, s). 16 - i)") auto

declare v6_loop.simps [simp del]

definition valid_v6 :: "string \<Rightarrow> bool" where
  "valid_v6 s =
     (if has_prefix s ''::'' then (drop 2 s = [] \<or> v6_loop 0 True (drop 2 s)) else v6_loop 0 False s)"

text \<open>The family of a valid address without a zone: \<^theory_text>\<open>True\<close> for IPv6.\<close>

definition parse_addr :: "string \<Rightarrow> bool option" where
  "parse_addr s =
     (case dropWhile (\<lambda>c. c \<notin> {CHR ''.'', CHR '':'', CHR ''%''}) s of
        [] \<Rightarrow> None
      | c # _ \<Rightarrow>
          if c = CHR ''.'' then (if valid_v4 s then Some False else None)
          else if c = CHR '':'' \<and> CHR ''%'' \<notin> set s then (if valid_v6 s then Some True else None)
          else None)"

definition cut_last :: "char \<Rightarrow> string \<Rightarrow> (string \<times> string) option" where
  "cut_last c s = (case cut_at c (rev s) of None \<Rightarrow> None | Some (a, b) \<Rightarrow> Some (rev b, rev a))"

definition parse_prefix :: "string \<Rightarrow> (bool \<times> nat) option" where
  "parse_prefix s =
     (case cut_last CHR ''/'' s of
        None \<Rightarrow> None
      | Some (addr, bits) \<Rightarrow>
          (case parse_addr addr of
             None \<Rightarrow> None
           | Some is6 \<Rightarrow>
               if 1 < length bits \<and> \<not> (CHR ''1'' \<le> hd bits \<and> hd bits \<le> CHR ''9'') then None
               else (case atoi bits of
                       None \<Rightarrow> None
                     | Some n \<Rightarrow> if n < 0 \<or> (if is6 then 128 else 32) < n then None else Some (is6, nat n))))"

end
