(* ===== verification/Checks.thy ===== *)
theory Checks
  imports TlsHosts Netip
begin

text \<open>
  The parts of \<^verbatim>\<open>internal/translator/translate.go\<close> that only accept or refuse: unknown
  annotations, source ranges, canary headers, durations, sizes and generated rewrites. The
  regular expressions of the file are the predicates they describe.
\<close>

subsection \<open>Patterns\<close>

definition digits_unit :: "string list \<Rightarrow> string \<Rightarrow> bool" where
  "digits_unit units s \<longleftrightarrow>
     (let d = takeWhile is_digit s in 1 \<le> length d \<and> length d \<le> 4 \<and> dropWhile is_digit s \<in> set ([] # units))"

definition nginxSizePattern :: "string \<Rightarrow> bool" where
  "nginxSizePattern = digits_unit [''k'', ''m'', ''g'']"

definition nginxDurationPattern :: "string \<Rightarrow> bool" where
  "nginxDurationPattern = digits_unit [''ms'', ''s'', ''m'', ''h'']"

definition nginxAuthMethodPattern :: "string \<Rightarrow> bool" where
  "nginxAuthMethodPattern s \<longleftrightarrow>
     s \<in> set [''GET'', ''HEAD'', ''POST'', ''PUT'', ''PATCH'', ''DELETE'', ''CONNECT'', ''OPTIONS'', ''TRACE'']"

text \<open>\<^verbatim>\<open>MatchString\<close> of a character class: some character of it occurs.\<close>

definition unsafe_char :: "char \<Rightarrow> bool" where
  "unsafe_char c \<longleftrightarrow> c \<in> {CHR 0x0D, CHR 0x0A, CHR '';'', CHR ''{'', CHR ''}''}"

definition nginxUnsafePattern :: "string \<Rightarrow> bool" where
  "nginxUnsafePattern s \<longleftrightarrow> list_ex unsafe_char s"

definition blanks :: string where
  "blanks = [CHR '' '', CHR 0x09]"

text \<open>\<^verbatim>\<open>nginxVariablePattern.ReplaceAllString(s, "_")\<close>.\<close>

definition variable_name :: "string \<Rightarrow> string" where
  "variable_name s = map (\<lambda>c. if is_lower c \<or> is_digit c \<or> c = CHR ''_'' then c else CHR ''_'') s"

subsection \<open>Annotations without a translation\<close>

definition check_unknown_annotations :: "ingress \<Rightarrow> bool \<Rightarrow> issue list" where
  "check_unknown_annotations ing strict =
     concat (map (\<lambda>key.
       if \<not> has_prefix key annotationPrefix then []
       else if key \<in> set knownAnnotations then []
       else [\<lparr>is_severity = (if strict then SeverityError else SeverityWarning), is_field = key,
              is_message = ''annotation has no declared compatibility translation''\<rparr>]) (gm_keys (ing_annotations ing)))"

subsection \<open>Source ranges\<close>

definition invalid_cidr_message :: "string \<Rightarrow> string" where
  "invalid_cidr_message value = ''whitelist-source-range contains invalid CIDR '' @ quote value"

text \<open>Which families are left unrestricted, or the first value that is no CIDR.\<close>

fun source_ranges :: "bool \<Rightarrow> bool \<Rightarrow> string list \<Rightarrow> string + bool \<times> bool" where
  "source_ranges v4 v6 [] = Inr (v4, v6)"
| "source_ranges v4 v6 (raw # rest) =
     (let value = trim_space raw in
      case parse_prefix value of
        None \<Rightarrow> Inl value
      | Some (is6, bits) \<Rightarrow>
          if \<not> is6 \<and> bits = 0 then source_ranges True v6 rest
          else if is6 \<and> bits = 0 then source_ranges v4 True rest
          else source_ranges v4 v6 rest)"

definition validate_whitelist_source_range :: "ingress \<Rightarrow> issue list" where
  "validate_whitelist_source_range ing =
     (case gm_get (ing_annotations ing) annWhitelistSourceRange of
        None \<Rightarrow> []
      | Some raw \<Rightarrow>
          (case source_ranges False False (split_on CHR '','' raw) of
             Inl value \<Rightarrow> [error_issue annWhitelistSourceRange (invalid_cidr_message value)]
           | Inr (v4, v6) \<Rightarrow>
               if v4 \<and> v6 then []
               else [error_issue annWhitelistSourceRange
                 ''whitelist-source-range must allow all IPv4 and IPv6 source addresses; source filtering is not supported'']))"

subsection \<open>Canaries\<close>

definition header_canary_match :: "strmap \<Rightarrow> header_match option \<times> issue list" where
  "header_canary_match annotations =
     (let header = trim_space (gm_or [] annotations annCanaryByHeader);
          value = trim_space (gm_or [] annotations annCanaryByHeaderValue) in
      if header = [] \<or> value = [] then
        (None, [error_issue annCanary
           ''only header/value canaries are currently supported; both canary-by-header and canary-by-header-value are required''])
      else if \<not> valid_header_name header then (None, [error_issue annCanaryByHeader ''invalid HTTP header name''])
      else (Some \<lparr>hm_name = header, hm_value = value\<rparr>, []))"

definition validate_canary :: "ingress \<Rightarrow> issue list" where
  "validate_canary ing =
     (if \<not> parse_bool (annotation ing annCanary) then []
      else snd (header_canary_match (ing_annotations ing)) @
        (case ing_default_backend ing of
           None \<Rightarrow> []
         | Some _ \<Rightarrow> [error_issue ''spec.defaultBackend'' ''a canary cannot be used as a catch-all default backend'']))"

text \<open>A canary takes every annotation but its own three from its primary Ingress.\<close>

definition inherit_annotation :: "strmap \<Rightarrow> string \<Rightarrow> strmap \<Rightarrow> strmap" where
  "inherit_annotation canary key effective =
     (case gm_get canary key of Some value \<Rightarrow> gm_put key value effective | None \<Rightarrow> gm_delete key effective)"

definition inherited_canary_ingress :: "ingress \<Rightarrow> ingress \<Rightarrow> ingress" where
  "inherited_canary_ingress primary canary =
     canary\<lparr>ing_annotations := fold (inherit_annotation (ing_annotations canary))
       [annCanary, annCanaryByHeader, annCanaryByHeaderValue] (ing_annotations primary)\<rparr>"

subsection \<open>Values\<close>

definition normalize_duration :: "string \<Rightarrow> string + string" where
  "normalize_duration raw =
     (let value = to_lower (trim_space raw) in
      if \<not> nginxDurationPattern value
      then Inl (''value '' @ quote value @ '' is not supported by NGF ProxySettingsPolicy'')
      else if atoi value \<noteq> None then Inr (value @ ''s'')
      else Inr value)"

definition validate_generated_rewrite :: "string \<Rightarrow> string \<Rightarrow> string option" where
  "validate_generated_rewrite path target =
     (if nginxUnsafePattern path \<or> contains_any path blanks
      then Some ''regex path contains characters unsafe for generated NGINX configuration''
      else if nginxUnsafePattern target \<or> contains_any target blanks \<or> \<not> has_prefix target ''/''
      then Some ''capture-group rewrite target contains unsafe characters or is not an absolute path''
      else None)"

definition host_name_part :: "string \<Rightarrow> string" where
  "host_name_part host = (if host = [] then ''default'' else host)"

subsection \<open>What is accepted\<close>

lemma check_unknown_set: "i \<in> set (check_unknown_annotations ing strict) \<longleftrightarrow>
    (\<exists>key \<in> set (gm_keys (ing_annotations ing)). has_prefix key annotationPrefix \<and> key \<notin> set knownAnnotations \<and>
       i = \<lparr>is_severity = (if strict then SeverityError else SeverityWarning), is_field = key,
              is_message = ''annotation has no declared compatibility translation''\<rparr>)"
  by (auto simp: check_unknown_annotations_def split: if_splits)

text \<open>
  In strict mode an ingress-nginx annotation the bridge does not know is fatal; otherwise it
  is reported as a warning. Every such annotation is reported, and nothing else.
\<close>

theorem unknown_annotations_reported:
  "list_ex issue_fatal (check_unknown_annotations ing strict) =
     (strict \<and> list_ex (\<lambda>key. has_prefix key annotationPrefix \<and> key \<notin> set knownAnnotations) (gm_keys (ing_annotations ing))) \<and>
   is_field ` set (check_unknown_annotations ing strict) =
     {key \<in> set (gm_keys (ing_annotations ing)). has_prefix key annotationPrefix \<and> key \<notin> set knownAnnotations}"
proof
  have sev: "issue_fatal \<lparr>is_severity = (if strict then SeverityError else SeverityWarning), is_field = k, is_message = m\<rparr> = strict" for k m
    by (simp add: issue_fatal_def)
  show "list_ex issue_fatal (check_unknown_annotations ing strict) =
     (strict \<and> list_ex (\<lambda>key. has_prefix key annotationPrefix \<and> key \<notin> set knownAnnotations) (gm_keys (ing_annotations ing)))"
    unfolding list_ex_iff Bex_def check_unknown_set using sev by blast
  have "is_field i = key" if "i = \<lparr>is_severity = sv, is_field = key, is_message = m\<rparr>" for i key sv m using that by simp
  show "is_field ` set (check_unknown_annotations ing strict) =
     {key \<in> set (gm_keys (ing_annotations ing)). has_prefix key annotationPrefix \<and> key \<notin> set knownAnnotations}"
  proof (rule set_eqI)
    fix key
    show "key \<in> is_field ` set (check_unknown_annotations ing strict) \<longleftrightarrow>
        key \<in> {key \<in> set (gm_keys (ing_annotations ing)). has_prefix key annotationPrefix \<and> key \<notin> set knownAnnotations}"
      unfolding image_iff Bex_def check_unknown_set by (auto simp del: set_map)
  qed
qed

definition open_range :: "bool \<Rightarrow> string \<Rightarrow> bool" where
  "open_range is6 item \<longleftrightarrow> parse_prefix (trim_space item) = Some (is6, 0)"

lemma source_ranges_Inr:
  "source_ranges v4 v6 items = Inr r \<longleftrightarrow>
     (\<forall>item \<in> set items. parse_prefix (trim_space item) \<noteq> None) \<and>
     r = (v4 \<or> list_ex (open_range False) items, v6 \<or> list_ex (open_range True) items)"
  by (induction v4 v6 items rule: source_ranges.induct)
    (auto simp: Let_def open_range_def split: option.splits prod.splits if_splits)

text \<open>
  C36. A source-range annotation is accepted exactly when every item of it is a CIDR and it admits
  all addresses of both families: no Ingress with a narrower allow list is ever projected.
\<close>

theorem whitelist_accepted_iff_unrestricted:
  "validate_whitelist_source_range ing = [] \<longleftrightarrow>
     (case gm_get (ing_annotations ing) annWhitelistSourceRange of
        None \<Rightarrow> True
      | Some raw \<Rightarrow>
          list_all (\<lambda>item. parse_prefix (trim_space item) \<noteq> None) (split_on CHR '','' raw) \<and>
          list_ex (open_range False) (split_on CHR '','' raw) \<and> list_ex (open_range True) (split_on CHR '','' raw))"
proof (cases "gm_get (ing_annotations ing) annWhitelistSourceRange")
  case (Some raw)
  show ?thesis
  proof (cases "source_ranges False False (split_on CHR '','' raw)")
    case (Inl bad)
    then have "\<not> list_all (\<lambda>item. parse_prefix (trim_space item) \<noteq> None) (split_on CHR '','' raw)"
      using source_ranges_Inr [of False False "split_on CHR '','' raw"] by (auto simp: list_all_iff)
    with Some Inl show ?thesis by (simp add: validate_whitelist_source_range_def)
  next
    case (Inr r)
    with Some source_ranges_Inr [of False False "split_on CHR '','' raw" r] show ?thesis
      by (cases r) (auto simp: validate_whitelist_source_range_def list_all_iff)
  qed
qed (simp add: validate_whitelist_source_range_def)

lemma whitelist_issues_fatal: "list_all issue_fatal (validate_whitelist_source_range ing)"
  by (auto simp: validate_whitelist_source_range_def issue_fatal_def split: option.split sum.split)

lemma takeWhile_dropWhile_append:
  "takeWhile p s = d \<Longrightarrow> dropWhile p s = u \<Longrightarrow> s = d @ u"
  by (metis takeWhile_dropWhile_id)

lemma digits_unit_iff:
  assumes "list_all (\<lambda>u. u \<noteq> [] \<and> \<not> is_digit (hd u)) units"
  shows "digits_unit units s \<longleftrightarrow>
    (\<exists>d u. s = d @ u \<and> list_all is_digit d \<and> 1 \<le> length d \<and> length d \<le> 4 \<and> u \<in> set ([] # units))"
proof
  assume "digits_unit units s"
  moreover have "list_all is_digit (takeWhile is_digit s)" by (metis list_all_iff set_takeWhileD)
  ultimately show "\<exists>d u. s = d @ u \<and> list_all is_digit d \<and> 1 \<le> length d \<and> length d \<le> 4 \<and> u \<in> set ([] # units)"
    unfolding digits_unit_def Let_def by (metis takeWhile_dropWhile_id)
next
  assume "\<exists>d u. s = d @ u \<and> list_all is_digit d \<and> 1 \<le> length d \<and> length d \<le> 4 \<and> u \<in> set ([] # units)"
  then obtain d u where s: "s = d @ u" "list_all is_digit d" "1 \<le> length d" "length d \<le> 4" "u \<in> set ([] # units)" by blast
  have "u = [] \<or> \<not> is_digit (hd u)" using s(5) assms by (auto simp: list_all_iff)
  then have "takeWhile is_digit u = []" "dropWhile is_digit u = u" by (cases u; simp)+
  then have "takeWhile is_digit s = d" "dropWhile is_digit s = u"
    using s(1,2) by (simp_all add: takeWhile_append2 dropWhile_append2 list_all_iff)
  with s(3-5) show "digits_unit units s" by (simp add: digits_unit_def)
qed

definition duration_units :: "string list" where
  "duration_units = [''ms'', ''s'', ''m'', ''h'']"

definition with_unit :: "string \<Rightarrow> bool" where
  "with_unit v \<longleftrightarrow> (\<exists>d u. v = d @ u \<and> list_all is_digit d \<and> 1 \<le> length d \<and> length d \<le> 4 \<and> u \<in> set duration_units)"

lemma nginxDurationPattern_iff: "nginxDurationPattern s \<longleftrightarrow>
    (\<exists>d u. s = d @ u \<and> list_all is_digit d \<and> 1 \<le> length d \<and> length d \<le> 4 \<and> u \<in> set ([] # duration_units))"
  unfolding nginxDurationPattern_def duration_units_def by (rule digits_unit_iff) (simp add: is_digit_def code_def)

lemma digit_fixed: "is_digit c \<Longrightarrow> lower_char c = c \<and> \<not> is_space c"
  by (auto simp: is_digit_def lower_char_def is_upper_def is_space_def)

lemma with_unit_fixed:
  assumes "with_unit v"
  shows "to_lower (trim_space v) = v" "nginxDurationPattern v" "atoi v = None"
proof -
  obtain d u where v: "v = d @ u" "list_all is_digit d" "1 \<le> length d" "length d \<le> 4" "u \<in> set duration_units"
    using assms by (auto simp: with_unit_def)
  have u: "u \<noteq> []" "\<not> is_space (last u)" "to_lower u = u" "\<not> is_digit (last u)"
    using v(5) by (auto simp: duration_units_def is_space_def to_lower_def lower_char_def is_upper_def is_digit_def code_def)
  have "d \<noteq> []" using v(3) by auto
  then have "\<not> is_space (hd v)" using v(1,2) digit_fixed by (cases d) auto
  moreover have "\<not> is_space (last v)" using v(1) u(1,2) by simp
  ultimately have "trim_space v = v" unfolding trim_space_def by (intro trim_where_id) simp
  moreover have "to_lower d = d" using v(2) digit_fixed by (simp add: to_lower_def list_all_iff map_idI)
  ultimately show "to_lower (trim_space v) = v" using v(1) u(3) by (simp add: to_lower_def)
  show "nginxDurationPattern v" unfolding nginxDurationPattern_iff using v by auto
  have "last u \<in> set v" using v(1) u(1) by simp
  then have "\<not> list_all is_digit v" "\<not> list_all is_digit (tl v)" using u(4) v(1) \<open>d \<noteq> []\<close> u(1) by (auto simp: list_all_iff)
  moreover have "hd v \<notin> {CHR ''-'', CHR ''+''}" using v(1,2) \<open>d \<noteq> []\<close> by (cases d) (auto simp: is_digit_def code_def)
  ultimately show "atoi v = None" by (auto simp: atoi_def parse_int_def parse_uint_def Let_def)
qed

text \<open>
  A normalised duration is one to four digits followed by an explicit unit, so NGINX never
  reads it in its default unit; normalising it again changes nothing.
\<close>

theorem normalize_duration_unit:
  assumes "normalize_duration raw = Inr v"
  shows "with_unit v \<and> normalize_duration v = Inr v"
proof -
  let ?v = "to_lower (trim_space raw)"
  have p: "nginxDurationPattern ?v" using assms by (auto simp: normalize_duration_def Let_def split: if_splits)
  then obtain d u where d: "?v = d @ u" "list_all is_digit d" "1 \<le> length d" "length d \<le> 4" "u \<in> set ([] # duration_units)"
    unfolding nginxDurationPattern_iff by blast
  have "with_unit v"
  proof (cases "u = []")
    case True
    have "nat_of_digits d < 10 ^ 4"
    proof -
      have "foldl (\<lambda>n c. 10 * n + digit_val c) k xs < (k + 1) * 10 ^ length xs" if "list_all is_digit xs" for k xs
        using that
      proof (induction xs arbitrary: k)
        case (Cons x xs)
        then have "code x \<le> 57" by (simp add: is_digit_def)
        then have "digit_val x \<le> 9" by (simp add: digit_val_def)
        then have "(10 * k + digit_val x + 1) * 10 ^ length xs \<le> (10 * (k + 1)) * 10 ^ length xs"
          by (intro mult_le_mono1) simp
        moreover have "foldl (\<lambda>n c. 10 * n + digit_val c) k (x # xs) < (10 * k + digit_val x + 1) * 10 ^ length xs"
          using Cons.IH [of "10 * k + digit_val x"] Cons.prems by simp
        ultimately have "foldl (\<lambda>n c. 10 * n + digit_val c) k (x # xs) < (10 * (k + 1)) * 10 ^ length xs"
          by (rule less_le_trans [rotated])
        then show ?case by (simp only: list.size power_Suc mult.assoc mult.left_commute add_0_right add_Suc_right)
      qed simp
      from this [OF d(2), of 0] have "nat_of_digits d < 10 ^ length d" by (simp add: nat_of_digits_def)
      also have "\<dots> \<le> 10 ^ 4" using d(4) by (intro power_increasing) auto
      finally show ?thesis .
    qed
    moreover have "hd d \<notin> {CHR ''-'', CHR ''+''}" using d(2,3) by (cases d) (auto simp: is_digit_def code_def)
    ultimately have "atoi d \<noteq> None" using d(2,3) by (auto simp: atoi_def parse_int_def parse_uint_def Let_def)
    then have "v = d @ ''s''" using assms p d(1) True by (simp add: normalize_duration_def Let_def)
    then show ?thesis unfolding with_unit_def using d by (auto simp: duration_units_def)
  next
    case False
    then have u: "with_unit ?v" unfolding with_unit_def using d by auto
    then have "v = ?v" using assms p with_unit_fixed(3) by (simp add: normalize_duration_def Let_def)
    with u show ?thesis by simp
  qed
  then show ?thesis using with_unit_fixed [of v] by (simp add: normalize_duration_def)
qed

theorem normalize_duration_unit_witness: "normalize_duration '' 30 '' = Inr ''30s'' \<and> with_unit ''30s''"
proof -
  have "normalize_duration '' 30 '' = Inr ''30s''" by code_simp
  from this normalize_duration_unit [OF this] show ?thesis by blast
qed

text \<open>
  A canary keeps its own three canary annotations, present or absent, and takes every other
  annotation from its primary Ingress; nothing else of it changes.
\<close>

theorem inherited_canary_annotations:
  "gm_get (ing_annotations (inherited_canary_ingress primary canary)) key =
     (if key \<in> {annCanary, annCanaryByHeader, annCanaryByHeaderValue} then gm_get (ing_annotations canary) key
      else gm_get (ing_annotations primary) key) \<and>
   (inherited_canary_ingress primary canary)\<lparr>ing_annotations := ing_annotations canary\<rparr> = canary"
proof
  have one: "gm_get (inherit_annotation c k m) key' = (if key' = k then gm_get c k else gm_get m key')" for c k m key'
    by (simp add: inherit_annotation_def gomap_simps gm.get_del split: option.split)
  show "gm_get (ing_annotations (inherited_canary_ingress primary canary)) key =
     (if key \<in> {annCanary, annCanaryByHeader, annCanaryByHeaderValue} then gm_get (ing_annotations canary) key
      else gm_get (ing_annotations primary) key)"
    by (auto simp: inherited_canary_ingress_def one)
qed (simp add: inherited_canary_ingress_def)

end
