(* ===== verification/Routes.thy ===== *)
theory Routes
  imports Checks
begin

text \<open>
  HTTPRoutes, from \<^verbatim>\<open>internal/translator/translate.go\<close>: the hostnames of an Ingress with their
  paths, one rule per path, one route per hostname, the parents a route attaches to and the
  redirect route. The controller's resolvers and \<^verbatim>\<open>IsDNS1123Subdomain\<close> of
  \<^verbatim>\<open>k8s.io/apimachinery\<close> are fields of the environment.
\<close>

record url =
  ul_scheme :: string
  ul_host :: string
  ul_user :: bool
  ul_hostname :: string
  ul_string :: string

text \<open>
  \<^verbatim>\<open>en_resolve_port namespace service portName\<close> and \<^verbatim>\<open>en_resolve_config namespace name\<close> return the
  text of an error or a value; a resolver that is not configured is \<^theory_text>\<open>None\<close>.
\<close>

record environment =
  en_resolve_port :: "(string \<Rightarrow> string \<Rightarrow> string \<Rightarrow> string + int) option"
  en_resolve_config :: "(string \<Rightarrow> string \<Rightarrow> string + strmap) option"
  en_dns1123 :: "string \<Rightarrow> bool"
  en_parse_url :: "string \<Rightarrow> url option"

subsection \<open>Hostnames and paths\<close>

record host_input =
  hi_hostname :: string
  hi_paths :: "http_path list"
  hi_tls_hostname :: string
  hi_tls_listener :: listener_ref

definition no_tls_hosts_issue :: issue where
  "no_tls_hosts_issue = error_issue ''spec.tls.hosts''
     ''TLS entry has no hosts and the Ingress has no named rules from which to infer them''"

text \<open>The TLS hostnames a route may use: those of the whole cluster, or else the Ingress's own.\<close>

definition input_tls_hosts :: "ingress \<Rightarrow> options \<Rightarrow> string list \<times> issue list" where
  "input_tls_hosts ing options =
     (case op_tls_hosts options of
        Some hosts \<Rightarrow> (hosts, [])
      | None \<Rightarrow>
          (fold (\<lambda>tls hosts. fold List.insert (effective_tls_hosts ing tls) hosts) (ing_tls ing) [],
           concat (map (\<lambda>tls. if effective_tls_hosts ing tls = [] then [no_tls_hosts_issue] else []) (ing_tls ing))))"

record host_paths =
  hs_by_host :: "(string, http_path list) gomap"
  hs_ordered :: "string list"
  hs_issues :: "issue list"

definition append_paths :: "string \<Rightarrow> http_path list \<Rightarrow> host_paths \<Rightarrow> host_paths" where
  "append_paths host paths st =
     st\<lparr>hs_ordered := hs_ordered st @ (if gm_has (hs_by_host st) host then [] else [host]),
        hs_by_host := gm_put host (gm_or [] (hs_by_host st) host @ paths) (hs_by_host st)\<rparr>"

definition collect_rule :: "ingress_rule \<Rightarrow> host_paths \<Rightarrow> host_paths" where
  "collect_rule rule st =
     (case ir_http rule of
        None \<Rightarrow> st\<lparr>hs_issues := hs_issues st @
          [error_issue ''spec.rules'' (''host '' @ quote (ir_host rule) @ '' does not contain an HTTP rule'')]\<rparr>
      | Some paths \<Rightarrow> append_paths (to_lower (trim_space (ir_host rule))) paths st)"

definition collect_default :: "ingress \<Rightarrow> host_paths \<Rightarrow> host_paths" where
  "collect_default ing st =
     (case ing_default_backend ing of
        None \<Rightarrow> st
      | Some backend \<Rightarrow> append_paths [] [\<lparr>hp_path = ''/'', hp_type = Some PathTypePrefix, hp_backend = backend\<rparr>] st)"

definition alias_message :: "string \<Rightarrow> string" where
  "alias_message alias = ''alias '' @ quote alias @ '' is not listed in spec.tls.hosts and will only attach to HTTP''"

definition collect_alias :: "ingress \<Rightarrow> string list \<Rightarrow> http_path list \<Rightarrow> string \<Rightarrow> host_paths \<Rightarrow> host_paths" where
  "collect_alias ing tlsHosts basePaths raw st =
     (let alias = to_lower raw in
      if gm_has (hs_by_host st) alias then st
      else st\<lparr>hs_ordered := hs_ordered st @ [alias],
              hs_by_host := gm_put alias basePaths (hs_by_host st),
              hs_issues := hs_issues st @
                (if matching_tls_host alias tlsHosts = [] \<and> ing_tls ing \<noteq> []
                 then [warning_issue annServerAlias (alias_message alias)] else [])\<rparr>)"

definition collect_aliases :: "ingress \<Rightarrow> string list \<Rightarrow> host_paths \<Rightarrow> host_paths" where
  "collect_aliases ing tlsHosts st =
     (let aliases = split_csv (annotation ing annServerAlias) in
      if aliases = [] then st
      else (case hs_ordered st of
              [] \<Rightarrow> st\<lparr>hs_issues := hs_issues st @
                [error_issue annServerAlias ''server aliases require at least one HTTP rule'']\<rparr>
            | first # _ \<Rightarrow> fold (collect_alias ing tlsHosts (gm_or [] (hs_by_host st) first)) aliases st))"

definition report_empty :: "host_paths \<Rightarrow> host_paths" where
  "report_empty st =
     (if hs_ordered st = []
      then st\<lparr>hs_issues := hs_issues st @ [error_issue ''spec'' ''Ingress has neither HTTP rules nor a default backend'']\<rparr>
      else st)"

definition host_paths_of :: "ingress \<Rightarrow> string list \<Rightarrow> host_paths" where
  "host_paths_of ing tlsHosts =
     collect_aliases ing tlsHosts (report_empty (collect_default ing
       (fold collect_rule (ing_rules ing) \<lparr>hs_by_host = [], hs_ordered = [], hs_issues = []\<rparr>)))"

definition host_input_of :: "options \<Rightarrow> string list \<Rightarrow> host_paths \<Rightarrow> string \<Rightarrow> host_input" where
  "host_input_of options tlsHosts st host =
     (let tlsHostname = matching_tls_host host tlsHosts in
      \<lparr>hi_hostname = host, hi_paths = gm_or [] (hs_by_host st) host, hi_tls_hostname = tlsHostname,
       hi_tls_listener = (if tlsHostname \<noteq> [] then gm_or no_listener (go_tls_sections (op_gateway options)) tlsHostname
                          else no_listener)\<rparr>)"

definition collect_hosts :: "ingress \<Rightarrow> options \<Rightarrow> host_input list \<times> issue list" where
  "collect_hosts ing options =
     (case input_tls_hosts ing options of (tlsHosts, tlsIssues) \<Rightarrow>
        let st = host_paths_of ing tlsHosts
        in (map (host_input_of options tlsHosts st) (hs_ordered st), tlsIssues @ hs_issues st))"

subsection \<open>Parents\<close>

definition parent_ref_to :: "string \<Rightarrow> bool \<Rightarrow> gateway_options \<Rightarrow> parent_ref" where
  "parent_ref_to namespace tls options =
     (let section = (if tls then go_https_section options else go_http_section options) in
      \<lparr>pr_group = None, pr_kind = None,
       pr_namespace = (if go_namespace options \<noteq> [] \<and> go_namespace options \<noteq> namespace then Some (go_namespace options) else None),
       pr_name = go_name options,
       pr_section = (if section \<noteq> [] then Some section else None)\<rparr>)"

definition listener_set_parent_ref :: "string \<Rightarrow> listener_ref \<Rightarrow> gateway_options \<Rightarrow> parent_ref" where
  "listener_set_parent_ref routeNamespace l options =
     \<lparr>pr_group = Some group_name, pr_kind = Some ListenerSetKind,
      pr_namespace = (if go_namespace options \<noteq> [] \<and> go_namespace options \<noteq> routeNamespace then Some (go_namespace options) else None),
      pr_name = lr_name l,
      pr_section = (if lr_section l \<noteq> [] then Some (lr_section l) else None)\<rparr>"

definition application_parent_refs :: "string \<Rightarrow> host_input \<Rightarrow> gateway_options \<Rightarrow> bool \<Rightarrow> bool \<Rightarrow> parent_ref list" where
  "application_parent_refs namespace input options attachHTTP httpOnly =
     (if httpOnly then [parent_ref_to namespace False options]
      else
        let tls = (hi_tls_hostname input \<noteq> []);
            primary = (if tls \<and> lr_kind (hi_tls_listener input) = ListenerSetKind
                       then listener_set_parent_ref namespace (hi_tls_listener input) options
                       else parent_ref_to namespace tls
                         (if lr_section (hi_tls_listener input) \<noteq> []
                          then options\<lparr>go_https_section := lr_section (hi_tls_listener input)\<rparr> else options))
        in primary # (if attachHTTP then [parent_ref_to namespace False options] else []))"

subsection \<open>Rules\<close>

definition backend_port :: "environment \<Rightarrow> string \<Rightarrow> service_backend option \<Rightarrow> string + int" where
  "backend_port env namespace backend =
     (case backend of
        None \<Rightarrow> Inl ''resource backends are not supported''
      | Some b \<Rightarrow>
          if sb_port_number b > 0 then Inr (sb_port_number b)
          else if sb_port_name b = [] then Inl ''backend Service port is missing''
          else (case en_resolve_port env of
                  None \<Rightarrow> Inl (''backend uses named port '' @ quote (sb_port_name b) @ '' but no resolver is configured'')
                | Some resolve \<Rightarrow> resolve namespace (sb_name b) (sb_port_name b)))"

definition default_cors :: cors_filter where
  "default_cors = \<lparr>co_origins = [''*''], co_methods = [''GET'', ''PUT'', ''POST'', ''DELETE'', ''PATCH'', ''OPTIONS''],
     co_headers = [''DNT'', ''Keep-Alive'', ''User-Agent'', ''X-Requested-With'', ''If-Modified-Since'', ''Cache-Control'',
       ''Content-Type'', ''Range'', ''Authorization''],
     co_expose = [], co_credentials = Some True, co_max_age = 1728000\<rparr>"

definition or_default :: "string list \<Rightarrow> string list \<Rightarrow> string list" where
  "or_default d values = (if values = [] then d else values)"

definition cors_filter_of :: "strmap \<Rightarrow> cors_filter option \<times> issue list" where
  "cors_filter_of annotations =
     (if \<not> parse_bool (gm_or [] annotations annEnableCORS) then (None, [])
      else
        let headers = split_csv (gm_or [] annotations annCORSAllowHeaders);
            headerIssues = map (\<lambda>h. error_issue annCORSAllowHeaders (''invalid header '' @ quote h))
              (filter (\<lambda>h. \<not> valid_header_name h) headers);
            credentials = (case gm_get annotations annCORSAllowCredentials of
                None \<Rightarrow> (Some True, [])
              | Some raw \<Rightarrow>
                  (case parse_bool_go (trim_space raw) of
                     None \<Rightarrow> (Some True, [error_issue annCORSAllowCredentials ''value must be true or false''])
                   | Some value \<Rightarrow> (Some value, [])));
            rawAge = trim_space (gm_or [] annotations annCORSMaxAge);
            age = (if rawAge = [] then (1728000, [])
                   else (case parse_int 32 rawAge of
                           None \<Rightarrow> (1728000, [error_issue annCORSMaxAge ''value must be a positive number of seconds''])
                         | Some value \<Rightarrow>
                             if value < 1 then (1728000, [error_issue annCORSMaxAge ''value must be a positive number of seconds''])
                             else (value, [])))
        in (Some \<lparr>co_origins = or_default (co_origins default_cors) (split_csv (gm_or [] annotations annCORSAllowOrigin)),
                  co_methods = or_default (co_methods default_cors) (split_csv (gm_or [] annotations annCORSAllowMethods)),
                  co_headers = or_default (co_headers default_cors) headers,
                  co_expose = split_csv (gm_or [] annotations annCORSExposeHeaders),
                  co_credentials = fst credentials, co_max_age = fst age\<rparr>,
            headerIssues @ snd credentials @ snd age))"

definition match_type_of :: "ingress \<Rightarrow> http_path \<Rightarrow> path_match_type" where
  "match_type_of ing path =
     (if parse_bool (annotation ing annUseRegex) \<or> contains (annotation ing annRewriteTarget) ''$'' then MatchRegularExpression
      else (case hp_type path of Some PathTypeExact \<Rightarrow> MatchExact | _ \<Rightarrow> MatchPathPrefix))"

definition path_value :: "http_path \<Rightarrow> string" where
  "path_value path = (if hp_path path = [] then ''/'' else hp_path path)"

text \<open>The rewrite of a rule: its filters, its issues and the snippet for the location.\<close>

definition rewrite_of :: "ingress \<Rightarrow> string \<Rightarrow> route_filter list \<times> issue list \<times> string" where
  "rewrite_of ing pathValue =
     (let target = trim_space (annotation ing annRewriteTarget) in
      if target = [] then ([], [], [])
      else if contains target ''$'' then
        (case validate_generated_rewrite pathValue target of
           Some message \<Rightarrow> ([], [error_issue annRewriteTarget message], [])
         | None \<Rightarrow> ([], [], ''rewrite '' @ pathValue @ '' '' @ target @ '' break;''))
      else if has_prefix target ''/'' then
        ([FilterURLRewrite \<lparr>ur_hostname = None, ur_full_path = Some target\<rparr>], [], [])
      else ([], [error_issue annRewriteTarget ''rewrite target must be an absolute path''], []))"

definition build_rule :: "environment \<Rightarrow> ingress \<Rightarrow> http_path \<Rightarrow> nat \<Rightarrow> route_rule \<times> issue list \<times> string" where
  "build_rule env ing path index =
     (let pathValue = path_value path;
          headers = (if parse_bool (annotation ing annCanary)
                     then (case fst (header_canary_match (ing_annotations ing)) of None \<Rightarrow> [] | Some h \<Rightarrow> [h]) else []);
          port = backend_port env (ing_namespace ing) (be_service (hp_backend path));
          portIssues = (case port of
              Inl err \<Rightarrow> [error_issue (''spec.rules.paths['' @ itoa (int index) @ ''].backend'') err] | Inr _ \<Rightarrow> []);
          (cors, corsIssues) = cors_filter_of (ing_annotations ing);
          (rewriteFilters, rewriteIssues, snippet) = rewrite_of ing pathValue
      in (\<lparr>rr_matches = [\<lparr>rm_path = Some (match_type_of ing path, pathValue), rm_headers = headers, rm_query = [], rm_method = None\<rparr>],
           rr_filters = (case cors of None \<Rightarrow> [] | Some c \<Rightarrow> [FilterCORS c]) @ rewriteFilters,
           rr_backends = [\<lparr>br_name = (case be_service (hp_backend path) of None \<Rightarrow> [] | Some b \<Rightarrow> sb_name b),
                           br_port = Some (case port of Inl _ \<Rightarrow> 0 | Inr p \<Rightarrow> p)\<rparr>]\<rparr>,
          portIssues @ corsIssues @ rewriteIssues, snippet))"

subsection \<open>Routes\<close>

definition newline :: string where
  "newline = [CHR 0x0A]"

definition corsUpstreamHeaderSuppressionSnippet :: string where
  "corsUpstreamHeaderSuppressionSnippet = join newline
     (map (\<lambda>h. ''proxy_hide_header Access-Control-'' @ h @ '';'')
       [''Allow-Origin'', ''Allow-Credentials'', ''Allow-Methods'', ''Allow-Headers'', ''Expose-Headers'', ''Max-Age''])"

fun build_rules :: "environment \<Rightarrow> ingress \<Rightarrow> nat \<Rightarrow> http_path list \<Rightarrow> route_rule list \<times> issue list \<times> string list" where
  "build_rules env ing index [] = ([], [], [])"
| "build_rules env ing index (path # paths) =
     (case build_rule env ing path index of (rule, issues, snippet) \<Rightarrow>
        (case build_rules env ing (Suc index) paths of (rules, moreIssues, snippets) \<Rightarrow>
           (rule # rules, issues @ moreIssues, (if snippet \<noteq> [] then [snippet] else []) @ snippets)))"

definition route_name :: "ingress \<Rightarrow> string \<Rightarrow> string" where
  "route_name ing hostname = dns_label [ing_name ing, host_name_part hostname]"

definition build_route :: "environment \<Rightarrow> ingress \<Rightarrow> host_input \<Rightarrow> options \<Rightarrow> http_route \<times> issue list \<times> string list" where
  "build_route env ing input options =
     (case build_rules env ing 0 (hi_paths input) of (rules, ruleIssues, rewriteSnippets) \<Rightarrow>
        (\<lparr>hr_meta = \<lparr>om_name = route_name ing (hi_hostname input), om_namespace = ing_namespace ing, om_labels = source_labels ing\<rparr>,
          hr_parents = application_parent_refs (ing_namespace ing) input (op_gateway options)
            (hi_tls_hostname input \<noteq> [] \<and> \<not> ssl_redirect_enabled (ing_annotations ing)) (is_acme_http01_solver ing),
          hr_hostnames = (if hi_hostname input \<noteq> [] then [hi_hostname input] else []),
          hr_rules = rules\<rparr>,
         (if length (hi_paths input) > 16
          then [error_issue ''spec.rules.paths'' ''a generated HTTPRoute cannot contain more than 16 rules''] else []) @ ruleIssues,
         (if parse_bool (annotation ing annEnableCORS) then [corsUpstreamHeaderSuppressionSnippet] else []) @ rewriteSnippets))"

definition build_redirect_route :: "ingress \<Rightarrow> string \<Rightarrow> options \<Rightarrow> http_route" where
  "build_redirect_route ing hostname options =
     \<lparr>hr_meta = \<lparr>om_name = dns_label [ing_name ing, host_name_part hostname, ''redirect''], om_namespace = ing_namespace ing,
        om_labels = source_labels ing\<rparr>,
      hr_parents = [parent_ref_to (ing_namespace ing) False (op_gateway options)],
      hr_hostnames = [hostname],
      hr_rules = [\<lparr>rr_matches = [\<lparr>rm_path = Some (MatchPathPrefix, ''/''), rm_headers = [], rm_query = [], rm_method = None\<rparr>],
        rr_filters = [FilterRequestRedirect \<lparr>rd_scheme = Some ''https'', rd_status = Some 308\<rparr>], rr_backends = []\<rparr>]\<rparr>"

definition append_filter_to_rule :: "string \<Rightarrow> string \<Rightarrow> route_rule \<Rightarrow> route_rule" where
  "append_filter_to_rule kind name rule =
     rule\<lparr>rr_filters := rr_filters rule @ [FilterExtensionRef \<lparr>lo_group = ngf_group, lo_kind = kind, lo_name = name\<rparr>]\<rparr>"

definition append_extension_filter :: "string \<Rightarrow> string \<Rightarrow> http_route \<Rightarrow> http_route" where
  "append_extension_filter kind name route = route\<lparr>hr_rules := map (append_filter_to_rule kind name) (hr_rules route)\<rparr>"

subsection \<open>Which hostnames get a route\<close>

text \<open>The hostnames of the rules, of the default backend and of the aliases, as a set.\<close>

definition rule_hostnames :: "ingress \<Rightarrow> string set" where
  "rule_hostnames ing = {normal_host (ir_host r) | r. r \<in> set (ing_rules ing) \<and> ir_http r \<noteq> None} \<union>
     (if ing_default_backend ing = None then {} else {[]})"

definition routed_hostnames :: "ingress \<Rightarrow> string set" where
  "routed_hostnames ing = rule_hostnames ing \<union>
     (if rule_hostnames ing = {} then {} else to_lower ` set (split_csv (annotation ing annServerAlias)))"

definition paths_ok :: "host_paths \<Rightarrow> bool" where
  "paths_ok st \<longleftrightarrow> distinct (hs_ordered st) \<and> set (gm_keys (hs_by_host st)) = set (hs_ordered st)"

lemma paths_ok_has: "paths_ok st \<Longrightarrow> gm_has (hs_by_host st) h \<longleftrightarrow> h \<in> set (hs_ordered st)"
  unfolding gm_has_keys by (simp add: paths_ok_def)

lemma gm_or_append_paths:
  "gm_or [] (hs_by_host (append_paths h ps st)) k = (if k = h then gm_or [] (hs_by_host st) h @ ps else gm_or [] (hs_by_host st) k)"
  by (simp add: append_paths_def gomap_simps)

lemma ordered_append_paths:
  "hs_ordered (append_paths h ps st) = hs_ordered st @ (if gm_has (hs_by_host st) h then [] else [h])"
  by (simp add: append_paths_def del: not_None_eq)

lemma append_paths_facts:
  assumes "paths_ok st"
  shows "paths_ok (append_paths h ps st)" "set (hs_ordered (append_paths h ps st)) = insert h (set (hs_ordered st))"
proof -
  have keys: "set (gm_keys (gm_put h v m)) = insert h (set (gm_keys m))" for v m by (auto simp: gm_keys_put)
  have k: "set (gm_keys (hs_by_host (append_paths h ps st))) = insert h (set (hs_ordered st))"
    unfolding append_paths_def using assms by (simp add: keys paths_ok_def del: set_map list.set_map)
  have o: "set (hs_ordered (append_paths h ps st)) = insert h (set (hs_ordered st))"
    "distinct (hs_ordered (append_paths h ps st))"
    using assms paths_ok_has [OF assms, of h] by (auto simp: append_paths_def paths_ok_def simp del: not_None_eq)
  then show "paths_ok (append_paths h ps st)" "set (hs_ordered (append_paths h ps st)) = insert h (set (hs_ordered st))"
    using k by (simp_all add: paths_ok_def)
qed

lemma fold_collect_rule:
  "paths_ok st \<Longrightarrow> paths_ok (fold collect_rule rules st) \<and>
     set (hs_ordered (fold collect_rule rules st)) =
       set (hs_ordered st) \<union> {normal_host (ir_host r) | r. r \<in> set rules \<and> ir_http r \<noteq> None}"
proof (induction rules arbitrary: st)
  case (Cons r rules)
  have "paths_ok (collect_rule r st) \<and> set (hs_ordered (collect_rule r st)) =
      set (hs_ordered st) \<union> (if ir_http r = None then {} else {normal_host (ir_host r)})"
    using Cons.prems append_paths_facts [OF Cons.prems]
    by (auto simp: collect_rule_def paths_ok_def normal_host_def split: option.split)
  with Cons.IH [of "collect_rule r st"] show ?case by auto
qed auto

lemma collect_default_facts:
  assumes "paths_ok st"
  shows "paths_ok (collect_default ing st)"
    "set (hs_ordered (collect_default ing st)) = set (hs_ordered st) \<union> (if ing_default_backend ing = None then {} else {[]})"
  using append_paths_facts [OF assms] assms by (auto simp: collect_default_def split: option.split)

lemma report_empty_facts [simp]:
  "hs_ordered (report_empty st) = hs_ordered st" "hs_by_host (report_empty st) = hs_by_host st"
  "paths_ok (report_empty st) = paths_ok st"
  by (simp_all add: report_empty_def paths_ok_def)

lemma collect_alias_facts:
  assumes "paths_ok st"
  shows "paths_ok (collect_alias ing tls ps a st)" "set (hs_ordered (collect_alias ing tls ps a st)) = insert (to_lower a) (set (hs_ordered st))"
proof -
  have keys: "set (gm_keys (gm_put h v m)) = insert h (set (gm_keys m))" for h v and m :: "(string, http_path list) gomap"
    by (auto simp: gm_keys_put)
  show "set (hs_ordered (collect_alias ing tls ps a st)) = insert (to_lower a) (set (hs_ordered st))"
    using paths_ok_has [OF assms, of "to_lower a"] by (auto simp: collect_alias_def Let_def simp del: not_None_eq)
  show "paths_ok (collect_alias ing tls ps a st)"
  proof (cases "gm_has (hs_by_host st) (to_lower a)")
    case True
    then show ?thesis using assms by (simp add: collect_alias_def Let_def)
  next
    case False
    then have "to_lower a \<notin> set (hs_ordered st)" using paths_ok_has [OF assms] by blast
    then have "distinct (hs_ordered (collect_alias ing tls ps a st))"
      using False assms by (simp add: collect_alias_def Let_def paths_ok_def del: not_None_eq)
    moreover have "set (gm_keys (hs_by_host (collect_alias ing tls ps a st))) = insert (to_lower a) (set (hs_ordered st))"
      using False assms by (simp add: collect_alias_def Let_def paths_ok_def keys del: not_None_eq set_map list.set_map)
    ultimately show ?thesis
      using \<open>set (hs_ordered (collect_alias ing tls ps a st)) = _\<close> by (simp add: paths_ok_def)
  qed
qed

lemma fold_collect_alias:
  "paths_ok st \<Longrightarrow> paths_ok (fold (collect_alias ing tls ps) as st) \<and>
     set (hs_ordered (fold (collect_alias ing tls ps) as st)) = set (hs_ordered st) \<union> to_lower ` set as"
proof (induction as arbitrary: st)
  case (Cons a as)
  from Cons.IH [OF collect_alias_facts(1) [OF Cons.prems]] collect_alias_facts(2) [OF Cons.prems] show ?case by auto
qed simp

lemma host_paths_of_facts:
  "paths_ok (host_paths_of ing tlsHosts)" "set (hs_ordered (host_paths_of ing tlsHosts)) = routed_hostnames ing"
proof -
  let ?s0 = "\<lparr>hs_by_host = [], hs_ordered = [], hs_issues = []\<rparr>"
  let ?s1 = "fold collect_rule (ing_rules ing) ?s0"
  let ?s2 = "report_empty (collect_default ing ?s1)"
  have 0: "paths_ok ?s0" by (simp add: paths_ok_def)
  note 1 = fold_collect_rule [OF 0, of "ing_rules ing"]
  have 2: "paths_ok ?s2" "set (hs_ordered ?s2) = rule_hostnames ing"
    using collect_default_facts [OF 1 [THEN conjunct1]] 1 by (auto simp: rule_hostnames_def)
  have "paths_ok (collect_aliases ing tlsHosts ?s2) \<and> set (hs_ordered (collect_aliases ing tlsHosts ?s2)) = routed_hostnames ing"
  proof (cases "hs_ordered ?s2")
    case Nil
    then have "rule_hostnames ing = {}" using 2(2) by simp
    with Nil 2(1) show ?thesis by (simp add: collect_aliases_def Let_def routed_hostnames_def paths_ok_def)
  next
    case (Cons first rest)
    then have "rule_hostnames ing \<noteq> {}" using 2(2) by auto
    with Cons 2 fold_collect_alias [OF 2(1)] show ?thesis
      by (simp add: collect_aliases_def Let_def routed_hostnames_def)
  qed
  then show "paths_ok (host_paths_of ing tlsHosts)" "set (hs_ordered (host_paths_of ing tlsHosts)) = routed_hostnames ing"
    by (simp_all add: host_paths_of_def)
qed

lemma collect_hosts_fst: "fst (collect_hosts ing options) =
    map (host_input_of options (fst (input_tls_hosts ing options)) (host_paths_of ing (fst (input_tls_hosts ing options))))
      (hs_ordered (host_paths_of ing (fst (input_tls_hosts ing options))))"
  by (simp add: collect_hosts_def Let_def split: prod.split)

lemma host_input_of_simps [simp]:
  "hi_hostname (host_input_of options tlsHosts st h) = h"
  "hi_tls_hostname (host_input_of options tlsHosts st h) = matching_tls_host h tlsHosts"
  by (simp_all add: host_input_of_def Let_def)

text \<open>
  An Ingress gets exactly one host entry, and so one route, for each hostname its rules, its
  default backend and its server aliases name.
\<close>

theorem collected_hostnames:
  "distinct (map hi_hostname (fst (collect_hosts ing options))) \<and>
   hi_hostname ` set (fst (collect_hosts ing options)) = routed_hostnames ing"
  using host_paths_of_facts [of ing "fst (input_tls_hosts ing options)"]
  by (simp add: collect_hosts_fst comp_def image_image paths_ok_def)

subsection \<open>Rewrites\<close>

definition safe_text :: "string \<Rightarrow> bool" where
  "safe_text s \<longleftrightarrow> \<not> list_ex unsafe_char s"

text \<open>
  The rewrite directive generated for a capture-group target is one directive: neither the
  path nor the target contains a character that ends or opens one, or a blank that would split
  an argument.
\<close>

theorem rewrite_snippet_safe:
  assumes "rewrite_of ing path = (filters, issues, snippet)" and "snippet \<noteq> []"
  shows "\<exists>target. snippet = ''rewrite '' @ path @ '' '' @ target @ '' break;'' \<and>
    safe_text path \<and> safe_text target \<and> \<not> contains_any path blanks \<and> \<not> contains_any target blanks \<and> has_prefix target ''/'' \<and> issues = []"
  using assms
  by (auto simp: rewrite_of_def Let_def validate_generated_rewrite_def nginxUnsafePattern_def safe_text_def split: if_splits option.splits)

definition sample_rewrite :: ingress where
  "sample_rewrite = (sample_ingress ''app'' ''a.example'' ''tls'')\<lparr>ing_annotations := [(annRewriteTarget, ''/app/$1'')]\<rparr>"

lemma sample_rewrite_of: "rewrite_of sample_rewrite ''/old/(.*)'' = ([], [], ''rewrite /old/(.*) /app/$1 break;'')"
  by code_simp

theorem rewrite_snippet_safe_witness: "safe_text ''/old/(.*)'' \<and> \<not> contains_any ''/old/(.*)'' blanks"
  using rewrite_snippet_safe [OF sample_rewrite_of] by auto

end
