(* ===== verification/BackendTls.thy ===== *)
theory BackendTls
  imports Routes
begin

text \<open>
  HTTPS backends, from \<^verbatim>\<open>internal/translator/translate.go\<close>: what the proxy-ssl annotations ask
  for, the BackendTLSPolicies of verified backends and the snippets of unverified ones.
\<close>

record backend_tls_config =
  bc_verified :: bool
  bc_secret_name :: string
  bc_hostname :: string
  bc_server_name :: bool

text \<open>A boolean annotation that is false when blank or unreadable.\<close>

definition bool_annotation :: "ingress \<Rightarrow> string \<Rightarrow> bool \<times> issue list" where
  "bool_annotation ing key =
     (let raw = trim_space (annotation ing key) in
      if raw = [] then (False, [])
      else (case parse_nginx_bool raw of
              Inl err \<Rightarrow> (False, [error_issue key err])
            | Inr b \<Rightarrow> (b, [])))"

definition verified_secret :: "ingress \<Rightarrow> string \<Rightarrow> string \<times> issue list" where
  "verified_secret ing secretRef =
     (case cut_at CHR ''/'' secretRef of
        None \<Rightarrow> (secretRef, [])
      | Some (ns, name) \<Rightarrow>
          (name, if ns \<noteq> ing_namespace ing
                 then [error_issue annProxySSLSecret ''BackendTLSPolicy CA references must be in the Ingress namespace'']
                 else []))"

definition parse_backend_tls :: "environment \<Rightarrow> ingress \<Rightarrow> backend_tls_config option \<times> issue list" where
  "parse_backend_tls env ing =
     (let (verify, i1) = bool_annotation ing annProxySSLVerify;
          (serverName, i2) = bool_annotation ing annProxySSLServerName;
          hostname = trim_space (annotation ing annProxySSLName);
          i3 = (if hostname \<noteq> [] \<and> \<not> en_dns1123 env hostname
                then [error_issue annProxySSLName ''proxy-ssl-name must contain a valid DNS hostname''] else []);
          secretRef = trim_space (annotation ing annProxySSLSecret)
      in if \<not> verify then
           let issues = i1 @ i2 @ i3 @
                 (if secretRef \<noteq> [] then [error_issue annProxySSLSecret
                    ''proxy-ssl-secret with verification disabled may configure an upstream client certificate, which is not supported yet'']
                  else [])
           in if issues \<noteq> [] then (None, issues)
              else (Some \<lparr>bc_verified = False, bc_secret_name = [], bc_hostname = hostname, bc_server_name = serverName\<rparr>, [])
         else
           let (secretName, i6) = verified_secret ing secretRef;
               issues = i1 @ i2 @ i3 @
                 (if \<not> serverName then [error_issue annProxySSLServerName ''HTTPS backends require proxy-ssl-server-name: on''] else []) @
                 (if hostname = [] \<or> \<not> en_dns1123 env hostname
                  then [error_issue annProxySSLName ''HTTPS backends require proxy-ssl-name containing a valid DNS hostname''] else []) @
                 i6 @
                 (if secretName = [] \<or> \<not> en_dns1123 env secretName
                  then [error_issue annProxySSLSecret ''HTTPS backends require proxy-ssl-secret referencing a Secret containing ca.crt''] else [])
           in if issues \<noteq> [] then (None, issues)
              else (Some \<lparr>bc_verified = True, bc_secret_name = secretName, bc_hostname = hostname, bc_server_name = True\<rparr>, []))"

subsection \<open>Verified backends\<close>

definition backend_services :: "http_route \<Rightarrow> string list" where
  "backend_services route =
     sort_strings (remdups (concat (map (\<lambda>rule. map br_name (rr_backends rule)) (hr_rules route))))"

definition backend_tls_policy_for :: "ingress \<Rightarrow> backend_tls_config \<Rightarrow> string \<Rightarrow> backend_tls_policy" where
  "backend_tls_policy_for ing config service =
     \<lparr>bt_meta = \<lparr>om_name = dns_label [ing_name ing, service, ''backend-tls''], om_namespace = ing_namespace ing,
        om_labels = source_labels ing\<rparr>,
      bt_targets = [\<lparr>lo_group = [], lo_kind = ''Service'', lo_name = service\<rparr>],
      bt_ca_refs = [\<lparr>lo_group = [], lo_kind = ''Secret'', lo_name = bc_secret_name config\<rparr>],
      bt_hostname = bc_hostname config\<rparr>"

definition build_backend_tls_policies :: "ingress \<Rightarrow> http_route \<Rightarrow> backend_tls_config \<Rightarrow> backend_tls_policy list" where
  "build_backend_tls_policies ing route config = map (backend_tls_policy_for ing config) (backend_services route)"

text \<open>A policy with the name of an earlier one is dropped.\<close>

definition add_backend_tls_policy :: "backend_tls_policy \<Rightarrow> plan \<Rightarrow> plan" where
  "add_backend_tls_policy policy p =
     (if list_ex (\<lambda>e. om_namespace (bt_meta e) = om_namespace (bt_meta policy) \<and> om_name (bt_meta e) = om_name (bt_meta policy))
           (pl_backend_tls p)
      then p else p\<lparr>pl_backend_tls := pl_backend_tls p @ [policy]\<rparr>)"

subsection \<open>Unverified backends\<close>

definition rule_needs_original_request_uri :: "route_rule \<Rightarrow> bool" where
  "rule_needs_original_request_uri rule =
     (case rr_matches rule of
        [m] \<Rightarrow> rm_method m \<noteq> None \<or> rm_headers m \<noteq> [] \<or> rm_query m \<noteq> []
      | _ \<Rightarrow> True)"

definition https_location :: "ingress \<Rightarrow> string \<Rightarrow> backend_tls_config \<Rightarrow> route_rule \<Rightarrow> string \<Rightarrow> int \<Rightarrow> string" where
  "https_location ing routeNamespace config rule service port =
     (let address = service @ ''.'' @ routeNamespace @ ''.svc:'' @ itoa port;
          requestURI = (if rule_needs_original_request_uri rule \<and> trim_space (annotation ing annRewriteTarget) = []
                        then ''$request_uri'' else [])
      in join newline
           ((if bc_server_name config then [''proxy_ssl_server_name on;''] else []) @
            (if bc_hostname config \<noteq> [] then [''proxy_ssl_name '' @ bc_hostname config @ '';''] else []) @
            [''if ($request_method) {'' @ newline @ ''  proxy_pass https://'' @ address @ requestURI @ '';'' @ newline @ ''}'']) @ newline)"

definition unverified_rule :: "ingress \<Rightarrow> http_route \<Rightarrow> backend_tls_config \<Rightarrow> strmap \<Rightarrow> nat \<Rightarrow> route_rule \<Rightarrow>
    route_rule \<times> snippets_filter list \<times> issue list" where
  "unverified_rule ing route config labels idx rule =
     (case rr_backends rule of
        [backend] \<Rightarrow>
          (case br_port backend of
             Some port \<Rightarrow>
               let name = dns_label [om_name (hr_meta route), ''backend-https'', itoa (int idx)];
                   snippet = \<lparr>sn_context = HTTPServerLocation,
                     sn_value = https_location ing (om_namespace (hr_meta route)) config rule (br_name backend) port\<rparr>
               in (append_filter_to_rule ''SnippetsFilter'' name rule,
                   [\<lparr>sf_meta = \<lparr>om_name = name, om_namespace = ing_namespace ing, om_labels = labels\<rparr>, sf_snippets = [snippet]\<rparr>], [])
           | None \<Rightarrow> (rule, [], [error_issue (''spec.rules['' @ itoa (int idx) @ ''].backendRefs'')
               ''unverified HTTPS translation requires exactly one Service backend with a numeric port'']))
      | _ \<Rightarrow> (rule, [], [error_issue (''spec.rules['' @ itoa (int idx) @ ''].backendRefs'')
          ''unverified HTTPS translation requires exactly one Service backend with a numeric port'']))"

fun unverified_rules :: "ingress \<Rightarrow> http_route \<Rightarrow> backend_tls_config \<Rightarrow> strmap \<Rightarrow> nat \<Rightarrow> route_rule list \<Rightarrow>
    route_rule list \<times> snippets_filter list \<times> issue list" where
  "unverified_rules ing route config labels idx [] = ([], [], [])"
| "unverified_rules ing route config labels idx (rule # rules) =
     (case unverified_rule ing route config labels idx rule of (rule', filters, issues) \<Rightarrow>
        (case unverified_rules ing route config labels (Suc idx) rules of (rules', moreFilters, moreIssues) \<Rightarrow>
           (rule' # rules', filters @ moreFilters, issues @ moreIssues)))"

definition add_unverified_backend_tls_filters :: "ingress \<Rightarrow> backend_tls_config \<Rightarrow> strmap \<Rightarrow> http_route \<times> plan \<Rightarrow> http_route \<times> plan" where
  "add_unverified_backend_tls_filters ing config labels = (\<lambda>(route, p).
     (case unverified_rules ing route config labels 0 (hr_rules route) of (rules, filters, issues) \<Rightarrow>
        (route\<lparr>hr_rules := rules\<rparr>, p\<lparr>pl_snippets := pl_snippets p @ filters, pl_issues := pl_issues p @ issues\<rparr>)))"

subsection \<open>What is accepted\<close>

lemma bool_annotation_issues: "snd (bool_annotation ing key) = [] \<or> (\<exists>m. snd (bool_annotation ing key) = [error_issue key m])"
  by (auto simp: bool_annotation_def Let_def split: sum.split)

text \<open>
  C37. Verification of an HTTPS backend is never half configured: a configuration that verifies
  names a certificate Secret of the Ingress's own namespace and a hostname, both valid names, and
  sends the server name; one that does not verify carries no Secret; and without a configuration
  there is an issue, every issue being fatal.
\<close>

theorem backend_tls_config_sound:
  "case parse_backend_tls env ing of
     (None, issues) \<Rightarrow> issues \<noteq> [] \<and> list_all issue_fatal issues
   | (Some config, issues) \<Rightarrow> issues = [] \<and>
       (if bc_verified config
        then bc_server_name config \<and> en_dns1123 env (bc_hostname config) \<and> bc_hostname config \<noteq> [] \<and>
          en_dns1123 env (bc_secret_name config) \<and> bc_secret_name config \<noteq> [] \<and>
          (trim_space (annotation ing annProxySSLSecret) = bc_secret_name config \<or>
           trim_space (annotation ing annProxySSLSecret) = ing_namespace ing @ ''/'' @ bc_secret_name config)
        else bc_secret_name config = [] \<and> trim_space (annotation ing annProxySSLSecret) = [])"
proof -
  obtain v i1 where v: "bool_annotation ing annProxySSLVerify = (v, i1)" by fastforce
  obtain sn i2 where sn: "bool_annotation ing annProxySSLServerName = (sn, i2)" by fastforce
  obtain name i6 where s: "verified_secret ing (trim_space (annotation ing annProxySSLSecret)) = (name, i6)" by fastforce
  have fatal: "list_all issue_fatal i1" "list_all issue_fatal i2"
    using bool_annotation_issues [of ing annProxySSLVerify] bool_annotation_issues [of ing annProxySSLServerName] v sn by auto
  have sec: "trim_space (annotation ing annProxySSLSecret) = name \<or>
      trim_space (annotation ing annProxySSLSecret) = ing_namespace ing @ ''/'' @ name" if "i6 = []"
    using s that by (auto simp: verified_secret_def cut_at_Some split: option.splits if_splits)
  have f6: "list_all issue_fatal i6" using s by (auto simp: verified_secret_def split: option.splits if_splits)
  show ?thesis
    unfolding parse_backend_tls_def Let_def v sn s using fatal f6 sec by (cases v) auto
qed

end
