(* ===== verification/Policies.thy ===== *)
theory Policies
  imports BackendTls
begin

text \<open>
  NGINX Gateway Fabric policies and filters, from \<^verbatim>\<open>internal/translator/translate.go\<close>: client
  and proxy settings, basic authentication, the upstream hostname, and the snippets the bridge
  generates, external authentication among them. Go leaves the order of \<^verbatim>\<open>range\<close> over a map
  literal open; the model takes the entries in the order they are written.
\<close>

subsection \<open>Upstream hostname\<close>

fun set_rewrite_hostname :: "string \<Rightarrow> route_filter list \<Rightarrow> route_filter list" where
  "set_rewrite_hostname host [] = [FilterURLRewrite \<lparr>ur_hostname = Some host, ur_full_path = None\<rparr>]"
| "set_rewrite_hostname host (f # fs) =
     (case f of
        FilterURLRewrite u \<Rightarrow> FilterURLRewrite (u\<lparr>ur_hostname := Some host\<rparr>) # fs
      | _ \<Rightarrow> f # set_rewrite_hostname host fs)"

definition add_upstream_vhost_rewrite :: "environment \<Rightarrow> ingress \<Rightarrow> http_route \<Rightarrow> http_route \<times> issue list" where
  "add_upstream_vhost_rewrite env ing route =
     (let host = trim_space (annotation ing annUpstreamVHost) in
      if host = [] then (route, [])
      else if nginxUnsafePattern host \<or> contains_any host blanks \<or> \<not> en_dns1123 env host
      then (route, [error_issue annUpstreamVHost ''value must be a DNS hostname supported by Gateway API URLRewrite''])
      else (route\<lparr>hr_rules := map (\<lambda>rule. rule\<lparr>rr_filters := set_rewrite_hostname host (rr_filters rule)\<rparr>) (hr_rules route)\<rparr>, []))"

subsection \<open>Proxy settings\<close>

definition duration_annotation :: "ingress \<Rightarrow> string \<Rightarrow> string option \<times> issue list" where
  "duration_annotation ing key =
     (let raw = trim_space (annotation ing key) in
      if raw = [] then (None, [])
      else (case normalize_duration raw of
              Inl err \<Rightarrow> (None, [error_issue key err])
            | Inr v \<Rightarrow> (Some v, [])))"

definition timeout_snippet :: "ingress \<Rightarrow> string \<times> string \<Rightarrow> string list \<times> issue list" where
  "timeout_snippet ing = (\<lambda>(key, directive).
     (case duration_annotation ing key of
        (None, issues) \<Rightarrow> ([], issues)
      | (Some v, issues) \<Rightarrow> ([directive @ '' '' @ v @ '';''], issues)))"

definition timeout_settings :: "(string \<times> string) list" where
  "timeout_settings = [(annProxyConnectTimeout, ''proxy_connect_timeout''), (annProxyReadTimeout, ''proxy_read_timeout''),
     (annProxySendTimeout, ''proxy_send_timeout'')]"

text \<open>The two buffering annotations, as a pair of optional values with their issues.\<close>

definition buffering_annotation :: "ingress \<Rightarrow> bool option \<times> issue list" where
  "buffering_annotation ing =
     (let raw = trim_space (annotation ing annProxyBuffering) in
      if raw = [] then (None, [])
      else (case parse_nginx_bool raw of
              Inl err \<Rightarrow> (None, [error_issue annProxyBuffering err])
            | Inr enabled \<Rightarrow> (Some enabled, [])))"

definition buffer_size_annotation :: "ingress \<Rightarrow> string \<Rightarrow> string option \<times> issue list" where
  "buffer_size_annotation ing message =
     (let v = to_lower (trim_space (annotation ing annProxyBufferSize)) in
      if v = [] then (None, [])
      else if \<not> nginxSizePattern v then (None, [error_issue annProxyBufferSize message])
      else (Some v, []))"

definition build_proxy_settings_snippets :: "ingress \<Rightarrow> string list \<times> issue list" where
  "build_proxy_settings_snippets ing =
     (let timeouts = map (timeout_snippet ing) timeout_settings;
          (buffering, i2) = buffering_annotation ing;
          (size, i3) = buffer_size_annotation ing ''value is not supported by NGINX proxy_buffer_size''
      in (concat (map fst timeouts) @
          (case buffering of None \<Rightarrow> [] | Some True \<Rightarrow> [''proxy_buffering on;''] | Some False \<Rightarrow> [''proxy_buffering off;'']) @
          (case size of None \<Rightarrow> [] | Some v \<Rightarrow> [''proxy_buffer_size '' @ v @ '';'', ''proxy_buffers 4 '' @ v @ '';'']),
          concat (map snd timeouts) @ i2 @ i3))"

definition build_proxy_policy :: "ingress \<Rightarrow> string \<Rightarrow> local_ref \<Rightarrow> strmap \<Rightarrow> proxy_settings_policy option \<times> issue list" where
  "build_proxy_policy ing routeName target labels =
     (let (connect, i1) = duration_annotation ing annProxyConnectTimeout;
          (read, i2) = duration_annotation ing annProxyReadTimeout;
          (send, i3) = duration_annotation ing annProxySendTimeout;
          (enabled, i4) = buffering_annotation ing;
          (size, i5) = buffer_size_annotation ing ''value is not supported by NGF ProxySettingsPolicy'';
          timeout = (if connect \<noteq> None \<or> read \<noteq> None \<or> send \<noteq> None
                     then Some \<lparr>pt_connect = connect, pt_read = read, pt_send = send\<rparr> else None);
          buffering = (if enabled \<noteq> None \<or> size \<noteq> None
                       then Some \<lparr>pb_disable = map_option Not enabled, pb_buffer_size = size,
                         pb_buffers = map_option (\<lambda>v. (4, v)) size\<rparr> else None);
          issues = i1 @ i2 @ i3 @ i4 @ i5
      in if timeout = None \<and> buffering = None then (None, issues)
         else (Some \<lparr>ps_meta = \<lparr>om_name = dns_label [routeName, ''proxy''], om_namespace = ing_namespace ing, om_labels = labels\<rparr>,
                 ps_targets = [target], ps_timeout = timeout, ps_buffering = buffering\<rparr>, issues))"

text \<open>\<^verbatim>\<open>proxy-body-size\<close>: a policy, or a refusal when the settings have to be snippets.\<close>

definition body_size_settings :: "ingress \<Rightarrow> string \<Rightarrow> local_ref \<Rightarrow> strmap \<Rightarrow> bool \<Rightarrow> client_settings_policy list \<times> issue list" where
  "body_size_settings ing routeName target labels asSnippets =
     (let v = to_lower (trim_space (annotation ing annProxyBodySize)) in
      if v = [] then ([], [])
      else if asSnippets then
        ([], [error_issue annProxyBodySize
           (if \<not> nginxSizePattern v then ''value is not supported by NGINX client_max_body_size''
            else ''proxy-body-size cannot be applied faithfully to overlapping non-canary routes; consolidate the routes into one HTTPRoute'')])
      else if \<not> nginxSizePattern v then ([], [error_issue annProxyBodySize ''value is not supported by NGF ClientSettingsPolicy''])
      else ([\<lparr>cs_meta = \<lparr>om_name = dns_label [routeName, ''client''], om_namespace = ing_namespace ing, om_labels = labels\<rparr>,
              cs_target = target, cs_max_size = Some v\<rparr>], []))"

subsection \<open>Basic authentication\<close>

definition build_basic_auth :: "ingress \<Rightarrow> string \<Rightarrow> strmap \<Rightarrow> authentication_filter option \<times> issue list" where
  "build_basic_auth ing routeName labels =
     (let typ = to_lower (trim_space (annotation ing annAuthType));
          secret = trim_space (annotation ing annAuthSecret);
          realm = trim_space (annotation ing annAuthRealm)
      in if typ = [] \<and> secret = [] then (None, [])
         else if annotation ing annAuthURL \<noteq> []
         then (None, [error_issue annAuthType ''basic auth and external auth cannot be enabled on the same Ingress''])
         else if typ \<noteq> ''basic''
         then (None, [error_issue annAuthType (''authentication type '' @ quote typ @ '' is not supported'')])
         else if secret = [] \<or> contains secret ''/''
         then (None, [error_issue annAuthSecret ''auth-secret must name a Secret in the Ingress namespace''])
         else (Some \<lparr>af_meta = \<lparr>om_name = dns_label [routeName, ''basic-auth''], om_namespace = ing_namespace ing, om_labels = labels\<rparr>,
                 af_secret = secret, af_realm = (if realm = [] then ''Authentication Required'' else realm)\<rparr>, []))"

subsection \<open>External authentication\<close>

text \<open>An error carries the field of an \<^verbatim>\<open>annotationTranslationError\<close>, or none.\<close>

type_synonym auth_error = "string option \<times> string"

record header_override =
  ho_name :: string
  ho_value :: string

fun header_overrides :: "(string \<times> string) list \<Rightarrow> (string, header_override) gomap \<Rightarrow>
    auth_error + (string, header_override) gomap" where
  "header_overrides [] acc = Inr acc"
| "header_overrides ((name, v) # rest) acc =
     (if \<not> valid_header_name name \<or> nginxUnsafePattern v
      then Inl (None, ''auth-proxy-set-headers contains unsafe header '' @ quote name)
      else (case gm_get acc (to_lower name) of
              Some previous \<Rightarrow>
                Inl (None, ''auth-proxy-set-headers contains duplicate headers '' @ quote (ho_name previous) @ '' and '' @ quote name)
            | None \<Rightarrow>
                header_overrides rest (gm_put (to_lower name)
                  \<lparr>ho_name = name, ho_value = (if trim_space v = [] then ''\"\"'' else v)\<rparr> acc)))"

definition header_line :: "string \<Rightarrow> string \<Rightarrow> string" where
  "header_line name v = ''  proxy_set_header '' @ name @ '' '' @ v @ '';'' @ newline"

definition write_header :: "string \<times> string \<Rightarrow> (string, header_override) gomap \<times> string \<Rightarrow>
    (string, header_override) gomap \<times> string" where
  "write_header = (\<lambda>(name, v) (overrides, out).
     (case gm_get overrides (to_lower name) of
        Some o' \<Rightarrow> (gm_delete (to_lower name) overrides, out @ header_line name (ho_value o'))
      | None \<Rightarrow> (overrides, out @ header_line name v)))"

definition auth_headers :: "string \<Rightarrow> (string \<times> string) list" where
  "auth_headers requestRedirect =
     [(''X-Request-ID'', ''$request_id''), (''X-Original-URI'', ''$request_uri''),
      (''X-Original-URL'', ''$scheme://$http_host$request_uri''), (''X-Original-Method'', ''$request_method''),
      (''X-Sent-From'', ''\"nginx-ingress-controller\"''), (''X-Real-IP'', ''$remote_addr''),
      (''X-Forwarded-For'', ''$proxy_add_x_forwarded_for''), (''X-Forwarded-Host'', ''$http_host''),
      (''X-Forwarded-Port'', ''$server_port''), (''X-Forwarded-Proto'', ''$scheme''), (''X-Forwarded-Scheme'', ''$scheme''),
      (''X-Scheme'', ''$scheme''), (''Host'', ''$http_host''), (''X-Auth-Request-Redirect'', requestRedirect)]"

definition override_less :: "header_override \<Rightarrow> header_override \<Rightarrow> bool" where
  "override_less a b \<longleftrightarrow> ho_name a < ho_name b"

definition sorted_headers :: "strmap \<Rightarrow> (string \<times> string) list" where
  "sorted_headers headers = map (\<lambda>name. (name, gm_or [] headers name)) (sort_strings (gm_keys headers))"

definition internal_name :: "string \<Rightarrow> string" where
  "internal_name routeName = ''/_ngib_auth_'' @ replace_char CHR ''-'' CHR ''_'' (dns_label [routeName])"

definition signin_name :: "string \<Rightarrow> string" where
  "signin_name routeName = ''@ngib_signin_'' @ replace_char CHR ''-'' CHR ''_'' (dns_label [routeName])"

definition response_header_lines :: "string \<Rightarrow> string" where
  "response_header_lines header =
     (let variable = variable_name (to_lower header) in
      ''auth_request_set $ngib_auth_'' @ variable @ '' $upstream_http_'' @ variable @ '';'' @ newline @
      ''proxy_set_header '' @ header @ '' $ngib_auth_'' @ variable @ '';'' @ newline)"

text \<open>The location block of the authentication request, up to the sign-in location.\<close>

definition auth_server :: "string \<Rightarrow> url \<Rightarrow> string \<Rightarrow> string \<Rightarrow> string \<Rightarrow> string \<Rightarrow> (string, header_override) gomap \<Rightarrow> string" where
  "auth_server routeName u authMethod requestRedirect bodySize authSnippet overrides =
     (let (o1, h1) = fold write_header [(''Content-Length'', ''\"\"''), (''Proxy'', ''\"\"'')] (overrides, []);
          (o2, h2) = fold write_header (auth_headers requestRedirect) (o1, [])
      in ''location = '' @ internal_name routeName @ '' {'' @ newline @
         ''  internal;'' @ newline @ ''  proxy_intercept_errors off;'' @ newline @
         ''  proxy_pass_request_headers on;'' @ newline @ ''  proxy_pass_request_body off;'' @ newline @
         (if bodySize \<noteq> [] then ''  client_max_body_size '' @ bodySize @ '';'' @ newline else []) @
         h1 @ (if authMethod \<noteq> [] then ''  proxy_method '' @ authMethod @ '';'' @ newline else []) @ h2 @
         concat (map (\<lambda>h. header_line (ho_name h) (ho_value h)) (sort_slice override_less (map snd o2))) @
         (if ul_scheme u = ''https''
          then ''  proxy_ssl_server_name on;'' @ newline @ ''  proxy_ssl_name '' @ ul_hostname u @ '';'' @ newline else []) @
         (if authSnippet \<noteq> [] then authSnippet @ newline else []) @
         ''  proxy_pass '' @ ul_string u @ '';'' @ newline @ ''}'' @ newline)"

definition auth_location :: "string \<Rightarrow> string list \<Rightarrow> string" where
  "auth_location routeName responseHeaders =
     ''auth_request '' @ internal_name routeName @ '';'' @ newline @
     ''auth_request_set $ngib_auth_cookie $upstream_http_set_cookie;'' @ newline @
     ''add_header Set-Cookie $ngib_auth_cookie;'' @ newline @
     concat (map response_header_lines responseHeaders)"

definition auth_url_error :: "environment \<Rightarrow> string \<Rightarrow> auth_error + url" where
  "auth_url_error env rawURL =
     (case en_parse_url env rawURL of
        None \<Rightarrow> Inl (None, ''auth-url must be an absolute HTTP or HTTPS URL'')
      | Some u \<Rightarrow>
          if ul_host u = [] \<or> (ul_scheme u \<noteq> ''http'' \<and> ul_scheme u \<noteq> ''https'')
          then Inl (None, ''auth-url must be an absolute HTTP or HTTPS URL'')
          else if ul_user u \<or> nginxUnsafePattern rawURL \<or> contains rawURL ''$''
          then Inl (None, ''auth-url contains unsupported or unsafe characters'')
          else Inr u)"

definition auth_redirect :: "strmap \<Rightarrow> auth_error + string" where
  "auth_redirect annotations =
     (let r = trim_space (gm_or [] annotations annAuthRequestRedirect) in
      if r = [] then Inr ''$request_uri''
      else if nginxUnsafePattern r \<or> contains_any r blanks
      then Inl (Some annAuthRequestRedirect, ''auth-request-redirect contains unsafe characters'')
      else Inr r)"

definition auth_signin :: "string \<Rightarrow> strmap \<Rightarrow> auth_error + string \<times> string" where
  "auth_signin routeName annotations =
     (let signin = trim_space (gm_or [] annotations annAuthSignin) in
      if signin = [] then Inr ([], [])
      else if nginxUnsafePattern signin then Inl (None, ''auth-signin contains unsafe characters'')
      else if contains signin ''$escaped_request_uri''
      then Inl (None, ''auth-signin uses ingress-nginx-specific $escaped_request_uri, which NGINX Gateway Fabric does not define'')
      else Inr (''location '' @ signin_name routeName @ '' {'' @ newline @ ''  return 302 '' @ signin @ '';'' @ newline @ ''}'' @ newline,
                ''error_page 401 = '' @ signin_name routeName @ '';'' @ newline))"

definition external_auth_snippets :: "environment \<Rightarrow> string \<Rightarrow> string \<Rightarrow> strmap \<Rightarrow> string \<Rightarrow> strmap \<Rightarrow> string \<Rightarrow>
    auth_error + string \<times> string" where
  "external_auth_snippets env routeName rawURL annotations authSnippet authProxyHeaders bodySize =
     (case auth_url_error env rawURL of
        Inl err \<Rightarrow> Inl err
      | Inr u \<Rightarrow>
          let authMethod = trim_space (gm_or [] annotations annAuthMethod) in
          if authMethod \<noteq> [] \<and> \<not> nginxAuthMethodPattern authMethod
          then Inl (Some annAuthMethod, ''auth-method must be a supported uppercase HTTP method'')
          else (case auth_redirect annotations of
                  Inl err \<Rightarrow> Inl err
                | Inr redirect \<Rightarrow>
                    (case header_overrides (sorted_headers authProxyHeaders) [] of
                       Inl err \<Rightarrow> Inl err
                     | Inr overrides \<Rightarrow>
                         let responseHeaders = split_csv (gm_or [] annotations annAuthResponseHeaders) in
                         (case find (\<lambda>h. \<not> valid_header_name h) responseHeaders of
                            Some h \<Rightarrow> Inl (None, ''auth-response-headers contains invalid header '' @ quote h)
                          | None \<Rightarrow>
                              (case auth_signin routeName annotations of
                                 Inl err \<Rightarrow> Inl err
                               | Inr (signinServer, signinLocation) \<Rightarrow>
                                   Inr (auth_server routeName u authMethod redirect bodySize authSnippet overrides @ signinServer,
                                        auth_location routeName responseHeaders @ signinLocation))))))"

subsection \<open>Generated and raw snippets\<close>

definition raw_disabled_message :: string where
  "raw_disabled_message =
     ''raw snippets are disabled; start the controller with --allow-snippets only after reviewing the source''"

definition auth_snippet_of :: "ingress \<Rightarrow> bool \<Rightarrow> string \<times> issue list" where
  "auth_snippet_of ing allowRaw =
     (let authSnippet = trim_space (annotation ing annAuthSnippet) in
      if authSnippet = [] then ([], [])
      else if trim_space (annotation ing annAuthURL) = []
      then ([], [error_issue annAuthSnippet ''auth-snippet requires auth-url''])
      else if \<not> allowRaw then ([], [error_issue annAuthSnippet raw_disabled_message])
      else (authSnippet, []))"

definition request_buffering :: "ingress \<Rightarrow> string list \<times> issue list" where
  "request_buffering ing =
     (let raw = trim_space (annotation ing annProxyRequestBuffering) in
      if raw = [] then ([], [])
      else (case parse_nginx_bool raw of
              Inl err \<Rightarrow> ([], [error_issue annProxyRequestBuffering err])
            | Inr enabled \<Rightarrow> (if enabled then [] else [''proxy_request_buffering off;''], [])))"

text \<open>The external authentication of an Ingress: server lines, location lines and issues.\<close>

definition external_auth :: "environment \<Rightarrow> ingress \<Rightarrow> string \<Rightarrow> string \<Rightarrow> strmap \<Rightarrow> string list \<times> string list \<times> issue list" where
  "external_auth env ing routeName authSnippet authProxyHeaders =
     (let authURL = trim_space (annotation ing annAuthURL);
          size = to_lower (trim_space (annotation ing annProxyBodySize));
          bodySize = (if nginxSizePattern size then size else [])
      in if authURL = [] then ([], [], [])
         else (case external_auth_snippets env routeName authURL (ing_annotations ing) authSnippet authProxyHeaders bodySize of
                 Inl (field, message) \<Rightarrow>
                   ([], [], [error_issue (case field of None \<Rightarrow> annAuthURL | Some f \<Rightarrow> f) message])
               | Inr (server, location) \<Rightarrow> ([server], [location], [])))"

definition raw_snippet :: "ingress \<Rightarrow> bool \<Rightarrow> string \<Rightarrow> string list \<times> issue list" where
  "raw_snippet ing allowRaw key =
     (let raw = trim_space (annotation ing key) in
      if raw = [] then ([], [])
      else if \<not> allowRaw then ([], [error_issue key raw_disabled_message])
      else ([raw], []))"

definition snippet_of :: "snippet_context \<Rightarrow> string list \<Rightarrow> snippet list" where
  "snippet_of ctx lines = (if lines = [] then [] else [\<lparr>sn_context = ctx, sn_value = join newline lines @ newline\<rparr>])"

definition build_snippets :: "environment \<Rightarrow> ingress \<Rightarrow> string \<Rightarrow> string list \<Rightarrow> strmap \<Rightarrow> bool \<Rightarrow> strmap \<Rightarrow>
    snippets_filter option \<times> issue list" where
  "build_snippets env ing routeName generated authProxyHeaders allowRaw labels =
     (let (authSnippet, i1) = auth_snippet_of ing allowRaw;
          (buffering, i2) = request_buffering ing;
          (authServer, authLocation, i3) = external_auth env ing routeName authSnippet authProxyHeaders;
          (rawServer, i4) = raw_snippet ing allowRaw annServerSnippet;
          (rawLocation, i5) = raw_snippet ing allowRaw annConfigurationSnippet;
          server = authServer @ rawServer;
          location = generated @ buffering @ authLocation @ rawLocation;
          issues = i1 @ i2 @ i3 @ i4 @ i5
      in if server = [] \<and> location = [] then (None, issues)
         else (Some \<lparr>sf_meta = \<lparr>om_name = dns_label [routeName, ''compat''], om_namespace = ing_namespace ing, om_labels = labels\<rparr>,
                 sf_snippets = snippet_of HTTPServer server @ snippet_of HTTPServerLocation location\<rparr>, issues))"

subsection \<open>All policies of a route\<close>

definition add_proxy_policy :: "proxy_settings_policy option \<Rightarrow> plan \<Rightarrow> plan" where
  "add_proxy_policy policy p = (case policy of None \<Rightarrow> p | Some x \<Rightarrow> p\<lparr>pl_proxy := pl_proxy p @ [x]\<rparr>)"

definition add_backend_tls :: "ingress \<Rightarrow> backend_tls_config option \<Rightarrow> strmap \<Rightarrow> http_route \<times> plan \<Rightarrow> http_route \<times> plan" where
  "add_backend_tls ing backendTLS labels = (\<lambda>(route, p).
     (case backendTLS of
        None \<Rightarrow> (route, p)
      | Some config \<Rightarrow>
          if bc_verified config then (route, fold add_backend_tls_policy (build_backend_tls_policies ing route config) p)
          else add_unverified_backend_tls_filters ing config labels (route, p)))"

definition add_basic_auth :: "ingress \<Rightarrow> strmap \<Rightarrow> http_route \<times> plan \<Rightarrow> http_route \<times> plan" where
  "add_basic_auth ing labels = (\<lambda>(route, p).
     (case build_basic_auth ing (om_name (hr_meta route)) labels of
        (None, issues) \<Rightarrow> (route, add_issues issues p)
      | (Some f, issues) \<Rightarrow>
          (append_extension_filter ''AuthenticationFilter'' (om_name (af_meta f)) route,
           (add_issues issues p)\<lparr>pl_auth := pl_auth p @ [f]\<rparr>)))"

definition add_snippets :: "environment \<Rightarrow> ingress \<Rightarrow> string list \<Rightarrow> strmap \<Rightarrow> bool \<Rightarrow> strmap \<Rightarrow>
    http_route \<times> plan \<Rightarrow> http_route \<times> plan" where
  "add_snippets env ing generated authProxyHeaders allowRaw labels = (\<lambda>(route, p).
     (case build_snippets env ing (om_name (hr_meta route)) generated authProxyHeaders allowRaw labels of
        (None, issues) \<Rightarrow> (route, add_issues issues p)
      | (Some f, issues) \<Rightarrow>
          (append_extension_filter ''SnippetsFilter'' (om_name (sf_meta f)) route,
           (add_issues issues p)\<lparr>pl_snippets := pl_snippets p @ [f]\<rparr>)))"

definition add_policies :: "environment \<Rightarrow> ingress \<Rightarrow> string list \<Rightarrow> strmap \<Rightarrow> backend_tls_config option \<Rightarrow> options \<Rightarrow>
    http_route \<times> plan \<Rightarrow> http_route \<times> plan" where
  "add_policies env ing generated authProxyHeaders backendTLS options = (\<lambda>(route0, p0).
     (let labels = source_labels ing;
          name = om_name (hr_meta route0);
          target = \<lparr>lo_group = group_name, lo_kind = ''HTTPRoute'', lo_name = name\<rparr>;
          asSnippets = op_settings_as_snippets options;
          (route1, vhostIssues) = add_upstream_vhost_rewrite env ing route0;
          (settings, settingsIssues) = (if asSnippets then build_proxy_settings_snippets ing else ([], []));
          (client, clientIssues) = body_size_settings ing name target labels asSnippets;
          (proxy, proxyIssues) = (if asSnippets then (None, []) else build_proxy_policy ing name target labels);
          p1 = add_proxy_policy proxy
            ((add_issues (vhostIssues @ settingsIssues @ clientIssues @ proxyIssues) p0)\<lparr>pl_client := pl_client p0 @ client\<rparr>)
      in add_snippets env ing (generated @ settings) authProxyHeaders (op_allow_snippets options) labels
           (add_basic_auth ing labels (add_backend_tls ing backendTLS labels (route1, p1)))))"

end
