(* ===== verification/Translate.thy ===== *)
theory Translate
  imports Policies
begin

text \<open>
  \<^verbatim>\<open>Translate\<close> of \<^verbatim>\<open>internal/translator/translate.go\<close>: one Ingress, together with the canaries
  consolidated into it, becomes the objects of a plan and the issues that decide whether the plan
  may be activated.
\<close>

subsection \<open>Headers of the authentication request\<close>

definition read_config_message :: "string \<Rightarrow> string \<Rightarrow> string \<Rightarrow> string" where
  "read_config_message namespace name err = ''read ConfigMap '' @ namespace @ ''/'' @ name @ '': '' @ err"

definition config_map_name :: "ingress \<Rightarrow> string \<Rightarrow> string option" where
  "config_map_name ing reference =
     (case cut_at CHR ''/'' reference of
        None \<Rightarrow> Some reference
      | Some (ns, name) \<Rightarrow> if ns \<noteq> ing_namespace ing then None else Some name)"

definition resolve_auth_proxy_headers :: "environment \<Rightarrow> ingress \<Rightarrow> strmap \<times> issue list" where
  "resolve_auth_proxy_headers env ing =
     (let reference = trim_space (annotation ing annAuthProxySetHeaders) in
      if reference = [] then ([], [])
      else if trim_space (annotation ing annAuthURL) = []
      then ([], [error_issue annAuthProxySetHeaders ''auth-proxy-set-headers requires auth-url''])
      else (case config_map_name ing reference of
              None \<Rightarrow> ([], [error_issue annAuthProxySetHeaders ''auth proxy header ConfigMap must be in the Ingress namespace''])
            | Some name \<Rightarrow>
                (case en_resolve_config env of
                   None \<Rightarrow> ([], [error_issue annAuthProxySetHeaders ''no ConfigMap resolver is configured''])
                 | Some resolve \<Rightarrow>
                     (case resolve (ing_namespace ing) name of
                        Inl err \<Rightarrow> ([], [error_issue annAuthProxySetHeaders (read_config_message (ing_namespace ing) name err)])
                      | Inr headers \<Rightarrow> (headers, [])))))"

subsection \<open>Canaries by hostname\<close>

record canary_input =
  ca_ingress :: ingress
  ca_input :: host_input

record canary_state =
  cs_by_host :: "(string, canary_input list) gomap"
  cs_footprints :: "(string, string) gomap"
  cs_issues :: "issue list"

definition canary_conflict_message :: "string \<Rightarrow> string \<Rightarrow> string" where
  "canary_conflict_message existing name =
     ''canary Ingresses '' @ existing @ '' and '' @ name @
     '' target the same hostname and path; ingress-nginx permits only one canary per rule''"

definition claim_footprint :: "string \<Rightarrow> string \<Rightarrow> http_path \<Rightarrow> canary_state \<Rightarrow> canary_state" where
  "claim_footprint name hostname path st =
     (let f = hostname @ [CHR 0x00] @ path_value path in
      case gm_get (cs_footprints st) f of
        Some existing \<Rightarrow>
          if existing \<noteq> name
          then st\<lparr>cs_issues := cs_issues st @ [error_issue annCanary (canary_conflict_message existing name)]\<rparr>
          else st\<lparr>cs_footprints := gm_put f name (cs_footprints st)\<rparr>
      | None \<Rightarrow> st\<lparr>cs_footprints := gm_put f name (cs_footprints st)\<rparr>)"

definition collect_canary_input :: "ingress \<Rightarrow> host_input \<Rightarrow> canary_state \<Rightarrow> canary_state" where
  "collect_canary_input canary input st =
     (let st' = fold (claim_footprint (ing_name canary) (hi_hostname input)) (hi_paths input) st
      in st'\<lparr>cs_by_host := multi_put (hi_hostname input) \<lparr>ca_ingress = canary, ca_input = input\<rparr> (cs_by_host st')\<rparr>)"

definition collect_canary :: "ingress \<Rightarrow> options \<Rightarrow> ingress \<Rightarrow> canary_state \<Rightarrow> canary_state" where
  "collect_canary primary options raw st =
     (let canary = inherited_canary_ingress primary raw;
          (inputs, issues) = collect_hosts canary options
      in fold (collect_canary_input canary) inputs (st\<lparr>cs_issues := cs_issues st @ validate_canary raw @ issues\<rparr>))"

definition collect_canaries :: "ingress \<Rightarrow> options \<Rightarrow> canary_state" where
  "collect_canaries ing options =
     fold (collect_canary ing options) (op_canaries options) \<lparr>cs_by_host = [], cs_footprints = [], cs_issues = []\<rparr>"

subsection \<open>Routes with their canary rules\<close>

definition add_canary_path :: "environment \<Rightarrow> ingress \<Rightarrow> http_path \<Rightarrow> http_route \<times> issue list \<Rightarrow> http_route \<times> issue list" where
  "add_canary_path env canary path = (\<lambda>(route, issues).
     (case build_rule env canary path (length (hr_rules route)) of (rule, ruleIssues, _) \<Rightarrow>
        (route\<lparr>hr_rules := hr_rules route @ [rule]\<rparr>, issues @ ruleIssues)))"

definition add_canary_rules :: "environment \<Rightarrow> canary_input list \<Rightarrow> http_route \<times> issue list \<Rightarrow> http_route \<times> issue list" where
  "add_canary_rules env canaries st =
     fold (\<lambda>c. fold (add_canary_path env (ca_ingress c)) (hi_paths (ca_input c))) canaries st"

definition too_many_rules :: "http_route \<Rightarrow> issue list" where
  "too_many_rules route =
     (if length (hr_rules route) > 16
      then [error_issue ''spec.rules.paths'' ''a generated HTTPRoute cannot contain more than 16 primary and canary rules'']
      else [])"

definition needs_redirect :: "ingress \<Rightarrow> host_input \<Rightarrow> bool" where
  "needs_redirect ing input \<longleftrightarrow> hi_tls_hostname input \<noteq> [] \<and> ssl_redirect_enabled (ing_annotations ing) \<and>
     \<not> parse_bool (annotation ing annCanary) \<and> \<not> is_acme_http01_solver ing"

definition translate_host :: "environment \<Rightarrow> ingress \<Rightarrow> options \<Rightarrow> (string, canary_input list) gomap \<Rightarrow> strmap \<Rightarrow>
    backend_tls_config option \<Rightarrow> host_input \<Rightarrow> plan \<Rightarrow> plan" where
  "translate_host env ing options canaries headers backendTLS input p =
     (case build_route env ing input options of (route0, routeIssues, snippets) \<Rightarrow>
        (case add_canary_rules env (gm_or [] canaries (hi_hostname input)) (route0, []) of (route1, canaryIssues) \<Rightarrow>
           (case add_policies env ing snippets headers backendTLS options
                   (route1, add_issues (routeIssues @ canaryIssues @ too_many_rules route1) p) of (route2, p2) \<Rightarrow>
              p2\<lparr>pl_routes := pl_routes p2 @ [route2] @
                 (if needs_redirect ing input then [build_redirect_route ing (hi_hostname input) options] else [])\<rparr>)))"

subsection \<open>The translation\<close>

definition protocol_settings :: "environment \<Rightarrow> ingress \<Rightarrow> backend_tls_config option \<times> issue list" where
  "protocol_settings env ing =
     (let raw = to_upper (trim_space (annotation ing annBackendProtocol));
          protocol = (if raw = [] then ''HTTP'' else raw)
      in if protocol = ''HTTPS'' then parse_backend_tls env ing
         else if protocol \<noteq> ''HTTP''
         then (None, [error_issue annBackendProtocol
           (''backend protocol '' @ quote protocol @ '' cannot be reproduced by the current NGF translation'')])
         else (None, []))"

definition http_version_issues :: "ingress \<Rightarrow> issue list" where
  "http_version_issues ing =
     (let version = trim_space (annotation ing annProxyHTTPVersion) in
      if version \<noteq> [] \<and> version \<noteq> ''1.1''
      then [error_issue annProxyHTTPVersion
        (''NGF uses upstream HTTP/1.1; proxy HTTP version '' @ quote version @ '' is not supported'')]
      else [])"

definition translate :: "environment \<Rightarrow> ingress \<Rightarrow> options \<Rightarrow> plan" where
  "translate env ing options =
     (let (backendTLS, tlsIssues) = protocol_settings env ing;
          (headers, headerIssues) = resolve_auth_proxy_headers env ing;
          canaries = collect_canaries ing options;
          (inputs, hostIssues) = collect_hosts ing options;
          start = add_issues
            (check_unknown_annotations ing (op_strict options) @ validate_whitelist_source_range ing @ validate_canary ing @
             tlsIssues @ http_version_issues ing @ headerIssues @ cs_issues canaries @ hostIssues) empty_plan
      in fold (translate_host env ing options (cs_by_host canaries) headers backendTLS) inputs start)"

end
