(* ===== verification/Cluster.thy ===== *)
theory Cluster
  imports Observed CertificateCache Readiness Watches Translate
begin

text \<open>
  The reconciler's side of the API server, for \<^verbatim>\<open>internal/controller/ingress_controller.go\<close> and
  \<^verbatim>\<open>managed_gateway.go\<close>: the calls it makes, the state it keeps between them, and \<^verbatim>\<open>apply\<close>,
  \<^verbatim>\<open>pruneSource\<close>, \<^verbatim>\<open>deleteListItems\<close> and \<^verbatim>\<open>pruneListenerSets\<close>. What the API server answers is a
  parameter, a record of functions of the calls made so far, so that it may change at every call.
\<close>

subsection \<open>Calls\<close>

text \<open>The objects that are server-side applied.\<close>

datatype applied =
    AppGrant reference_grant
  | AppGateway gateway
  | AppSet listener_set
  | AppGenerated generated
  | AppTranslation object_meta string

fun app_key :: "applied \<Rightarrow> string \<times> nsname" where
  "app_key (AppGrant g) = (''ReferenceGrant'', object_key (rg_meta g))"
| "app_key (AppGateway g) = (''Gateway'', object_key (gw_meta g))"
| "app_key (AppSet s) = (''ListenerSet'', object_key (ls_meta s))"
| "app_key (AppGenerated g) = gen_key g"
| "app_key (AppTranslation m ingress) = (''IngressTranslation'', object_key m)"

text \<open>
  The reads of a whole check or plan are one \<^theory_text>\<open>CallReads\<close>; \<^theory_text>\<open>CallPatchIngress\<close> sends the
  difference of two versions of an Ingress, the two status calls patch a status.
\<close>

datatype call =
    CallReads string
  | CallGet string nsname
  | CallList string "string option" strmap
  | CallApply applied
  | CallDelete string nsname
  | CallPatchIngress ingress ingress
  | CallMirror nsname "lb_ingress list"
  | CallTranslationStatus nsname translation_status

datatype 'e written = Written | Missing | WriteFailed 'e

datatype 'e failure =
    ApiError 'e
  | NotFound
  | RefusedToAdopt string nsname
  | Joined "'e failure list"

text \<open>
  The answers. A patch returns the object as the server has it then; of that the code reads an
  Ingress, the parents of a route with their defaults filled in, and the status of an
  IngressTranslation. \<^verbatim>\<open>SetControllerReference\<close> and \<^verbatim>\<open>json.Marshal\<close> can refuse an object.
\<close>

record 'e api =
  api_labels :: "call list \<Rightarrow> string \<Rightarrow> nsname \<Rightarrow> 'e + strmap option"
  api_list :: "call list \<Rightarrow> string \<Rightarrow> string option \<Rightarrow> strmap \<Rightarrow> 'e + nsname list"
  api_write :: "call list \<Rightarrow> call \<Rightarrow> 'e written"
  api_ingresses :: "call list \<Rightarrow> string option \<Rightarrow> 'e + ingress list"
  api_ingress :: "call list \<Rightarrow> nsname \<Rightarrow> 'e + ingress option"
  api_secret :: "call list \<Rightarrow> nsname \<Rightarrow> 'e + tls_secret_object option"
  api_gateway :: "call list \<Rightarrow> 'e + gateway option"
  api_sets :: "call list \<Rightarrow> 'e + listener_set list"
  api_service :: "call list \<Rightarrow> nsname \<Rightarrow> 'e + (string \<times> int) list option"
  api_config_map :: "call list \<Rightarrow> nsname \<Rightarrow> 'e + strmap option"
  api_view :: "call list \<Rightarrow> 'e view"
  api_patched :: "call list \<Rightarrow> ingress \<Rightarrow> ingress"
  api_parents :: "call list \<Rightarrow> http_route \<Rightarrow> parent_ref list"
  api_status :: "call list \<Rightarrow> nsname \<Rightarrow> translation_status"
  api_owner :: "ingress \<Rightarrow> object_meta \<Rightarrow> 'e option"
  api_encode :: "applied \<Rightarrow> 'e option"
  api_text :: "'e \<Rightarrow> string"
  api_missing :: "string \<Rightarrow> nsname \<Rightarrow> string"
  api_codec :: codec
  api_env :: environment

subsection \<open>The state and its actions\<close>

text \<open>
  The fields of \<^verbatim>\<open>IngressReconciler\<close> that change, \<^theory_text>\<open>None\<close> for nil, after the log of the calls made.
\<close>

record bridge =
  st_log :: "call list"
  st_placements :: "placements option"
  st_certs :: "cert_cache option"
  st_affected :: "nsname list option"

type_synonym ('a, 'e) action = "bridge \<Rightarrow> ('e failure + 'a) \<times> bridge"

definition return' :: "'a \<Rightarrow> ('a, 'e) action" where
  "return' x = (\<lambda>st. (Inr x, st))"

definition fail :: "'e failure \<Rightarrow> ('a, 'e) action" where
  "fail err = (\<lambda>st. (Inl err, st))"

text \<open>\<^verbatim>\<open>if err != nil { return err }\<close> between two actions.\<close>

definition and_then :: "('a, 'e) action \<Rightarrow> ('a \<Rightarrow> ('b, 'e) action) \<Rightarrow> ('b, 'e) action" where
  "and_then m f = (\<lambda>st. case m st of (Inl err, st') \<Rightarrow> (Inl err, st') | (Inr x, st') \<Rightarrow> f x st')"

definition logged :: "call \<Rightarrow> bridge \<Rightarrow> bridge" where
  "logged c st = st\<lparr>st_log := st_log st @ [c]\<rparr>"

text \<open>A read: its answer is that of the API server when the call is made.\<close>

definition ask :: "call \<Rightarrow> (call list \<Rightarrow> 'e + 'a) \<Rightarrow> ('a, 'e) action" where
  "ask c answer = (\<lambda>st. case answer (st_log st) of
     Inl err \<Rightarrow> (Inl (ApiError err), logged c st) | Inr x \<Rightarrow> (Inr x, logged c st))"

definition perform :: "'e api \<Rightarrow> call \<Rightarrow> (unit, 'e) action" where
  "perform api c = (\<lambda>st. case api_write api (st_log st) c of
     Written \<Rightarrow> (Inr (), logged c st) | Missing \<Rightarrow> (Inl NotFound, logged c st) | WriteFailed err \<Rightarrow> (Inl (ApiError err), logged c st))"

definition or_fail :: "'e option \<Rightarrow> (unit, 'e) action" where
  "or_fail err = (case err of None \<Rightarrow> return' () | Some e \<Rightarrow> fail (ApiError e))"

fun for_each :: "('a \<Rightarrow> (unit, 'e) action) \<Rightarrow> 'a list \<Rightarrow> (unit, 'e) action" where
  "for_each f [] = return' ()"
| "for_each f (x # xs) = and_then (f x) (\<lambda>_. for_each f xs)"

text \<open>A loop that goes on after an error and joins the errors at the end.\<close>

fun collect_errors :: "('a \<Rightarrow> (unit, 'e) action) \<Rightarrow> 'a list \<Rightarrow> bridge \<Rightarrow> 'e failure list \<times> bridge" where
  "collect_errors f [] st = ([], st)"
| "collect_errors f (x # xs) st =
     (case f x st of
        (Inl err, st') \<Rightarrow> (let (errs, st'') = collect_errors f xs st' in (err # errs, st''))
      | (Inr _, st') \<Rightarrow> collect_errors f xs st')"

definition join_errors :: "('a \<Rightarrow> (unit, 'e) action) \<Rightarrow> 'a list \<Rightarrow> (unit, 'e) action" where
  "join_errors f xs = (\<lambda>st. case collect_errors f xs st of
     ([], st') \<Rightarrow> (Inr (), st') | (errs, st') \<Rightarrow> (Inl (Joined errs), st'))"

subsection \<open>Applying an object\<close>

definition apply_object :: "'e api \<Rightarrow> applied \<Rightarrow> (unit, 'e) action" where
  "apply_object api object =
     and_then (ask (CallGet (fst (app_key object)) (snd (app_key object)))
         (\<lambda>log. api_labels api log (fst (app_key object)) (snd (app_key object))))
       (\<lambda>current.
          if (case current of None \<Rightarrow> False | Some labels \<Rightarrow> gm_or [] labels ManagedByLabel \<noteq> ControllerName)
          then fail (RefusedToAdopt (fst (app_key object)) (snd (app_key object)))
          else and_then (or_fail (api_encode api object)) (\<lambda>_. perform api (CallApply object)))"

subsection \<open>Deleting what is no longer wanted\<close>

text \<open>\<^verbatim>\<open>client.IgnoreNotFound\<close>: an object that is already gone is fine.\<close>

definition delete_object :: "'e api \<Rightarrow> string \<Rightarrow> nsname \<Rightarrow> (unit, 'e) action" where
  "delete_object api kind key = (\<lambda>st.
     case perform api (CallDelete kind key) st of (Inl NotFound, st') \<Rightarrow> (Inr (), st') | r \<Rightarrow> r)"

definition delete_list_items :: "'e api \<Rightarrow> string \<Rightarrow> (string \<times> nsname) list \<Rightarrow> nsname list \<Rightarrow> (unit, 'e) action" where
  "delete_list_items api kind keep items =
     join_errors (delete_object api kind) (filter (\<lambda>key. (kind, key) \<notin> set keep) items)"

definition prunedKinds :: "string list" where
  "prunedKinds = [''HTTPRoute'', ''BackendTLSPolicy'', ''ClientSettingsPolicy'', ''ProxySettingsPolicy'',
     ''AuthenticationFilter'', ''SnippetsFilter'']"

definition source_selector :: "nsname \<Rightarrow> strmap" where
  "source_selector source =
     [(ManagedByLabel, ControllerName), (SourceNamespaceLabel, nn_namespace source),
      (SourceNameLabel, source_name_label_value (nn_name source))]"

definition prune_kind :: "'e api \<Rightarrow> nsname \<Rightarrow> (string \<times> nsname) list \<Rightarrow> string \<Rightarrow> (unit, 'e) action" where
  "prune_kind api source keep kind =
     and_then (ask (CallList kind (Some (nn_namespace source)) (source_selector source))
         (\<lambda>log. api_list api log kind (Some (nn_namespace source)) (source_selector source)))
       (delete_list_items api kind keep)"

definition prune_source :: "'e api \<Rightarrow> nsname \<Rightarrow> generated list \<Rightarrow> bool \<Rightarrow> (unit, 'e) action" where
  "prune_source api source desired includeStatus =
     join_errors (prune_kind api source (map gen_key desired))
       (prunedKinds @ (if includeStatus then [''IngressTranslation''] else []))"

definition gateway_selector :: "config \<Rightarrow> strmap" where
  "gateway_selector c =
     [(ManagedByLabel, ControllerName), (GatewayLabel, gateway_label_value (cf_namespace c) (cf_name c))]"

text \<open>The loops over ListenerSets and ReferenceGrants stop at the first error.\<close>

definition delete_others :: "'e api \<Rightarrow> string \<Rightarrow> nsname list \<Rightarrow> nsname list \<Rightarrow> (unit, 'e) action" where
  "delete_others api kind keep items = for_each (delete_object api kind) (filter (\<lambda>key. key \<notin> set keep) items)"

definition prune_listener_sets :: "'e api \<Rightarrow> config \<Rightarrow> nsname list \<Rightarrow> (unit, 'e) action" where
  "prune_listener_sets api c desired =
     and_then (ask (CallList ''ListenerSet'' (Some (cf_namespace c)) (gateway_selector c))
         (\<lambda>log. api_list api log ''ListenerSet'' (Some (cf_namespace c)) (gateway_selector c)))
       (delete_others api ''ListenerSet'' desired)"

subsection \<open>Resolvers\<close>

definition resolve_service_port :: "'e api \<Rightarrow> call list \<Rightarrow> string \<Rightarrow> string \<Rightarrow> string \<Rightarrow> string + int" where
  "resolve_service_port api log namespace serviceName portName =
     (let unread = (\<lambda>text'. Inl (''resolve named port '' @ quote portName @ '' on Service '' @ namespace @ ''/'' @ serviceName @ '': '' @ text'))
      in (case api_service api log (nsname namespace serviceName) of
            Inl err \<Rightarrow> unread (api_text api err)
          | Inr None \<Rightarrow> unread (api_missing api ''Service'' (nsname namespace serviceName))
          | Inr (Some ports) \<Rightarrow>
              (case find (\<lambda>p. fst p = portName) ports of
                 Some port \<Rightarrow> Inr (snd port)
               | None \<Rightarrow> Inl (''service '' @ namespace @ ''/'' @ serviceName @ '' has no port named '' @ quote portName))))"

definition resolve_config_map :: "'e api \<Rightarrow> call list \<Rightarrow> string \<Rightarrow> string \<Rightarrow> string + strmap" where
  "resolve_config_map api log namespace name =
     (case api_config_map api log (nsname namespace name) of
        Inl err \<Rightarrow> Inl (api_text api err)
      | Inr None \<Rightarrow> Inl (api_missing api ''ConfigMap'' (nsname namespace name))
      | Inr (Some data) \<Rightarrow> Inr data)"

definition resolving :: "'e api \<Rightarrow> call list \<Rightarrow> environment" where
  "resolving api log =
     (api_env api)\<lparr>en_resolve_port := Some (resolve_service_port api log), en_resolve_config := Some (resolve_config_map api log)\<rparr>"

end
