(* ===== verification/ManagedReconcile.thy ===== *)
theory ManagedReconcile
  imports Cluster
begin

text \<open>
  \<^verbatim>\<open>reconcileManagedGateway\<close> of \<^verbatim>\<open>internal/controller/ingress_controller.go\<close>: the managed Gateway, its
  ListenerSets and its certificate grants are planned from every selected Ingress and applied.
\<close>

subsection \<open>The inputs of the plan\<close>

definition read_certificates :: "'e api \<Rightarrow> config \<Rightarrow> ingress list \<Rightarrow> ((nsname, certificate_info) gomap option, 'e) action" where
  "read_certificates api c ings = (\<lambda>st.
     case certificate_infos (api_codec api) c (api_secret api (st_log st)) ings (st_certs st) of
       (Inl err, certs) \<Rightarrow> (Inl (ApiError err), (logged (CallReads ''Secret'') st)\<lparr>st_certs := certs\<rparr>)
     | (Inr infos, certs) \<Rightarrow> (Inr infos, (logged (CallReads ''Secret'') st)\<lparr>st_certs := certs\<rparr>))"

definition commit_placements :: "placements \<Rightarrow> (unit, 'e) action" where
  "commit_placements placements = (\<lambda>st. (Inr (), st\<lparr>st_placements := Some placements\<rparr>))"

text \<open>The placements of the last plan; the first plan after a start reads them from the cluster.\<close>

definition known_placements :: "'e api \<Rightarrow> config \<Rightarrow> (placements, 'e) action" where
  "known_placements api c = (\<lambda>st.
     case st_placements st of
       Some previous \<Rightarrow> (Inr previous, st)
     | None \<Rightarrow>
         and_then (ask (CallReads ''ListenerSet'') (\<lambda>log. observed_listener_placements c (api_gateway api log) (api_sets api log)))
           (\<lambda>observed. and_then (commit_placements observed) (\<lambda>_. return' observed)) st)"

subsection \<open>Applying the plan\<close>

definition apply_plan :: "'e api \<Rightarrow> gateway_plan \<Rightarrow> (unit, 'e) action" where
  "apply_plan api plan =
     and_then (for_each (apply_object api) (map AppGrant (gp_grants plan)))
       (\<lambda>_. and_then (apply_object api (AppGateway (gp_gateway plan)))
         (\<lambda>_. for_each (apply_object api) (map AppSet (gp_sets plan))))"

definition prune_grants :: "'e api \<Rightarrow> config \<Rightarrow> nsname list \<Rightarrow> (unit, 'e) action" where
  "prune_grants api c desired =
     and_then (ask (CallList ''ReferenceGrant'' None (gateway_selector c))
         (\<lambda>log. api_list api log ''ReferenceGrant'' None (gateway_selector c)))
       (delete_others api ''ReferenceGrant'' desired)"

definition prune_plan :: "'e api \<Rightarrow> config \<Rightarrow> gateway_plan \<Rightarrow> (unit, 'e) action" where
  "prune_plan api c plan =
     and_then (if cf_sets_available c then prune_listener_sets api c (map (\<lambda>s. object_key (ls_meta s)) (gp_sets plan)) else return' ())
       (\<lambda>_. prune_grants api c (map (\<lambda>g. object_key (rg_meta g)) (gp_grants plan)))"

definition push_changed :: "ingress list \<Rightarrow> string list \<Rightarrow> string list \<Rightarrow> (unit, 'e) action" where
  "push_changed ings tlsHosts changed = (\<lambda>st.
     (Inr (), st\<lparr>st_affected := map_option (enqueue_affected_ingresses ings tlsHosts changed) (st_affected st)\<rparr>))"

definition active :: "config \<Rightarrow> ingress \<Rightarrow> bool" where
  "active c ing \<longleftrightarrow> selected c ing \<and> \<not> ing_deleting ing"

definition execute_plan :: "'e api \<Rightarrow> config \<Rightarrow> ingress list \<Rightarrow> placements \<Rightarrow> managed_options \<Rightarrow> (gateway_plan, 'e) action" where
  "execute_plan api c ings previous options =
     (let plan = build_managed_gateway ings options; changed = changed_tls_hosts previous plan options in
      and_then (commit_placements (gp_placements plan))
        (\<lambda>_. and_then (apply_plan api plan)
          (\<lambda>_. and_then (prune_plan api c plan)
            (\<lambda>_. and_then (push_changed ings (gp_tls_hosts plan) changed) (\<lambda>_. return' plan)))))"

definition reconcile_managed_gateway :: "'e api \<Rightarrow> config \<Rightarrow> (gateway_plan, 'e) action" where
  "reconcile_managed_gateway api c =
     and_then (ask (CallList ''Ingress'' None []) (\<lambda>log. api_ingresses api log None))
       (\<lambda>items. and_then (read_certificates api c (filter (active c) items))
         (\<lambda>certificates. and_then (known_placements api c)
           (\<lambda>previous. execute_plan api c (filter (active c) items) previous (managed_options_of c certificates previous))))"

end
