(* ===== verification/Reconcile.thy ===== *)
theory Reconcile
  imports ManagedReconcile
begin

text \<open>
  \<^verbatim>\<open>Reconcile\<close> of \<^verbatim>\<open>internal/controller/ingress_controller.go\<close> with the status writes of
  \<^verbatim>\<open>internal/controller/status.go\<close>: one request, from the first read to the last patch.
\<close>

definition finalizerName :: string where
  "finalizerName = ''gateway.zyno.io/cleanup''"

definition certificateSyncKey :: nsname where
  "certificateSyncKey = nsname [] ''ingress-nginx-gateway-bridge-certificate-sync''"

subsection \<open>The plan of an Ingress\<close>

definition translate_options :: "config \<Rightarrow> gateway_plan option \<Rightarrow> options" where
  "translate_options c gatewayPlan =
     \<lparr>op_gateway = \<lparr>go_namespace = cf_namespace c, go_name = cf_name c, go_http_section = cf_http_section c,
        go_https_section = cf_https_section c,
        go_tls_sections = (case gatewayPlan of None \<Rightarrow> [] | Some p \<Rightarrow> gp_tls_sections p), go_managed = cf_manage c\<rparr>,
      op_tls_hosts = map_option gp_tls_hosts gatewayPlan, op_allow_snippets = cf_allow_snippets c, op_strict = cf_strict c,
      op_settings_as_snippets = False, op_canaries = []\<rparr>"

definition name_less :: "ingress \<Rightarrow> ingress \<Rightarrow> bool" where
  "name_less a b \<longleftrightarrow> ing_name a < ing_name b"

interpretation names: key_order ing_name name_less
  by unfold_locales (simp add: name_less_def)

definition delegated_plan :: "(string, string) gomap \<Rightarrow> ingress \<Rightarrow> plan" where
  "delegated_plan assignments ing =
     (case gm_get assignments (ing_name ing) of
        None \<Rightarrow> add_issues (validate_canary ing @ [error_issue ingressNginxCanaryAnnotation
          ''canary Ingress has no corresponding selected primary Ingress with the same hostname and paths'']) empty_plan
      | Some primaryName \<Rightarrow> (add_issues (validate_canary ing @ [warning_issue ingressNginxCanaryAnnotation
          (''canary routing is consolidated into primary Ingress '' @ primaryName)]) empty_plan)\<lparr>pl_delegated := primaryName\<rparr>)"

definition canaries_of :: "ingress list \<Rightarrow> ingress \<Rightarrow> ingress list" where
  "canaries_of ings ing =
     sort_slice name_less (filter (\<lambda>candidate. gm_or [] (canary_assignments ings) (ing_name candidate) = ing_name ing) ings)"

definition translate_ingress :: "'e api \<Rightarrow> ingress \<Rightarrow> options \<Rightarrow> (plan, 'e) action" where
  "translate_ingress api ing options = (\<lambda>st.
     (Inr (translate (resolving api (st_log st)) ing options), logged (CallReads ''backends'') st))"

definition ingress_plan :: "'e api \<Rightarrow> config \<Rightarrow> gateway_plan option \<Rightarrow> ingress list \<Rightarrow> ingress \<Rightarrow> (plan, 'e) action" where
  "ingress_plan api c gatewayPlan ings ing =
     (if is_canary_ingress ing then return' (delegated_plan (canary_assignments ings) ing)
      else let canaries = canaries_of ings ing in
        and_then (ask (CallList ''Ingress'' (Some (ing_namespace ing)) [])
            (\<lambda>log. requires_settings_snippets c (api_ingresses api log (Some (ing_namespace ing))) ing (map ing_name canaries)))
          (\<lambda>settings. translate_ingress api ing
             ((translate_options c gatewayPlan)\<lparr>op_canaries := canaries, op_settings_as_snippets := settings\<rparr>)))"

definition with_gateway_issues :: "gateway_plan option \<Rightarrow> nsname \<Rightarrow> plan \<Rightarrow> plan" where
  "with_gateway_issues gatewayPlan request plan =
     (case gatewayPlan of None \<Rightarrow> plan | Some p \<Rightarrow> add_issues (gm_or [] (gp_issues p) request) plan)"

subsection \<open>The generated objects\<close>

text \<open>The object as the patch returned it.\<close>

fun received :: "'e api \<Rightarrow> call list \<Rightarrow> generated \<Rightarrow> generated" where
  "received api log (GenRoute r) = GenRoute (r\<lparr>hr_parents := api_parents api log r\<rparr>)"
| "received api log g = g"

fun apply_desired :: "'e api \<Rightarrow> ingress \<Rightarrow> generated list \<Rightarrow> (generated list, 'e) action" where
  "apply_desired api ing [] = return' []"
| "apply_desired api ing (g # gs) =
     and_then (or_fail (api_owner api ing (gen_meta g)))
       (\<lambda>_. and_then (apply_object api (AppGenerated g))
         (\<lambda>_ st. and_then (apply_desired api ing gs) (\<lambda>rest. return' (received api (st_log st) g # rest)) st))"

definition received_ingress :: "'e api \<Rightarrow> call list \<Rightarrow> ingress \<Rightarrow> ingress" where
  "received_ingress api log sent =
     (api_patched api log sent)\<lparr>ing_namespace := ing_namespace sent, ing_name := ing_name sent\<rparr>"

definition patch_ingress :: "'e api \<Rightarrow> ingress \<Rightarrow> ingress \<Rightarrow> (ingress, 'e) action" where
  "patch_ingress api before sent =
     and_then (perform api (CallPatchIngress before sent)) (\<lambda>_ st. (Inr (received_ingress api (st_log st) sent), st))"

definition ensure_finalizer :: "'e api \<Rightarrow> ingress \<Rightarrow> (ingress, 'e) action" where
  "ensure_finalizer api ing =
     (if finalizerName \<in> set (ing_finalizers ing) then return' ing
      else patch_ingress api ing (ing\<lparr>ing_finalizers := ing_finalizers ing @ [finalizerName]\<rparr>))"

definition detached :: "ingress \<Rightarrow> ingress" where
  "detached ing = ing\<lparr>ing_finalizers := removeAll finalizerName (ing_finalizers ing),
     ing_labels := gm_delete TranslationStatusLabel (ing_labels ing)\<rparr>"

definition detach :: "'e api \<Rightarrow> ingress \<Rightarrow> (unit, 'e) action" where
  "detach api ing =
     (if finalizerName \<in> set (ing_finalizers ing) \<or> gm_or [] (ing_labels ing) TranslationStatusLabel \<noteq> []
      then and_then (patch_ingress api ing (detached ing)) (\<lambda>_. return' ())
      else return' ())"

subsection \<open>The status\<close>

definition translation_meta :: "ingress \<Rightarrow> object_meta" where
  "translation_meta ing = \<lparr>om_name = ing_name ing, om_namespace = ing_namespace ing, om_labels = source_labels ing\<rparr>"

definition patch_label :: "'e api \<Rightarrow> ingress \<Rightarrow> string \<Rightarrow> (ingress, 'e) action" where
  "patch_label api ing label =
     (if gm_or [] (ing_labels ing) TranslationStatusLabel = label then return' ing
      else patch_ingress api ing (ing\<lparr>ing_labels := gm_put TranslationStatusLabel label (ing_labels ing)\<rparr>))"

definition write_status :: "'e api \<Rightarrow> nsname \<Rightarrow> translation_status \<Rightarrow> translation_status \<Rightarrow> (unit, 'e) action" where
  "write_status api key before status =
     (if before = status then return' () else perform api (CallTranslationStatus key status))"

definition reconcile_translation_status ::
  "'e api \<Rightarrow> config \<Rightarrow> ingress \<Rightarrow> plan \<Rightarrow> generated list \<Rightarrow> (ingress, 'e) action" where
  "reconcile_translation_status api c ing plan desired =
     and_then (or_fail (api_owner api ing (translation_meta ing)))
       (\<lambda>_. and_then (apply_object api (AppTranslation (translation_meta ing) (ing_name ing)))
         (\<lambda>_ st. let before = api_status api (st_log st) (ing_key ing) in
            and_then (ask (CallReads ''status'')
                (\<lambda>log. compute_translation_status c (api_view api log) ing plan desired (tr_conditions before)))
              (\<lambda>(status, label). and_then (write_status api (ing_key ing) before status) (\<lambda>_. patch_label api ing label)) st))"

definition mirror_ingress_status :: "'e api \<Rightarrow> config \<Rightarrow> ingress \<Rightarrow> generated list \<Rightarrow> (unit, 'e) action" where
  "mirror_ingress_status api c ing desired =
     and_then (ask (CallReads ''addresses'')
         (\<lambda>log. mirrored_status c (api_view api log)
            (vw_gateway (api_view api (log @ [CallReads ''Gateway''])) (nsname (cf_namespace c) (cf_name c))) ing desired))
       (\<lambda>addresses. case addresses of None \<Rightarrow> return' () | Some as \<Rightarrow> perform api (CallMirror (ing_key ing) as))"

subsection \<open>Requests\<close>

definition managed_plan :: "'e api \<Rightarrow> config \<Rightarrow> (gateway_plan option, 'e) action" where
  "managed_plan api c =
     (if cf_manage c then and_then (reconcile_managed_gateway api c) (\<lambda>plan. return' (Some plan)) else return' None)"

text \<open>An Ingress that is gone, going or not selected: what was generated for it is removed.\<close>

definition release :: "'e api \<Rightarrow> config \<Rightarrow> nsname \<Rightarrow> ingress option \<Rightarrow> (unit, 'e) action" where
  "release api c request found =
     and_then (prune_source api request [] True)
       (\<lambda>_. and_then (managed_plan api c)
         (\<lambda>_. case found of None \<Rightarrow> return' () | Some ing \<Rightarrow> detach api ing))"

text \<open>Everything after the plan.\<close>

definition activate :: "'e api \<Rightarrow> config \<Rightarrow> nsname \<Rightarrow> ingress \<Rightarrow> plan \<Rightarrow> (unit, 'e) action" where
  "activate api c request ing plan =
     and_then (if plan_fatal plan then return' [] else apply_desired api ing (plan_objects plan))
       (\<lambda>desired. and_then (prune_source api request desired False)
         (\<lambda>_. and_then (reconcile_translation_status api c ing plan desired)
           (\<lambda>ing'. if cf_update_status c \<and> \<not> plan_fatal plan \<and> pl_delegated plan = []
              then mirror_ingress_status api c ing' desired else return' ())))"

definition serve :: "'e api \<Rightarrow> config \<Rightarrow> nsname \<Rightarrow> ingress \<Rightarrow> (unit, 'e) action" where
  "serve api c request found =
     and_then (ensure_finalizer api found)
       (\<lambda>ing. and_then (managed_plan api c)
         (\<lambda>gatewayPlan. and_then (ask (CallList ''Ingress'' (Some (ing_namespace ing)) []) (\<lambda>log. api_ingresses api log (Some (ing_namespace ing))))
           (\<lambda>items. and_then (ingress_plan api c gatewayPlan (filter (active c) items) ing)
             (\<lambda>plan. activate api c request ing (with_gateway_issues gatewayPlan request plan)))))"

definition forget_certificates :: "(unit, 'e) action" where
  "forget_certificates = (\<lambda>st. (Inr (), st\<lparr>st_certs := None\<rparr>))"

definition reconcile :: "'e api \<Rightarrow> config \<Rightarrow> nsname \<Rightarrow> (unit, 'e) action" where
  "reconcile api c request =
     (if request = certificateSyncKey
      then if \<not> cf_manage c then return' ()
           else and_then forget_certificates (\<lambda>_. and_then (reconcile_managed_gateway api c) (\<lambda>_. return' ()))
      else if request = globalReconcileKey then and_then (managed_plan api c) (\<lambda>_. return' ())
      else and_then (ask (CallGet ''Ingress'' request) (\<lambda>log. api_ingress api log request))
        (\<lambda>found. case found of
            None \<Rightarrow> release api c request None
          | Some ing \<Rightarrow> if ing_deleting ing \<or> \<not> selected c ing then release api c request (Some ing) else serve api c request ing))"

end
