(* ===== verification/Traces.thy ===== *)
theory Traces
  imports Reconcile
begin

text \<open>
  Reasoning about the calls of an action: the log only grows, and every call it makes is admitted
  by a rule over the calls before it. The rule of a claim is a parameter of the locales; a rule that
  admits what each kind of write needs admits the whole of \<^verbatim>\<open>Reconcile\<close>.
\<close>

subsection \<open>Logs\<close>

inductive extends :: "(call list \<Rightarrow> call \<Rightarrow> bool) \<Rightarrow> call list \<Rightarrow> call list \<Rightarrow> bool" for ok where
  extends_refl [simp]: "extends ok log log"
| extends_step: "extends ok log log' \<Longrightarrow> ok log' c \<Longrightarrow> extends ok log (log' @ [c])"

inductive_cases extends_Cons: "extends ok log (log' @ [c])"

lemma extends_trans: "extends ok a b \<Longrightarrow> extends ok b c \<Longrightarrow> extends ok a c"
  by (rotate_tac, induction rule: extends.induct) (auto intro: extends_step)

lemma extends_prefix: "extends ok a b \<Longrightarrow> prefix a b"
  by (induction rule: extends.induct) (auto intro: prefix_order.trans prefixI)

text \<open>What the rule says of each call: the calls before it are the prefix of the log.\<close>

lemma extends_nth:
  assumes "extends ok a b" and "prefix (a @ cs @ [c]) b"
  shows "ok (a @ cs) c"
  using assms
proof (induction rule: extends.induct)
  case (extends_step log log' c')
  then show ?case by (auto simp: append_eq_append_conv2 simp flip: append_assoc)
qed (auto dest: prefix_length_le)

definition logs :: "(call list \<Rightarrow> call \<Rightarrow> bool) \<Rightarrow> call list \<Rightarrow> ('a, 'e) action \<Rightarrow> bool" where
  "logs ok before m \<longleftrightarrow> (\<forall>st. prefix before (st_log st) \<longrightarrow> extends ok (st_log st) (st_log (snd (m st))))"

named_theorems logs_intros \<open>rules for the calls of an action\<close>

lemma logs_weaken: "logs ok a m \<Longrightarrow> prefix a b \<Longrightarrow> logs ok b m"
  unfolding logs_def by (meson prefix_order.trans)

lemma logs_always: "logs ok [] m \<Longrightarrow> logs ok b m"
  by (erule logs_weaken) simp

lemma log_logged [simp]: "st_log (logged c st) = st_log st @ [c]"
  by (simp add: logged_def)

lemma logs_return [logs_intros, simp]: "logs ok b (return' x)"
  by (simp add: logs_def return'_def)

lemma logs_fail [logs_intros, simp]: "logs ok b (fail x)"
  by (simp add: logs_def fail_def)

lemma logs_or_fail [logs_intros, simp]: "logs ok b (or_fail x)"
  by (simp add: or_fail_def split: option.split)

lemma logs_silent: "(\<And>st. st_log (snd (m st)) = st_log st) \<Longrightarrow> logs ok b m"
  by (simp add: logs_def)

lemma logs_gets [logs_intros, simp]: "logs ok b (\<lambda>st. (Inr (f st), st))"
  by (simp add: logs_silent)

lemma logs_and_then [logs_intros]:
  assumes "logs ok b m" and "\<And>x. logs ok b (f x)"
  shows "logs ok b (and_then m f)"
  unfolding logs_def
proof (intro allI impI)
  fix st :: bridge assume b: "prefix b (st_log st)"
  obtain r st' where m: "m st = (r, st')" by fastforce
  with assms(1) b have st': "extends ok (st_log st) (st_log st')" unfolding logs_def by (metis snd_conv)
  have "extends ok (st_log st') (st_log (snd (f x st')))" for x
    using assms(2) [of x] prefix_order.trans [OF b extends_prefix [OF st']] by (simp add: logs_def)
  with st' show "extends ok (st_log st) (st_log (snd (and_then m f st)))"
    by (cases r) (auto simp: and_then_def m intro: extends_trans)
qed

lemma logs_state: "(\<And>st. logs ok b (m st)) \<Longrightarrow> logs ok b (\<lambda>st. m st st)"
  by (simp add: logs_def)

lemma logs_perform [logs_intros]:
  assumes "\<And>log. prefix b log \<Longrightarrow> ok log c"
  shows "logs ok b (perform api c)"
  using assms by (auto simp: logs_def perform_def split: written.split intro: extends_step)

lemma logs_ask [logs_intros]:
  assumes "\<And>log. prefix b log \<Longrightarrow> ok log c"
  shows "logs ok b (ask c answer)"
  using assms by (auto simp: logs_def ask_def split: sum.split intro: extends_step)

lemma logs_ask_then:
  assumes "\<And>log. prefix b log \<Longrightarrow> ok log c"
    and "\<And>log x. prefix b log \<Longrightarrow> answer log = Inr x \<Longrightarrow> logs ok (log @ [c]) (f x)"
  shows "logs ok b (and_then (ask c answer) f)"
  unfolding logs_def
proof (intro allI impI)
  fix st :: bridge assume b: "prefix b (st_log st)"
  then have c: "extends ok (st_log st) (st_log st @ [c])" using assms(1) by (auto intro: extends_step)
  show "extends ok (st_log st) (st_log (snd (and_then (ask c answer) f st)))"
  proof (cases "answer (st_log st)")
    case (Inr x)
    from assms(2) [OF b Inr] have "extends ok (st_log st @ [c]) (st_log (snd (f x (logged c st))))"
      unfolding logs_def by (metis log_logged prefix_order.refl)
    with c Inr show ?thesis by (auto simp: and_then_def ask_def intro: extends_trans)
  qed (simp add: and_then_def ask_def c)
qed

lemma logs_for_each [logs_intros]: "(\<And>x. x \<in> set xs \<Longrightarrow> logs ok b (f x)) \<Longrightarrow> logs ok b (for_each f xs)"
  by (induction xs) (auto intro: logs_and_then)

lemma logs_join [logs_intros]:
  assumes "\<And>x. x \<in> set xs \<Longrightarrow> logs ok b (f x)"
  shows "logs ok b (join_errors f xs)"
proof -
  have "extends ok (st_log st) (st_log (snd (collect_errors f xs st)))" if "prefix b (st_log st)" for st
    using assms that
  proof (induction xs arbitrary: st)
    case (Cons x xs)
    obtain r st' where f: "f x st = (r, st')" by fastforce
    have "logs ok b (f x)" using Cons.prems(1) by simp
    with Cons.prems(2) f have st': "extends ok (st_log st) (st_log st')" unfolding logs_def by (metis snd_conv)
    have "extends ok (st_log st') (st_log (snd (collect_errors f xs st')))"
      using Cons.prems prefix_order.trans [OF Cons.prems(2) extends_prefix [OF st']] by (intro Cons.IH) auto
    with st' show ?case by (auto simp: f split: sum.split prod.split intro: extends_trans)
  qed simp
  then show ?thesis unfolding logs_def join_errors_def by (auto split: prod.split list.split) (metis snd_conv)+
qed

lemma logs_delete [logs_intros]:
  assumes "\<And>log. prefix b log \<Longrightarrow> ok log (CallDelete kind key)"
  shows "logs ok b (delete_object api kind key)"
proof -
  have "logs ok b (perform api (CallDelete kind key))" using assms by (rule logs_perform)
  then show ?thesis unfolding logs_def delete_object_def
    by (auto split: prod.split sum.split failure.split)
qed

lemma logs_delete_others [logs_intros]:
  "(\<And>log key. prefix b log \<Longrightarrow> key \<in> set items \<Longrightarrow> key \<notin> set keep \<Longrightarrow> ok log (CallDelete kind key)) \<Longrightarrow>
   logs ok b (delete_others api kind keep items)"
  unfolding delete_others_def by (intro logs_intros) simp

lemma logs_delete_list_items [logs_intros]:
  "(\<And>log key. prefix b log \<Longrightarrow> key \<in> set items \<Longrightarrow> (kind, key) \<notin> set keep \<Longrightarrow> ok log (CallDelete kind key)) \<Longrightarrow>
   logs ok b (delete_list_items api kind keep items)"
  unfolding delete_list_items_def by (intro logs_intros) simp

subsection \<open>Rules for the whole of Reconcile\<close>

locale read_rule =
  fixes ok :: "call list \<Rightarrow> call \<Rightarrow> bool"
  assumes ok_reads: "ok log (CallReads what)"
    and ok_get: "ok log (CallGet kind key)"
    and ok_list: "ok log (CallList kind namespace labels)"
begin

lemma logs_read: "logs ok b (ask (CallReads what) answer)" "logs ok b (ask (CallGet kind key) answer)"
  "logs ok b (ask (CallList kind namespace labels) answer)"
  by (simp_all add: logs_ask ok_reads ok_get ok_list)

lemma logs_read_certificates: "logs ok b (read_certificates api c ings)"
  by (auto simp: logs_def read_certificates_def split: prod.split sum.split intro: extends_step ok_reads)

lemma logs_known_placements: "logs ok b (known_placements api c)"
proof -
  have "logs ok b (and_then (ask (CallReads ''ListenerSet'') (\<lambda>log. observed_listener_placements c (api_gateway api log) (api_sets api log)))
      (\<lambda>observed. and_then (commit_placements observed) (\<lambda>_. return' observed)))"
    by (intro logs_and_then logs_read logs_return logs_silent) (simp add: commit_placements_def)
  then show ?thesis unfolding logs_def known_placements_def by (simp split: option.split)
qed

lemma logs_translate_ingress: "logs ok b (translate_ingress api ing options)"
  by (auto simp: logs_def translate_ingress_def intro: extends_step ok_reads)

lemma logs_ingress_plan: "logs ok b (ingress_plan api c gatewayPlan ings ing)"
  unfolding ingress_plan_def Let_def by (simp add: logs_and_then logs_read logs_translate_ingress)

end

text \<open>What a rule has to admit to admit every call of a reconciliation of the request.\<close>

definition detaching :: "ingress \<Rightarrow> ingress \<Rightarrow> bool" where
  "detaching before after \<longleftrightarrow> finalizerName \<in> set (ing_finalizers before) \<and> finalizerName \<notin> set (ing_finalizers after)"

locale reconcile_rule = read_rule +
  fixes api :: "'e api" and c :: config and request :: nsname
  assumes ok_apply: "logs ok b (apply_object api object)"
    and ok_prune_source: "logs ok b (prune_source api request desired includeStatus)"
    and ok_prune_plan: "logs ok b (prune_plan api c plan)"
    and ok_patch: "\<not> detaching before after \<Longrightarrow> ok log (CallPatchIngress before after)"
    and ok_detach: "\<exists>st. fst (prune_source api request [] True st) = Inr () \<and> prefix (st_log (snd (prune_source api request [] True st))) log
      \<Longrightarrow> ok log (CallPatchIngress ing (detached ing))"
    and ok_status: "ok log (CallTranslationStatus key status)" "ok log (CallMirror key addresses)"
begin

lemma logs_execute_plan: "logs ok b (execute_plan api c ings previous options)"
proof -
  have "logs ok b (commit_placements p)" "logs ok b (push_changed i t ch)" for p i t ch
    by (auto intro!: logs_silent simp: commit_placements_def push_changed_def)
  moreover have "logs ok b (apply_plan api p)" for p
    unfolding apply_plan_def by (intro logs_and_then logs_for_each ok_apply) 
  ultimately show ?thesis
    unfolding execute_plan_def Let_def by (intro logs_and_then ok_prune_plan logs_return)
qed

lemma logs_reconcile_managed_gateway: "logs ok b (reconcile_managed_gateway api c)"
  unfolding reconcile_managed_gateway_def
  by (intro logs_and_then logs_read logs_read_certificates logs_known_placements logs_execute_plan)

lemma logs_managed_plan: "logs ok b (managed_plan api c)"
  unfolding managed_plan_def by (simp add: logs_and_then logs_reconcile_managed_gateway)

lemma logs_apply_desired: "logs ok b (apply_desired api ing objects)"
proof (induction objects)
  case (Cons g gs)
  have "logs ok b (\<lambda>st. and_then (apply_desired api ing gs) (\<lambda>rest. return' (received api (st_log st) g # rest)) st)"
    by (rule logs_state) (intro logs_and_then Cons.IH logs_return)
  then show ?case by (simp add: logs_and_then ok_apply)
qed simp

lemma logs_patch_ingress: "\<not> detaching before after \<Longrightarrow> logs ok b (patch_ingress api before after)"
  unfolding patch_ingress_def by (intro logs_and_then logs_perform ok_patch logs_gets)

lemma logs_ensure_finalizer: "logs ok b (ensure_finalizer api ing)"
  unfolding ensure_finalizer_def by (auto intro!: logs_patch_ingress simp: detaching_def)

lemma logs_translation_status: "logs ok b (reconcile_translation_status api c ing plan desired)"
proof -
  have label: "logs ok b (patch_label api ing label)" for label
    unfolding patch_label_def by (auto intro!: logs_patch_ingress simp: detaching_def)
  have status: "logs ok b (write_status api key before status)" for key before status
    unfolding write_status_def by (auto intro!: logs_perform ok_status)
  have "logs ok b (\<lambda>st. and_then (ask (CallReads ''status'') (\<lambda>log. compute_translation_status c (api_view api log) ing plan desired
        (tr_conditions (api_status api (st_log st) (ing_key ing)))))
      (\<lambda>x. and_then (write_status api (ing_key ing) (api_status api (st_log st) (ing_key ing)) (fst x)) (\<lambda>_. patch_label api ing (snd x))) st)"
    by (rule logs_state) (intro logs_and_then logs_read status label)
  then show ?thesis
    unfolding reconcile_translation_status_def Let_def split_beta by (intro logs_and_then logs_or_fail ok_apply)
qed

lemma logs_mirror: "logs ok b (mirror_ingress_status api c ing desired)"
  unfolding mirror_ingress_status_def
  by (intro logs_and_then logs_read) (auto split: option.split intro!: logs_perform ok_status)

lemma logs_activate: "logs ok b (activate api c request ing plan)"
  unfolding activate_def
  by (intro logs_and_then ok_prune_source logs_translation_status)
    (auto intro: logs_apply_desired logs_mirror)

lemma logs_serve: "logs ok b (serve api c request ing)"
  unfolding serve_def
  by (intro logs_and_then logs_ensure_finalizer logs_managed_plan logs_read logs_ingress_plan logs_activate)

lemma logs_detach:
  assumes "fst (prune_source api request [] True st) = Inr ()" and "prefix (st_log (snd (prune_source api request [] True st))) b"
  shows "logs ok b (detach api ing)"
proof -
  have "logs ok b (perform api (CallPatchIngress ing (detached ing)))"
    using assms by (intro logs_perform ok_detach) (auto intro: prefix_order.trans)
  then have "logs ok b (patch_ingress api ing (detached ing))"
    unfolding patch_ingress_def by (intro logs_and_then logs_gets)
  then show ?thesis unfolding detach_def by (simp add: logs_and_then)
qed

lemma logs_release: "logs ok b (release api c request found)"
  unfolding logs_def
proof (intro allI impI)
  fix st :: bridge assume "prefix b (st_log st)"
  obtain r st1 where prune: "prune_source api request [] True st = (r, st1)" by fastforce
  have one: "extends ok (st_log st) (st_log st1)" using ok_prune_source [of "[]" "[]" True] unfolding logs_def by (metis prune snd_conv Nil_prefix)
  show "extends ok (st_log st) (st_log (snd (release api c request found st)))"
  proof (cases r)
    case (Inr u)
    with prune have done': "fst (prune_source api request [] True st) = Inr ()" by simp
    have "logs ok (st_log st1) (and_then (managed_plan api c) (\<lambda>_. case found of None \<Rightarrow> return' () | Some ing \<Rightarrow> detach api ing))"
      using logs_detach [OF done', of "st_log st1"] prune by (intro logs_and_then logs_managed_plan) (auto split: option.split)
    then have "extends ok (st_log st1) (st_log (snd (release api c request found st)))"
      unfolding logs_def by (simp add: release_def and_then_def [of "prune_source api request [] True"] prune Inr)
    with one show ?thesis by (rule extends_trans)
  qed (simp add: release_def and_then_def prune one)
qed

lemma logs_reconcile: "logs ok b (reconcile api c request)"
proof -
  have "logs ok b (forget_certificates :: (unit, 'e) action)" by (simp add: logs_silent forget_certificates_def)
  moreover have "logs ok b (case found of None \<Rightarrow> release api c request None
      | Some ing \<Rightarrow> if ing_deleting ing \<or> \<not> selected c ing then release api c request (Some ing) else serve api c request ing)" for found
    by (simp add: logs_release logs_serve split: option.split)
  ultimately show ?thesis
    unfolding reconcile_def
    by (auto intro!: logs_and_then logs_read logs_managed_plan logs_reconcile_managed_gateway)
qed

end

end
