(* ===== verification/ReconcileSafety.thy ===== *)
theory ReconcileSafety
  imports Traces
begin

text \<open>
  What a reconciliation never does, whatever the API server answers and whenever a call fails: it
  never overwrites an object that is not the bridge's, deletes only what the selectors of the
  request returned, and lets go of an Ingress only after what it generated is gone.
\<close>

subsection \<open>Objects of others\<close>

definition guarded :: "'e api \<Rightarrow> call list \<Rightarrow> call \<Rightarrow> bool" where
  "guarded api log c =
     (case c of
        CallApply object \<Rightarrow>
          (case rev log of
             CallGet kind key # before \<Rightarrow> (kind, key) = app_key object \<and>
               (case api_labels api (rev before) kind key of
                  Inl _ \<Rightarrow> False
                | Inr None \<Rightarrow> True
                | Inr (Some labels) \<Rightarrow> gm_or [] labels ManagedByLabel = ControllerName)
           | _ \<Rightarrow> False)
      | _ \<Rightarrow> True)"

lemma logs_apply_guarded: "logs (guarded api) b (apply_object api object)"
proof -
  let ?k = "fst (app_key object)" and ?n = "snd (app_key object)"
  have "extends (guarded api) log (log @ [CallGet ?k ?n])" for log
    by (rule extends_step) (simp_all add: guarded_def)
  moreover have "extends (guarded api) log (log @ [CallGet ?k ?n, CallApply object])"
    if "case api_labels api log ?k ?n of Inl _ \<Rightarrow> False | Inr None \<Rightarrow> True
      | Inr (Some labels) \<Rightarrow> gm_or [] labels ManagedByLabel = ControllerName" for log
    using extends_step [OF calculation, of log "CallApply object"] that by (simp add: guarded_def)
  ultimately show ?thesis
    by (auto simp: logs_def apply_object_def and_then_def ask_def fail_def or_fail_def return'_def perform_def logged_def
        split: sum.split option.split written.split)
qed

lemma logs_prune_unless:
  assumes "\<And>log kind key. ok log (CallDelete kind key)" and "\<And>log kind ns labels. ok log (CallList kind ns labels)"
  shows "logs ok b (prune_source api request desired includeStatus)" "logs ok b (prune_plan api c plan)"
  using assms unfolding prune_source_def prune_kind_def prune_plan_def prune_listener_sets_def prune_grants_def
  by (auto intro!: logs_intros)

interpretation guarded: reconcile_rule "guarded api" api c request for api c request
proof unfold_locales
  show "logs (guarded api) b (apply_object api object)" for b object by (rule logs_apply_guarded)
  show "logs (guarded api) b (prune_source api request desired includeStatus)" "logs (guarded api) b (prune_plan api c plan)"
    for b desired includeStatus plan by (rule logs_prune_unless; simp add: guarded_def)+
qed (simp_all add: guarded_def)

text \<open>
  C7. Whatever a reconciliation does, an object that is not labelled as managed by the bridge is
  never overwritten: every apply directly follows a read of the same object that found it absent
  or managed, also when the object is the Gateway, a grant or the IngressTranslation.
\<close>

theorem unmanaged_objects_untouched:
  "extends (guarded api) (st_log st) (st_log (snd (reconcile api c request st)))"
  using guarded.logs_reconcile [of api "[]" c request] by (simp add: logs_def)

subsection \<open>Deletions\<close>

definition selectors :: "config \<Rightarrow> nsname \<Rightarrow> (string option \<times> strmap) set" where
  "selectors c request =
     {(Some (nn_namespace request), source_selector request), (Some (cf_namespace c), gateway_selector c), (None, gateway_selector c)}"

definition listed :: "'e api \<Rightarrow> config \<Rightarrow> nsname \<Rightarrow> call list \<Rightarrow> call \<Rightarrow> bool" where
  "listed api c request log call =
     (case call of
        CallDelete kind key \<Rightarrow>
          \<exists>before namespace labels items. prefix (before @ [CallList kind namespace labels]) log \<and>
            (namespace, labels) \<in> selectors c request \<and>
            api_list api before kind namespace labels = Inr items \<and> key \<in> set items
      | _ \<Rightarrow> True)"

lemma logs_listed:
  assumes "(namespace, labels) \<in> selectors c request"
    and "\<And>b items. (\<And>log key. prefix b log \<Longrightarrow> key \<in> set items \<Longrightarrow> ok log (CallDelete kind key)) \<Longrightarrow> logs ok b (f items)"
    and "ok = listed api c request"
  shows "logs ok b (and_then (ask (CallList kind namespace labels) (\<lambda>log. api_list api log kind namespace labels)) f)"
proof (rule logs_ask_then)
  show "ok log (CallList kind namespace labels)" for log by (simp add: assms(3) listed_def)
  fix log items assume "api_list api log kind namespace labels = Inr items"
  then show "logs ok (log @ [CallList kind namespace labels]) (f items)"
    using assms(1) by (intro assms(2)) (auto simp: assms(3) listed_def)
qed

interpretation listed: reconcile_rule "listed api c request" api c request for api c request
proof unfold_locales
  let ?ok = "listed api c request"
  show "logs ?ok b (apply_object api object)" for b object
    unfolding apply_object_def by (auto intro!: logs_intros simp: listed_def)
  show "logs ?ok b (prune_source api request desired includeStatus)" for b desired includeStatus
    unfolding prune_source_def prune_kind_def
    by (intro logs_join logs_listed [where c = c and request = request]) (auto simp: selectors_def intro!: logs_intros)
  have "logs ?ok b (prune_listener_sets api c sets)" "logs ?ok b (prune_grants api c grants)" for b sets grants
    unfolding prune_listener_sets_def prune_grants_def
    by (rule logs_listed [where c = c and request = request]; auto simp: selectors_def intro!: logs_delete_others)+
  then show "logs ?ok b (prune_plan api c plan)" for b plan
    unfolding prune_plan_def by (simp add: logs_and_then)
qed (simp_all add: listed_def)

text \<open>
  C20. Only what a selector of the bridge returned is deleted: before every delete, the request
  listed the kind with the labels of its source in its namespace, or of the managed Gateway, and
  the object was in the answer.
\<close>

theorem only_listed_objects_deleted:
  "extends (listed api c request) (st_log st) (st_log (snd (reconcile api c request st)))"
  using listed.logs_reconcile [of api c request "[]"] by (simp add: logs_def)

subsection \<open>Letting go\<close>

definition deleted :: "'e api \<Rightarrow> string \<Rightarrow> call list \<Rightarrow> nsname \<Rightarrow> bool" where
  "deleted api kind log key \<longleftrightarrow>
     (\<exists>before. prefix (before @ [CallDelete kind key]) log \<and>
        (case api_write api before (CallDelete kind key) of WriteFailed _ \<Rightarrow> False | _ \<Rightarrow> True))"

text \<open>The kind was listed and everything listed was deleted, or gone already, but what is kept.\<close>

definition pruned :: "'e api \<Rightarrow> nsname \<Rightarrow> (string \<times> nsname) list \<Rightarrow> call list \<Rightarrow> string \<Rightarrow> bool" where
  "pruned api source keep log kind \<longleftrightarrow>
     (\<exists>before items. prefix (before @ [CallList kind (Some (nn_namespace source)) (source_selector source)]) log \<and>
        api_list api before kind (Some (nn_namespace source)) (source_selector source) = Inr items \<and>
        list_all (\<lambda>key. (kind, key) \<in> set keep \<or> deleted api kind log key) items)"

lemma deleted_later: "deleted api kind log key \<Longrightarrow> prefix log log' \<Longrightarrow> deleted api kind log' key"
  unfolding deleted_def by (meson prefix_order.trans)

lemma pruned_later: "pruned api source keep log kind \<Longrightarrow> prefix log log' \<Longrightarrow> pruned api source keep log' kind"
  unfolding pruned_def list_all_iff by (meson deleted_later prefix_order.trans)

text \<open>An action that only adds calls, and what the end of a loop without errors says.\<close>

abbreviation grows :: "('a, 'e) action \<Rightarrow> bool" where
  "grows m \<equiv> logs (\<lambda>_ _. True) [] m"

lemma grows_prefix: "grows m \<Longrightarrow> prefix (st_log st) (st_log (snd (m st)))"
  unfolding logs_def by (meson Nil_prefix extends_prefix)

lemma collect_errors_Nil:
  assumes "\<And>x. grows (f x)" and "fst (collect_errors f xs st) = []" and "x \<in> set xs"
  shows "\<exists>st1. fst (f x st1) = Inr () \<and> prefix (st_log (snd (f x st1))) (st_log (snd (collect_errors f xs st)))"
  using assms(2,3)
proof (induction xs arbitrary: st)
  case (Cons y ys)
  have grow: "prefix (st_log st) (st_log (snd (collect_errors f zs st)))" for zs st
  proof (induction zs arbitrary: st)
    case (Cons z zs)
    show ?case using grows_prefix [OF assms(1) [of z], of st] Cons.IH [of "snd (f z st)"]
      by (auto split: sum.split prod.split intro: prefix_order.trans)
  qed simp
  obtain st' where y: "f y st = (Inr (), st')" using Cons.prems(1) by (auto split: sum.splits prod.splits)
  show ?case
  proof (cases "x = y")
    case True
    then show ?thesis using y grow [of st' ys] by (intro exI [of _ st]) simp
  next
    case False
    with Cons y show ?thesis by simp
  qed
qed simp

lemma join_errors_ok:
  assumes "\<And>x. grows (f x)" and "join_errors f xs st = (Inr (), st')" and "x \<in> set xs"
  shows "\<exists>st1. fst (f x st1) = Inr () \<and> prefix (st_log (snd (f x st1))) (st_log st')"
proof -
  have "fst (collect_errors f xs st) = []" "snd (collect_errors f xs st) = st'"
    using assms(2) by (auto simp: join_errors_def split: prod.splits list.splits)
  with collect_errors_Nil [where f = f and st = st, OF assms(1) _ assms(3)] show ?thesis by simp
qed

lemma delete_object_ok:
  "fst (delete_object api kind key st) = Inr () \<Longrightarrow> deleted api kind (st_log (snd (delete_object api kind key st))) key"
  by (auto simp: delete_object_def perform_def deleted_def split: written.splits)

lemma prune_source_ok:
  assumes "prune_source api source desired includeStatus st = (Inr (), st')"
    and "kind \<in> set prunedKinds \<or> (includeStatus \<and> kind = ''IngressTranslation'')"
  shows "pruned api source (map gen_key desired) (st_log st') kind"
proof -
  let ?sel = "source_selector source" and ?ns = "Some (nn_namespace source)"
  have del: "grows (delete_object api k n)" for k n by (intro logs_delete TrueI)
  have "grows (prune_kind api source keep k)" for keep k
    unfolding prune_kind_def by (intro logs_intros TrueI)
  from join_errors_ok [OF this assms(1) [unfolded prune_source_def], of kind] assms(2)
  obtain st1 where st1: "fst (prune_kind api source (map gen_key desired) kind st1) = Inr ()"
    "prefix (st_log (snd (prune_kind api source (map gen_key desired) kind st1))) (st_log st')" by auto
  then obtain items where items: "api_list api (st_log st1) kind ?ns ?sel = Inr items"
    by (auto simp: prune_kind_def and_then_def ask_def split: sum.splits)
  let ?st2 = "logged (CallList kind ?ns ?sel) st1"
  let ?todo = "filter (\<lambda>key. (kind, key) \<notin> set (map gen_key desired)) items"
  have kind: "prune_kind api source (map gen_key desired) kind st1 = join_errors (delete_object api kind) ?todo ?st2"
    by (simp add: prune_kind_def and_then_def ask_def items delete_list_items_def)
  then obtain st3 where st3: "join_errors (delete_object api kind) ?todo ?st2 = (Inr (), st3)" "prefix (st_log st3) (st_log st')"
    using st1 by (cases "join_errors (delete_object api kind) ?todo ?st2") auto
  have "deleted api kind (st_log st') key" if "key \<in> set ?todo" for key
  proof -
    from join_errors_ok [OF del st3(1) that] obtain st4 where
      "fst (delete_object api kind key st4) = Inr ()" "prefix (st_log (snd (delete_object api kind key st4))) (st_log st3)" by blast
    then show ?thesis using st3(2) delete_object_ok deleted_later prefix_order.trans by meson
  qed
  moreover have "prefix (st_log ?st2) (st_log st')"
  proof -
    have "grows (join_errors (delete_object api kind) ?todo)" by (intro logs_intros TrueI)
    from grows_prefix [OF this, of ?st2] have "prefix (st_log ?st2) (st_log st3)" unfolding st3(1) by simp
    with st3(2) show ?thesis by (rule prefix_order.trans [rotated])
  qed
  ultimately show ?thesis unfolding pruned_def list_all_iff using items by (intro exI [of _ "st_log st1"] exI [of _ items]) auto
qed

definition released :: "'e api \<Rightarrow> nsname \<Rightarrow> call list \<Rightarrow> bool" where
  "released api source log \<longleftrightarrow> list_all (pruned api source [] log) (prunedKinds @ [''IngressTranslation''])"

definition held :: "'e api \<Rightarrow> nsname \<Rightarrow> call list \<Rightarrow> call \<Rightarrow> bool" where
  "held api request log call =
     (case call of CallPatchIngress before after \<Rightarrow> \<not> detaching before after \<or> released api request log | _ \<Rightarrow> True)"

interpretation held: reconcile_rule "held api request" api c request for api c request
proof unfold_locales
  let ?ok = "held api request"
  show "logs ?ok b (apply_object api object)" for b object
    unfolding apply_object_def by (auto intro!: logs_intros simp: held_def)
  show "logs ?ok b (prune_source api request desired includeStatus)" "logs ?ok b (prune_plan api c plan)"
    for b desired includeStatus plan by (rule logs_prune_unless; simp add: held_def)+
  fix log ing assume "\<exists>st. fst (prune_source api request [] True st) = Inr () \<and>
    prefix (st_log (snd (prune_source api request [] True st))) log"
  then obtain st st' where st: "prune_source api request [] True st = (Inr (), st')" "prefix (st_log st') log"
    by (metis prod.collapse)
  from prune_source_ok [OF st(1)] have "released api request (st_log st')" by (auto simp: released_def list_all_iff)
  with st(2) have "released api request log" unfolding released_def list_all_iff using pruned_later by blast
  then show "?ok log (CallPatchIngress ing (detached ing))" by (simp add: held_def)
qed (simp_all add: held_def)

text \<open>
  C9. The finalizer of an Ingress is given up only when nothing generated for it is left: before a
  patch that removes it, every kind was listed with the labels of the Ingress, the
  IngressTranslation included, and everything listed was deleted or already gone. A failed list or
  delete keeps the finalizer.
\<close>

theorem finalizer_kept_until_released:
  "extends (held api request) (st_log st) (st_log (snd (reconcile api c request st)))"
  using held.logs_reconcile [of api request "[]" c] by (simp add: logs_def)

end
