(* ===== verification/ReconcileEffects.thy ===== *)
theory ReconcileEffects
  imports ReconcileSafety
begin

text \<open>
  What a reconciliation does when its calls succeed: which objects it applies, in which order, what
  it deletes afterwards, and the state it leaves behind.
\<close>

subsection \<open>Actions that succeed\<close>

lemma and_then_Inr [simp]:
  "and_then m f st = (Inr y, st') \<longleftrightarrow> (\<exists>x st1. m st = (Inr x, st1) \<and> f x st1 = (Inr y, st'))"
  by (auto simp: and_then_def split: prod.splits sum.splits)

lemma return_Inr [simp]: "return' x st = (Inr y, st') \<longleftrightarrow> y = x \<and> st' = st"
  by (auto simp: return'_def)

lemma fail_Inr [simp]: "fail e st \<noteq> (Inr y, st')"
  by (simp add: fail_def)

lemma or_fail_Inr [simp]: "or_fail e st = (Inr y, st') \<longleftrightarrow> e = None \<and> st' = st"
  by (auto simp: or_fail_def split: option.split)

lemma ask_Inr [simp]: "ask call answer st = (Inr y, st') \<longleftrightarrow> answer (st_log st) = Inr y \<and> st' = logged call st"
  by (auto simp: ask_def split: sum.splits)

lemma perform_Inr [simp]: "perform api call st = (Inr y, st') \<longleftrightarrow> api_write api (st_log st) call = Written \<and> st' = logged call st"
  by (auto simp: perform_def split: written.splits)

subsection \<open>Applied objects\<close>

definition applied_in :: "(applied \<Rightarrow> bool) \<Rightarrow> call list \<Rightarrow> applied list" where
  "applied_in P log = concat (map (\<lambda>c. case c of CallApply x \<Rightarrow> if P x then [x] else [] | _ \<Rightarrow> []) log)"

lemma applied_in_append [simp]: "applied_in P (a @ b) = applied_in P a @ applied_in P b"
  by (simp add: applied_in_def)

lemma applied_in_simps [simp]:
  "applied_in P [] = []" "applied_in P [CallApply x] = (if P x then [x] else [])"
  "applied_in P [CallReads w] = []" "applied_in P [CallGet k n] = []" "applied_in P [CallList k ns l] = []"
  "applied_in P [CallDelete k n] = []"
  by (simp_all add: applied_in_def)

fun applies :: "(applied \<Rightarrow> bool) \<Rightarrow> call \<Rightarrow> bool" where
  "applies P (CallApply x) = P x"
| "applies P c = False"

fun deletes :: "call \<Rightarrow> bool" where
  "deletes (CallDelete k n) = True"
| "deletes c = False"

text \<open>Actions without applies of a class of objects, and without deletes.\<close>

abbreviation no_apply :: "(applied \<Rightarrow> bool) \<Rightarrow> call list \<Rightarrow> call \<Rightarrow> bool" where
  "no_apply P \<equiv> (\<lambda>_ c. \<not> applies P c)"

abbreviation no_delete :: "call list \<Rightarrow> call \<Rightarrow> bool" where
  "no_delete \<equiv> (\<lambda>_ c. \<not> deletes c)"

lemma extends_no_apply: "extends (no_apply P) log log' \<Longrightarrow> applied_in P log' = applied_in P log"
proof (induction rule: extends.induct)
  case (extends_step log log' c)
  then show ?case by (cases c) (simp_all add: applied_in_def)
qed simp

lemma quiet_applied: "logs (no_apply P) [] m \<Longrightarrow> m st = (r, st') \<Longrightarrow> applied_in P (st_log st') = applied_in P (st_log st)"
  unfolding logs_def by (metis Nil_prefix extends_no_apply snd_conv)

lemma apply_object_ok:
  "apply_object api x st = (Inr (), st') \<Longrightarrow> applied_in P (st_log st') = applied_in P (st_log st) @ (if P x then [x] else [])"
  by (auto simp: apply_object_def applied_in_def split: if_splits)

lemma logs_apply_no_delete: "logs no_delete b (apply_object api x)"
  unfolding apply_object_def by (auto intro!: logs_intros)

lemma logs_apply_no_apply: "\<not> P x \<Longrightarrow> logs (no_apply P) b (apply_object api x)"
  unfolding apply_object_def by (auto intro!: logs_intros)

lemma for_each_apply_ok:
  "for_each (apply_object api) xs st = (Inr (), st') \<Longrightarrow> applied_in P (st_log st') = applied_in P (st_log st) @ filter P xs"
  by (induction xs arbitrary: st) (auto dest!: apply_object_ok [where P = P])

lemma gen_key_received [simp]: "gen_key (received api log g) = gen_key g"
  by (cases g) (simp_all add: gen_key_def)

lemma apply_desired_ok:
  assumes "apply_desired api ing gs st = (Inr gs', st')"
  shows "map gen_key gs' = map gen_key gs" and "applied_in P (st_log st') = applied_in P (st_log st) @ filter P (map AppGenerated gs)"
  using assms by (induction gs arbitrary: st gs') (auto dest!: apply_object_ok [where P = P])

text \<open>Deletes come after the last of a list of objects has been applied.\<close>

definition deletes_after :: "(applied \<Rightarrow> bool) \<Rightarrow> applied list \<Rightarrow> call list \<Rightarrow> call \<Rightarrow> bool" where
  "deletes_after P objects log c \<longleftrightarrow> (if deletes c then applied_in P log = objects else True)"

lemma extends_mono: "extends ok a b \<Longrightarrow> (\<And>l c. ok l c \<Longrightarrow> ok' l c) \<Longrightarrow> extends ok' a b"
  by (induction rule: extends.induct) (auto intro: extends_step)

lemma extends_no_apply_after:
  assumes "extends (no_apply P) log log'" and "applied_in P log = objects"
  shows "extends (deletes_after P objects) log log'"
  using assms
proof (induction rule: extends.induct)
  case (extends_step log log' c)
  then show ?case using extends_no_apply [OF extends_step(1)]
    by (intro extends.extends_step) (simp_all add: deletes_after_def)
qed simp

lemma make_before_break:
  assumes "m st = (r, st1)" and "logs no_delete [] m" and "\<And>x. logs (no_apply P) [] (f x)"
    and "\<And>x. r = Inr x \<Longrightarrow> applied_in P (st_log st1) = objects"
  shows "extends (deletes_after P objects) (st_log st) (st_log (snd (and_then m f st)))"
proof -
  have one: "extends (deletes_after P objects) (st_log st) (st_log st1)"
    using assms(1,2) extends_mono [of no_delete "st_log st" "st_log st1" "deletes_after P objects"]
    unfolding logs_def by (metis Nil_prefix deletes_after_def snd_conv)
  show ?thesis
  proof (cases r)
    case (Inr y)
    have "extends (no_apply P) (st_log st1) (st_log (snd (f y st1)))" using assms(3) by (simp add: logs_def)
    from extends_trans [OF one extends_no_apply_after [OF this assms(4) [OF Inr]]] show ?thesis
      by (simp add: and_then_def assms(1) Inr)
  qed (use one assms(1) in \<open>simp add: and_then_def\<close>)
qed

subsection \<open>The managed Gateway\<close>

definition plan_applied :: "gateway_plan \<Rightarrow> applied list" where
  "plan_applied plan = map AppGrant (gp_grants plan) @ [AppGateway (gp_gateway plan)] @ map AppSet (gp_sets plan)"

abbreviation every :: "applied \<Rightarrow> bool" where
  "every \<equiv> (\<lambda>_. True)"

lemma apply_plan_ok:
  "apply_plan api plan st = (Inr (), st') \<Longrightarrow> applied_in every (st_log st') = applied_in every (st_log st) @ plan_applied plan"
  by (auto simp: apply_plan_def plan_applied_def dest!: for_each_apply_ok [where P = every] apply_object_ok [where P = every])

lemma prune_plan_no_apply: "logs (no_apply P) b (prune_plan api c plan)"
  by (rule logs_prune_unless) simp_all

lemma prune_source_no_apply: "logs (no_apply P) b (prune_source api request desired includeStatus)"
  by (rule logs_prune_unless) simp_all

lemma push_no_apply: "logs ok b (push_changed ings hosts changed)"
  by (rule logs_silent) (simp add: push_changed_def)

interpretation no_apply: read_rule "no_apply P" for P
  by unfold_locales simp_all

text \<open>Actions that leave the planning state alone.\<close>

definition steady :: "('a, 'e) action \<Rightarrow> bool" where
  "steady m \<longleftrightarrow> (\<forall>st. st_placements (snd (m st)) = st_placements st \<and> st_affected (snd (m st)) = st_affected st)"

lemma steady_basic [simp]: "steady (return' x)" "steady (fail e)" "steady (or_fail err)" "steady (ask c answer)" "steady (perform api c)"
  by (simp_all add: steady_def return'_def fail_def or_fail_def ask_def perform_def logged_def
      split: option.split sum.split written.split)

lemma steady_and_then [simp]: "steady m \<Longrightarrow> (\<And>x. steady (f x)) \<Longrightarrow> steady (and_then m f)"
  unfolding steady_def and_then_def by (auto split: prod.split sum.split) (metis snd_conv)+

lemma steady_for_each [simp]: "(\<And>x. steady (f x)) \<Longrightarrow> steady (for_each f xs)"
  by (induction xs) simp_all

lemma steady_delete [simp]: "steady (delete_object api kind key)"
  by (simp add: steady_def delete_object_def perform_def logged_def split: written.split)

lemma steady_apply_plan [simp]: "steady (apply_plan api plan)"
  by (simp add: apply_plan_def apply_object_def)

lemma steady_prune_plan [simp]: "steady (prune_plan api c plan)"
  by (simp add: prune_plan_def prune_listener_sets_def prune_grants_def delete_others_def)

lemma steady_placements: "steady m \<Longrightarrow> m st = (r, st') \<Longrightarrow> st_placements st' = st_placements st \<and> st_affected st' = st_affected st"
  unfolding steady_def by (metis snd_conv)

lemma execute_plan_ok:
  assumes "execute_plan api c ings previous options st = (Inr plan, st')"
  shows "plan = build_managed_gateway ings options \<and>
    applied_in every (st_log st') = applied_in every (st_log st) @ plan_applied plan \<and>
    st_placements st' = Some (gp_placements plan) \<and>
    st_affected st' = map_option (enqueue_affected_ingresses ings (gp_tls_hosts plan) (changed_tls_hosts previous plan options)) (st_affected st)"
proof -
  have plan: "plan = build_managed_gateway ings options"
    using assms by (auto simp: execute_plan_def Let_def)
  from assms obtain st1 st2 where *:
    "apply_plan api plan (st\<lparr>st_placements := Some (gp_placements plan)\<rparr>) = (Inr (), st1)"
    "prune_plan api c plan st1 = (Inr (), st2)"
    "st' = st2\<lparr>st_affected := map_option (enqueue_affected_ingresses ings (gp_tls_hosts plan)
       (changed_tls_hosts previous plan options)) (st_affected st2)\<rparr>"
    unfolding plan by (auto simp: execute_plan_def Let_def commit_placements_def push_changed_def)
  show ?thesis
    using apply_plan_ok [OF *(1)] quiet_applied [OF prune_plan_no_apply *(2)] *(3) plan
      steady_placements [OF steady_apply_plan *(1)] steady_placements [OF steady_prune_plan *(2)]
    by auto
qed

lemma managed_run:
  "case reconcile_managed_gateway api c st of
     (Inl _, _) \<Rightarrow> True
   | (Inr plan, st') \<Rightarrow> \<exists>items certificates previous.
       api_ingresses api (st_log st) None = Inr items \<and>
       plan = build_managed_gateway (filter (active c) items) (managed_options_of c certificates previous) \<and>
       (case st_placements st of None \<Rightarrow> True | Some p \<Rightarrow> previous = p) \<and>
       applied_in every (st_log st') = applied_in every (st_log st) @ plan_applied plan \<and>
       st_placements st' = Some (gp_placements plan) \<and>
       st_affected st' = map_option (enqueue_affected_ingresses (filter (active c) items) (gp_tls_hosts plan)
         (changed_tls_hosts previous plan (managed_options_of c certificates previous))) (st_affected st)"
proof (cases "reconcile_managed_gateway api c st")
  case (Pair r st')
  show ?thesis
  proof (cases r)
    case (Inr plan)
    with Pair obtain items certs previous st1 st2 where
      *: "api_ingresses api (st_log st) None = Inr items"
      "read_certificates api c (filter (active c) items) (logged (CallList ''Ingress'' None []) st) = (Inr certs, st1)"
      "known_placements api c st1 = (Inr previous, st2)"
      "execute_plan api c (filter (active c) items) previous (managed_options_of c certs previous) st2 = (Inr plan, st')"
      unfolding reconcile_managed_gateway_def by auto
    have certs: "applied_in every (st_log st1) = applied_in every (st_log st)" "st_placements st1 = st_placements st"
      "st_affected st1 = st_affected st"
      using *(2) by (auto simp: read_certificates_def logged_def applied_in_def split: prod.splits sum.splits)
    have known: "applied_in every (st_log st2) = applied_in every (st_log st1)" "st_affected st2 = st_affected st1"
      "case st_placements st1 of None \<Rightarrow> True | Some p \<Rightarrow> previous = p"
      using *(3) by (auto simp: known_placements_def commit_placements_def logged_def applied_in_def split: option.splits)
    from execute_plan_ok [OF *(4)] certs known *(1) show ?thesis
      by (auto simp: Pair Inr)
  qed (simp add: Pair)
qed

text \<open>
  C17. A managed reconciliation that succeeds has applied the plan of every selected Ingress that
  is not going away, and nothing else: first the certificate grants, then the Gateway, then its
  ListenerSets. It remembers the placements of the plan and pushes the Ingresses whose listener
  differs from the placements before.
\<close>

theorem managed_gateway_applied:
  "case reconcile_managed_gateway api c st of
     (Inl _, _) \<Rightarrow> True
   | (Inr plan, st') \<Rightarrow> \<exists>items certificates previous.
       api_ingresses api (st_log st) None = Inr items \<and>
       plan = build_managed_gateway (filter (active c) items) (managed_options_of c certificates previous) \<and>
       (case st_placements st of None \<Rightarrow> True | Some p \<Rightarrow> previous = p) \<and>
       applied_in every (st_log st') = applied_in every (st_log st) @ plan_applied plan \<and>
       st_placements st' = Some (gp_placements plan) \<and>
       st_affected st' = map_option (enqueue_affected_ingresses (filter (active c) items) (gp_tls_hosts plan)
         (changed_tls_hosts previous plan (managed_options_of c certificates previous))) (st_affected st)"
  by (rule managed_run)

text \<open>
  C19. Nothing of the managed Gateway is deleted before the whole plan has been applied: a ListenerSet
  or a grant that is no longer wanted goes only after its replacement is in place, and a failed
  apply deletes nothing.
\<close>

theorem gateway_made_before_broken:
  "extends (deletes_after every (applied_in every (st_log st) @ plan_applied (build_managed_gateway ings options)))
     (st_log st) (st_log (snd (execute_plan api c ings previous options st)))"
proof -
  let ?plan = "build_managed_gateway ings options"
  let ?st = "st\<lparr>st_placements := Some (gp_placements ?plan)\<rparr>"
  let ?rest = "\<lambda>_. and_then (prune_plan api c ?plan)
      (\<lambda>_. and_then (push_changed ings (gp_tls_hosts ?plan) (changed_tls_hosts previous ?plan options)) (\<lambda>_. return' ?plan))"
  obtain r st1 where m: "apply_plan api ?plan ?st = (r, st1)" by fastforce
  have "extends (deletes_after every (applied_in every (st_log ?st) @ plan_applied ?plan)) (st_log ?st)
      (st_log (snd (and_then (apply_plan api ?plan) ?rest ?st)))"
  proof (rule make_before_break [where m = "apply_plan api ?plan" and st = ?st, OF m])
    show "logs no_delete [] (apply_plan api ?plan)"
      unfolding apply_plan_def by (intro logs_and_then logs_for_each logs_apply_no_delete)
    show "logs (no_apply every) [] (?rest x)" for x
      by (intro logs_and_then prune_plan_no_apply push_no_apply logs_return)
    show "applied_in every (st_log st1) = applied_in every (st_log ?st) @ plan_applied ?plan"
      if "r = Inr x" for x using apply_plan_ok [of api ?plan ?st st1] m that by simp
  qed
  moreover have "execute_plan api c ings previous options st = and_then (apply_plan api ?plan) ?rest ?st"
    by (simp add: execute_plan_def Let_def commit_placements_def and_then_def [of "\<lambda>st. (Inr (), st\<lparr>st_placements := Some (gp_placements ?plan)\<rparr>)"])
  ultimately show ?thesis by simp
qed

subsection \<open>The generated objects\<close>

fun is_generated :: "applied \<Rightarrow> bool" where
  "is_generated (AppGenerated g) = True"
| "is_generated x = False"

definition objects_to_apply :: "plan \<Rightarrow> generated list" where
  "objects_to_apply plan = (if plan_fatal plan then [] else plan_objects plan)"

lemma no_generated_patch: "logs (no_apply P) b (patch_ingress api before after)"
  unfolding patch_ingress_def by (intro logs_and_then logs_perform logs_gets) simp

lemma no_generated_translation_status: "logs (no_apply is_generated) b (reconcile_translation_status api c ing plan desired)"
proof -
  have label: "logs (no_apply is_generated) b (patch_label api ing label)" for label
    unfolding patch_label_def by (simp add: no_generated_patch)
  have status: "logs (no_apply is_generated) b (write_status api key before status)" for key before status
    unfolding write_status_def by (simp add: logs_perform)
  have "logs (no_apply is_generated) b (\<lambda>st. and_then (ask (CallReads ''status'') (\<lambda>log. compute_translation_status c (api_view api log)
        ing plan desired (tr_conditions (api_status api (st_log st) (ing_key ing)))))
      (\<lambda>x. and_then (write_status api (ing_key ing) (api_status api (st_log st) (ing_key ing)) (fst x)) (\<lambda>_. patch_label api ing (snd x))) st)"
    by (rule logs_state) (intro logs_and_then no_apply.logs_read status label)
  then show ?thesis
    unfolding reconcile_translation_status_def Let_def split_beta by (intro logs_and_then logs_or_fail logs_apply_no_apply) simp_all
qed

lemma no_generated_mirror: "logs (no_apply P) b (mirror_ingress_status api c ing desired)"
  unfolding mirror_ingress_status_def
  by (intro logs_and_then no_apply.logs_read) (auto split: option.split intro!: logs_perform)

definition after_pruning :: "'e api \<Rightarrow> config \<Rightarrow> ingress \<Rightarrow> plan \<Rightarrow> generated list \<Rightarrow> (unit, 'e) action" where
  "after_pruning api c ing plan desired =
     and_then (reconcile_translation_status api c ing plan desired)
       (\<lambda>ing'. if cf_update_status c \<and> \<not> plan_fatal plan \<and> pl_delegated plan = []
          then mirror_ingress_status api c ing' desired else return' ())"

definition after_objects :: "'e api \<Rightarrow> config \<Rightarrow> nsname \<Rightarrow> ingress \<Rightarrow> plan \<Rightarrow> generated list \<Rightarrow> (unit, 'e) action" where
  "after_objects api c request ing plan desired =
     and_then (prune_source api request desired False) (\<lambda>_. after_pruning api c ing plan desired)"

lemma activate_eq:
  "activate api c request ing plan = and_then (apply_desired api ing (objects_to_apply plan)) (after_objects api c request ing plan)"
  unfolding activate_def after_objects_def [abs_def] after_pruning_def objects_to_apply_def by (cases "plan_fatal plan") simp_all

lemma no_generated_status: "logs (no_apply is_generated) b (after_pruning api c ing plan desired)"
  unfolding after_pruning_def by (intro logs_and_then no_generated_translation_status) (simp add: no_generated_mirror)

lemma no_generated_after: "logs (no_apply is_generated) b (after_objects api c request ing plan desired)"
  unfolding after_objects_def by (rule logs_and_then [OF prune_source_no_apply no_generated_status])

lemma filter_is_generated: "filter is_generated (map AppGenerated gs) = map AppGenerated gs"
  by (induction gs) simp_all

text \<open>
  An Ingress that is activated without an error ends up with exactly its plan: every generated
  object of the plan was applied, in the order of the plan and once, and of each kind everything
  else that carries the labels of the Ingress was deleted. With a fatal plan that is everything:
  nothing is applied and no generated object stays.
\<close>

theorem activation_complete:
  "case activate api c request ing plan st of
     (Inl _, _) \<Rightarrow> True
   | (Inr _, st') \<Rightarrow>
       applied_in is_generated (st_log st') = applied_in is_generated (st_log st) @ map AppGenerated (objects_to_apply plan) \<and>
       list_all (pruned api request (map gen_key (objects_to_apply plan)) (st_log st')) prunedKinds"
proof (cases "activate api c request ing plan st")
  case (Pair r st')
  show ?thesis
  proof (cases r)
    case (Inr u)
    with Pair obtain desired st1 st2 where *:
      "apply_desired api ing (objects_to_apply plan) st = (Inr desired, st1)"
      "prune_source api request desired False st1 = (Inr (), st2)"
      "after_objects api c request ing plan desired st1 = (Inr (), st')"
      unfolding activate_eq after_objects_def by auto
    have "applied_in is_generated (st_log st') = applied_in is_generated (st_log st) @ map AppGenerated (objects_to_apply plan)"
      using apply_desired_ok(2) [OF *(1), of is_generated] quiet_applied [OF no_generated_after *(3)] by (simp add: filter_is_generated)
    moreover have "prefix (st_log st2) (st_log st')"
    proof -
      have "after_pruning api c ing plan desired st2 = (Inr (), st')" using *(2,3) by (simp add: after_objects_def)
      then show ?thesis using no_generated_status [of "[]" api c ing plan desired] extends_prefix unfolding logs_def
        by (metis Nil_prefix snd_conv)
    qed
    moreover have "pruned api request (map gen_key (objects_to_apply plan)) (st_log st2) kind" if "kind \<in> set prunedKinds" for kind
      using prune_source_ok [OF *(2), of kind] that apply_desired_ok(1) [OF *(1)] by simp
    ultimately show ?thesis by (auto simp: Pair Inr list_all_iff intro: pruned_later)
  qed (simp add: Pair)
qed

text \<open>
  C18. No generated object of an Ingress is deleted before all the new ones are in place, and none is
  when one of them could not be applied.
\<close>

theorem objects_made_before_broken:
  "extends (deletes_after is_generated (applied_in is_generated (st_log st) @ map AppGenerated (objects_to_apply plan)))
     (st_log st) (st_log (snd (activate api c request ing plan st)))"
proof -
  obtain r st1 where m: "apply_desired api ing (objects_to_apply plan) st = (r, st1)" by fastforce
  have no_delete: "logs no_delete b (apply_desired api ing gs)" for b gs
  proof (induction gs arbitrary: b)
    case (Cons g gs)
    have "logs no_delete b (\<lambda>st. and_then (apply_desired api ing gs) (\<lambda>rest. return' (received api (st_log st) g # rest)) st)" for b
      by (rule logs_state) (intro logs_and_then Cons.IH logs_return)
    then show ?case by (simp add: logs_and_then logs_apply_no_delete)
  qed simp
  show ?thesis unfolding activate_eq
  proof (rule make_before_break [where m = "apply_desired api ing (objects_to_apply plan)" and st = st, OF m])
    show "applied_in is_generated (st_log st1) = applied_in is_generated (st_log st) @ map AppGenerated (objects_to_apply plan)"
      if "r = Inr x" for x using apply_desired_ok(2) [OF m [unfolded that], of is_generated] by (simp add: filter_is_generated)
  qed (rule no_delete no_generated_after)+
qed

subsection \<open>Two limits\<close>

text \<open>
  The label that ties generated objects to their Ingress is the name, or its hashed label when the
  name is too long. An Ingress that is called like the hashed label of another one in its namespace
  has the same selector, so each prunes the objects of the other.
\<close>

lemma source_selectors_collide:
  "length name > 63 \<Longrightarrow> source_selector (nsname ns (dns_label [name])) = source_selector (nsname ns name)"
  using dns_label_ok [of "[name]"] by (simp add: source_selector_def source_name_label_value_def is_dns_label_def)

text \<open>
  The placements are committed before the plan is applied, the Ingresses with a listener that moved
  are pushed after it. When applying fails and the request is tried again, the plan is compared with
  the committed placements, nothing has changed any more, and nothing is ever pushed.
\<close>

lemma execute_plan_failed:
  assumes "execute_plan api c ings previous options st = (Inl err, st')"
  shows "st_affected st' = st_affected st"
proof -
  let ?plan = "build_managed_gateway ings options"
  obtain r1 st1 where m1: "apply_plan api ?plan (st\<lparr>st_placements := Some (gp_placements ?plan)\<rparr>) = (r1, st1)" by fastforce
  obtain r2 st2 where m2: "prune_plan api c ?plan st1 = (r2, st2)" by fastforce
  show ?thesis
    using assms steady_placements [OF steady_apply_plan m1] steady_placements [OF steady_prune_plan m2]
    by (auto simp: execute_plan_def Let_def commit_placements_def and_then_def m1 m2 push_changed_def return'_def split: sum.splits)
qed

lemma replanned_unchanged:
  assumes "all_served (build_managed_gateway ings options)" and "plan = build_managed_gateway ings options"
  shows "changed_tls_hosts (gp_placements plan) (build_managed_gateway ings (again options plan)) (again options plan) = []"
proof -
  have ok: "gomap_ok (gp_tls_sections plan)" unfolding assms(2) plan_fields by (rule mg.emit_sections_ok)
  have "listener_ref_for h (gp_placements plan) (again options plan) = Some ref" if "(h, ref) \<in> set (gp_tls_sections plan)" for h ref
  proof -
    have "gm_get (gp_tls_sections plan) h = Some ref" using that gomap_ok_in [OF ok] by blast
    then show ?thesis using listener_ref_for_sections [of ings options h "again options plan"] unfolding assms(2) by simp
  qed
  moreover have "build_managed_gateway ings (again options plan) = plan" using replanned [OF assms(1)] assms(2) by simp
  ultimately show ?thesis by (auto simp: changed_tls_hosts_def filter_empty_conv)
qed

lemma retried_plan_pushes_nothing:
  assumes "all_served (build_managed_gateway ings options)" and "plan = build_managed_gateway ings options"
    and "execute_plan api c ings previous options st = (Inl err, st1)"
    and "execute_plan api' c ings (gp_placements plan) (again options plan) st1 = (Inr plan', st2)"
  shows "st_affected st2 = st_affected st"
  using execute_plan_ok [OF assms(4)] execute_plan_failed [OF assms(3)] replanned_unchanged [OF assms(1,2)]
  by (auto simp: enqueue_affected_ingresses_def [abs_def] option.map_ident)

end
