(* ===== verification/Outcome.thy ===== *)
theory Outcome
  imports ReconcileEffects
begin

text \<open>
  What a request leaves behind when it is served without an error, from the first read of
  \<^verbatim>\<open>Reconcile\<close> to its last patch: the composition of the finalizer, the managed Gateway, the
  translation, the generated objects and the deletes.
\<close>

subsection \<open>Managing the Gateway touches no generated object\<close>

lemma no_generated_managed: "logs (no_apply is_generated) b (reconcile_managed_gateway api c)"
proof -
  have apply_plan: "logs (no_apply is_generated) b (apply_plan api plan)" for b plan
    unfolding apply_plan_def by (intro logs_and_then logs_for_each logs_apply_no_apply) auto
  have commit: "logs (no_apply is_generated) b (commit_placements ps)" for b ps
    by (rule logs_silent) (simp add: commit_placements_def)
  show ?thesis
    unfolding reconcile_managed_gateway_def execute_plan_def Let_def
    by (intro logs_and_then no_apply.logs_read no_apply.logs_read_certificates no_apply.logs_known_placements
        commit apply_plan prune_plan_no_apply push_no_apply logs_return)
qed

lemma no_generated_managed_plan: "logs (no_apply is_generated) b (managed_plan api c)"
  unfolding managed_plan_def by (simp add: logs_and_then no_generated_managed)

lemma no_generated_ensure: "logs (no_apply P) b (ensure_finalizer api ing)"
  unfolding ensure_finalizer_def by (simp add: no_generated_patch)

lemma no_generated_detach: "logs (no_apply P) b (detach api ing)"
  unfolding detach_def by (simp add: logs_and_then no_generated_patch)

lemma logged_prefix:
  assumes "logs ok [] m" and "m st = (r, st')"
  shows "prefix (st_log st) (st_log st')"
  using assms extends_prefix unfolding logs_def by (metis Nil_prefix snd_conv)

subsection \<open>The outcome\<close>

text \<open>The plan of the Gateway the request was served with.\<close>

definition gateway_planned :: "'e api \<Rightarrow> config \<Rightarrow> gateway_plan option \<Rightarrow> bool" where
  "gateway_planned api c gatewayPlan \<longleftrightarrow>
     (case gatewayPlan of
        None \<Rightarrow> \<not> cf_manage c
      | Some plan \<Rightarrow> cf_manage c \<and> (\<exists>log items certs previous.
          api_ingresses api log None = Inr items \<and>
          plan = build_managed_gateway (filter (active c) items) (managed_options_of c certs previous)))"

text \<open>The plan of the Ingress: that of its primary, or its own translation with the canaries it was assigned.\<close>

definition ingress_planned :: "'e api \<Rightarrow> config \<Rightarrow> gateway_plan option \<Rightarrow> ingress \<Rightarrow> plan \<Rightarrow> bool" where
  "ingress_planned api c gatewayPlan ing plan \<longleftrightarrow>
     (\<exists>log items. api_ingresses api log (Some (ing_namespace ing)) = Inr items \<and>
        (if is_canary_ingress ing then plan = delegated_plan (canary_assignments (filter (active c) items)) ing
         else \<exists>log1 log2 settings.
           requires_settings_snippets c (api_ingresses api log1 (Some (ing_namespace ing))) ing
             (map ing_name (canaries_of (filter (active c) items) ing)) = Inr settings \<and>
           plan = translate (resolving api log2) ing ((translate_options c gatewayPlan)
             \<lparr>op_canaries := canaries_of (filter (active c) items) ing, op_settings_as_snippets := settings\<rparr>)))"

definition activated :: "'e api \<Rightarrow> nsname \<Rightarrow> call list \<Rightarrow> generated list \<Rightarrow> call list \<Rightarrow> bool" where
  "activated api request before objects after \<longleftrightarrow>
     applied_in is_generated after = applied_in is_generated before @ map AppGenerated objects \<and>
     list_all (pruned api request (map gen_key objects) after) prunedKinds"

text \<open>The Ingress as it was served: it has the finalizer, or it was sent with it.\<close>

definition finalized :: "'e api \<Rightarrow> call list \<Rightarrow> ingress \<Rightarrow> ingress \<Rightarrow> bool" where
  "finalized api log found ing \<longleftrightarrow>
     ing_key ing = ing_key found \<and>
     (if finalizerName \<in> set (ing_finalizers found) then ing = found
      else CallPatchIngress found (found\<lparr>ing_finalizers := ing_finalizers found @ [finalizerName]\<rparr>) \<in> set log)"

definition served_outcome :: "'e api \<Rightarrow> config \<Rightarrow> nsname \<Rightarrow> ingress \<Rightarrow> call list \<Rightarrow> call list \<Rightarrow> bool" where
  "served_outcome api c request found before after \<longleftrightarrow>
     (\<exists>gatewayPlan ing plan. gateway_planned api c gatewayPlan \<and> finalized api after found ing \<and>
        ingress_planned api c gatewayPlan ing plan \<and>
        activated api request before (objects_to_apply (with_gateway_issues gatewayPlan request plan)) after)"

lemma gateway_planned_ok:
  assumes "managed_plan api c st = (Inr gatewayPlan, st')"
  shows "gateway_planned api c gatewayPlan"
proof (cases "cf_manage c")
  case True
  with assms obtain plan where plan: "reconcile_managed_gateway api c st = (Inr plan, st')" "gatewayPlan = Some plan"
    by (auto simp: managed_plan_def)
  then obtain items certs previous st1 st2 where
    "api_ingresses api (st_log st) None = Inr items"
    "execute_plan api c (filter (active c) items) previous (managed_options_of c certs previous) st2 = (Inr plan, st')"
    unfolding reconcile_managed_gateway_def by auto
  with plan(2) True show ?thesis using execute_plan_ok by (fastforce simp: gateway_planned_def)
qed (use assms in \<open>simp add: managed_plan_def gateway_planned_def\<close>)

lemma ingress_planned_ok:
  assumes "ingress_plan api c gatewayPlan (filter (active c) items) ing st = (Inr plan, st')"
    and "api_ingresses api log (Some (ing_namespace ing)) = Inr items"
  shows "ingress_planned api c gatewayPlan ing plan"
  using assms by (auto simp: ingress_plan_def ingress_planned_def translate_ingress_def Let_def split: if_splits) blast+

lemma finalized_ok:
  assumes "ensure_finalizer api found st = (Inr ing, st')" and "prefix (st_log st') log"
  shows "finalized api log found ing"
  using assms set_mono_prefix [OF assms(2)]
  by (auto simp: ensure_finalizer_def finalized_def patch_ingress_def received_ingress_def ing_key_def split: if_splits)

lemma serve_parts:
  assumes "serve api c request found st = (Inr (), st')"
  obtains ing st1 gatewayPlan st2 items plan st4 where
    "ensure_finalizer api found st = (Inr ing, st1)" "managed_plan api c st1 = (Inr gatewayPlan, st2)"
    "api_ingresses api (st_log st2) (Some (ing_namespace ing)) = Inr items"
    "ingress_plan api c gatewayPlan (filter (active c) items) ing
      (logged (CallList ''Ingress'' (Some (ing_namespace ing)) []) st2) = (Inr plan, st4)"
    "activate api c request ing (with_gateway_issues gatewayPlan request plan) st4 = (Inr (), st')"
  using assms unfolding serve_def by auto

lemma served_finalized:
  assumes "ensure_finalizer api found st = (Inr ing, st1)" and "managed_plan api c st1 = (Inr gatewayPlan, st2)"
    and "api_ingresses api (st_log st2) (Some (ing_namespace ing)) = Inr items"
    and "ingress_plan api c gatewayPlan (filter (active c) items) ing
      (logged (CallList ''Ingress'' (Some (ing_namespace ing)) []) st2) = (Inr plan, st4)"
    and "activate api c request ing (with_gateway_issues gatewayPlan request plan) st4 = (Inr (), st')"
  shows "finalized api (st_log st') found ing"
proof (rule finalized_ok [OF assms(1)])
  show "prefix (st_log st1) (st_log st')"
  proof -
    let ?rest = "and_then (managed_plan api c)
         (\<lambda>gatewayPlan. and_then (ask (CallList ''Ingress'' (Some (ing_namespace ing)) []) (\<lambda>log. api_ingresses api log (Some (ing_namespace ing))))
           (\<lambda>items. and_then (ingress_plan api c gatewayPlan (filter (active c) items) ing)
             (\<lambda>plan. activate api c request ing (with_gateway_issues gatewayPlan request plan))))"
    have "logs (held api request) [] ?rest"
      by (intro logs_and_then held.logs_managed_plan held.logs_read held.logs_ingress_plan held.logs_activate)
    moreover have "?rest st1 = (Inr (), st')" using assms(2-5) by auto
    ultimately show ?thesis by (rule logged_prefix)
  qed
qed

lemma served_ok:
  assumes "serve api c request found st = (Inr (), st')"
  shows "served_outcome api c request found (st_log st) (st_log st')"
proof -
  from assms obtain ing st1 gatewayPlan st2 items plan st4 where *:
    "ensure_finalizer api found st = (Inr ing, st1)" "managed_plan api c st1 = (Inr gatewayPlan, st2)"
    "api_ingresses api (st_log st2) (Some (ing_namespace ing)) = Inr items"
    "ingress_plan api c gatewayPlan (filter (active c) items) ing
      (logged (CallList ''Ingress'' (Some (ing_namespace ing)) []) st2) = (Inr plan, st4)"
    "activate api c request ing (with_gateway_issues gatewayPlan request plan) st4 = (Inr (), st')"
    by (rule serve_parts)
  have quiet: "applied_in is_generated (st_log st4) = applied_in is_generated (st_log st)"
    using quiet_applied [OF no_generated_ensure *(1)] quiet_applied [OF no_generated_managed_plan *(2)]
      quiet_applied [OF no_apply.logs_ingress_plan *(4)] by simp
  have "finalized api (st_log st') found ing" by (rule served_finalized [OF *])
  moreover have "activated api request (st_log st) (objects_to_apply (with_gateway_issues gatewayPlan request plan)) (st_log st')"
    using activation_complete [where api = api and c = c and request = request and ing = ing
        and plan = "with_gateway_issues gatewayPlan request plan" and st = st4] quiet
    by (simp add: activated_def *(5))
  ultimately show ?thesis
    using gateway_planned_ok [OF *(2)] ingress_planned_ok [OF *(4,3)] unfolding served_outcome_def by blast
qed

definition released_outcome :: "'e api \<Rightarrow> nsname \<Rightarrow> ingress option \<Rightarrow> call list \<Rightarrow> call list \<Rightarrow> bool" where
  "released_outcome api request found before after \<longleftrightarrow>
     applied_in is_generated after = applied_in is_generated before \<and> released api request after \<and>
     (case found of
        None \<Rightarrow> True
      | Some ing \<Rightarrow> if finalizerName \<in> set (ing_finalizers ing) then CallPatchIngress ing (detached ing) \<in> set after else True)"

lemma released_ok:
  assumes "release api c request found st = (Inr (), st')"
  shows "released_outcome api request found (st_log st) (st_log st')"
proof -
  let ?last = "case found of None \<Rightarrow> return' () | Some ing \<Rightarrow> detach api ing"
  from assms obtain st1 gatewayPlan st2 where *:
    "prune_source api request [] True st = (Inr (), st1)" "managed_plan api c st1 = (Inr gatewayPlan, st2)" "?last st2 = (Inr (), st')"
    unfolding release_def by auto
  have last: "logs (no_apply is_generated) [] ?last" by (simp add: no_generated_detach split: option.split)
  have "prefix (st_log st1) (st_log st')"
    using prefix_order.trans [OF logged_prefix [OF no_generated_managed_plan *(2)] logged_prefix [OF last *(3)]] .
  moreover have "pruned api request [] (st_log st1) kind" if "kind \<in> set (prunedKinds @ [''IngressTranslation''])" for kind
    using prune_source_ok [OF *(1), of kind] that by auto
  ultimately have "released api request (st_log st')"
    unfolding released_def list_all_iff using pruned_later by blast
  moreover have "applied_in is_generated (st_log st') = applied_in is_generated (st_log st)"
    using quiet_applied [OF prune_source_no_apply *(1)] quiet_applied [OF no_generated_managed_plan *(2)] quiet_applied [OF last *(3)]
    by simp
  moreover have "case found of None \<Rightarrow> True
      | Some ing \<Rightarrow> if finalizerName \<in> set (ing_finalizers ing) then CallPatchIngress ing (detached ing) \<in> set (st_log st') else True"
    using *(3) by (auto simp: detach_def patch_ingress_def split: option.split)
  ultimately show ?thesis by (simp add: released_outcome_def)
qed

text \<open>
  C4. A request for an Ingress that is served without an error leaves exactly what the Ingress asks
  for. If the Ingress is selected and not going away it carries the finalizer, and the generated
  objects that were applied are those of its translation under the managed Gateway's plan, each once
  and in order (none when the plan is fatal, a canary is served by its primary), while of every kind
  everything else with its labels was deleted. Otherwise nothing generated was applied, everything
  generated for it, its IngressTranslation included, was deleted, and the finalizer was given up.
\<close>

theorem request_outcome:
  "if request = certificateSyncKey \<or> request = globalReconcileKey then True
   else case reconcile api c request st of
     (Inl _, _) \<Rightarrow> True
   | (Inr _, st') \<Rightarrow>
       (case api_ingress api (st_log st) request of
          Inl _ \<Rightarrow> False
        | Inr None \<Rightarrow> released_outcome api request None (st_log st) (st_log st')
        | Inr (Some ing) \<Rightarrow>
            if active c ing then served_outcome api c request ing (st_log st) (st_log st')
            else released_outcome api request (Some ing) (st_log st) (st_log st'))"
proof -
  have same: "served_outcome api c request ing (st_log (logged (CallGet kind key) st)) log \<Longrightarrow> served_outcome api c request ing (st_log st) log"
    "released_outcome api request found (st_log (logged (CallGet kind key) st)) log \<Longrightarrow> released_outcome api request found (st_log st) log"
    for ing kind key log found
    by (simp_all add: served_outcome_def released_outcome_def activated_def)
  have "case api_ingress api (st_log st) request of
          Inl _ \<Rightarrow> False
        | Inr None \<Rightarrow> released_outcome api request None (st_log st) (st_log st')
        | Inr (Some ing) \<Rightarrow>
            if active c ing then served_outcome api c request ing (st_log st) (st_log st')
            else released_outcome api request (Some ing) (st_log st) (st_log st')"
    if "reconcile api c request st = (Inr (), st')" "request \<noteq> certificateSyncKey" "request \<noteq> globalReconcileKey" for st'
    using that unfolding reconcile_def
    by (auto simp: active_def split: option.splits if_splits dest!: same served_ok released_ok)
  note outcome = this
  obtain r st' where run: "reconcile api c request st = (r, st')" by fastforce
  show ?thesis
    using outcome [of st'] by (cases r) (simp_all add: run del: split_paired_All)
qed

end
