(* ===== verification/Setup.thy ===== *)
theory Setup
  imports Config
begin

text \<open>
  \<^verbatim>\<open>cmd/main.go\<close>, as far as it decides the configuration: the defaults of the flags, the class
  names, the checks before the manager starts and the discovery of the ListenerSet API.
\<close>

text \<open>The configuration without any flag.\<close>

definition default_flags :: config where
  "default_flags =
     \<lparr>cf_namespace = ''nginx-gateway'', cf_name = ''ingress-nginx'', cf_class = ''nginx'', cf_proxy_name = [], cf_manage = True,
      cf_allow_sets = False, cf_http_section = ''http'', cf_https_section = ''https'', cf_collapse = True,
      cf_sets_available = False, cf_without_class = True, cf_classes = [], cf_allow_snippets = False, cf_strict = True,
      cf_update_status = True\<rparr>"

definition default_classes :: string where
  "default_classes = ''nginx''"

definition class_names :: "string \<Rightarrow> string list" where
  "class_names ingressClasses = remdups (filter (\<lambda>class. class \<noteq> []) (map trim_space (split_on CHR '','' ingressClasses)))"

text \<open>The answer of the REST mapper for the ListenerSet kind.\<close>

datatype mapping_answer = MappingFound | NoMatch | MappingFailed

text \<open>The configuration the controller starts with; \<^theory_text>\<open>None\<close> when the process exits first.\<close>

definition start_config :: "config \<Rightarrow> string \<Rightarrow> mapping_answer \<Rightarrow> config option" where
  "start_config flags ingressClasses answer =
     (let c = flags\<lparr>cf_classes := class_names ingressClasses\<rparr> in
      if cf_namespace c = [] \<or> cf_name c = [] then None
      else if cf_manage c \<and> cf_class c = [] then None
      else if cf_manage c
      then (case answer of
              MappingFound \<Rightarrow> Some (c\<lparr>cf_sets_available := True\<rparr>)
            | NoMatch \<Rightarrow> Some c
            | MappingFailed \<Rightarrow> None)
      else Some c)"

lemma class_names_set:
  "set (class_names s) = {class. class \<noteq> [] \<and> class \<in> trim_space ` set (split_on CHR '','' s)}"
  by (auto simp: class_names_def)

lemma start_config_named: "start_config flags classes answer = Some c \<Longrightarrow> cf_namespace c \<noteq> [] \<and> cf_name c \<noteq> []"
  by (auto simp: start_config_def Let_def split: if_splits mapping_answer.splits)

text \<open>The defaults select the class \<^verbatim>\<open>nginx\<close> and the Ingresses without one.\<close>

lemma default_start:
  "start_config default_flags default_classes NoMatch = Some (default_flags\<lparr>cf_classes := [''nginx'']\<rparr>)"
proof -
  have "class_names default_classes = [''nginx'']" unfolding class_names_def default_classes_def by code_simp
  then show ?thesis by (simp add: start_config_def default_flags_def)
qed

end
