(* ===== verification/Wiring.thy ===== *)
theory Wiring
  imports Outcome Setup
begin

text \<open>
  How the controller is put together: the watches of \<^verbatim>\<open>SetupWithManager\<close> in
  \<^verbatim>\<open>internal/controller/ingress_controller.go\<close>, the handler of the channel in
  \<^verbatim>\<open>managed_gateway.go\<close>, and the cache of Secrets of \<^verbatim>\<open>certificates.go\<close> and \<^verbatim>\<open>cmd/main.go\<close>. How
  controller-runtime finds the object or its owner for a request is left to it; what a mapping
  function requests is the model's.
\<close>

subsection \<open>Watches\<close>

datatype mapping_function =
    IngressToNamespaceIngresses
  | TranslationToCanaries
  | ServiceToIngresses
  | ConfigMapToIngresses
  | GatewayToIngresses
  | ManagedGrantToIngresses
  | ManagedListenerSetToIngresses

text \<open>\<^verbatim>\<open>For\<close>, \<^verbatim>\<open>Owns\<close>, \<^verbatim>\<open>EnqueueRequestsFromMapFunc\<close> and \<^verbatim>\<open>secretEventHandler\<close>.\<close>

datatype watch_handler = RequestsObject | RequestsOwner | RequestsMapped mapping_function | RequestsCertificateSync

datatype watch_predicate = EveryEvent | GenerationOrAnnotationChanged | ListenerSetChanged

record watch =
  wa_kind :: string
  wa_handler :: watch_handler
  wa_predicate :: watch_predicate

definition owned_kinds :: "string list" where
  "owned_kinds = [''HTTPRoute'', ''BackendTLSPolicy'', ''ClientSettingsPolicy'', ''ProxySettingsPolicy'',
     ''AuthenticationFilter'', ''SnippetsFilter'', ''IngressTranslation'']"

definition mapped_watch :: "string \<Rightarrow> mapping_function \<Rightarrow> watch" where
  "mapped_watch kind mapping = \<lparr>wa_kind = kind, wa_handler = RequestsMapped mapping, wa_predicate = EveryEvent\<rparr>"

definition watches :: "config \<Rightarrow> watch list" where
  "watches c =
     [\<lparr>wa_kind = ''Ingress'', wa_handler = RequestsObject, wa_predicate = EveryEvent\<rparr>,
      \<lparr>wa_kind = ''Ingress'', wa_handler = RequestsMapped IngressToNamespaceIngresses, wa_predicate = GenerationOrAnnotationChanged\<rparr>] @
     map (\<lambda>kind. \<lparr>wa_kind = kind, wa_handler = RequestsOwner, wa_predicate = EveryEvent\<rparr>) owned_kinds @
     [mapped_watch ''IngressTranslation'' TranslationToCanaries,
      mapped_watch ''Service'' ServiceToIngresses,
      mapped_watch ''ConfigMap'' ConfigMapToIngresses,
      mapped_watch ''Gateway'' GatewayToIngresses,
      mapped_watch ''ReferenceGrant'' ManagedGrantToIngresses] @
     (if cf_manage c \<and> cf_sets_available c
      then [\<lparr>wa_kind = ''ListenerSet'', wa_handler = RequestsMapped ManagedListenerSetToIngresses, wa_predicate = ListenerSetChanged\<rparr>]
      else []) @
     (if cf_manage c \<and> cf_collapse c
      then [\<lparr>wa_kind = ''Secret'', wa_handler = RequestsCertificateSync, wa_predicate = EveryEvent\<rparr>] else [])"

text \<open>An object as a mapping function is given it; a function for another kind requests nothing.\<close>

record cluster_object =
  co_kind :: string
  co_meta :: object_meta

fun mapped_requests :: "config \<Rightarrow> lister \<Rightarrow> ingress list option \<Rightarrow> mapping_function \<Rightarrow> cluster_object \<Rightarrow> nsname list" where
  "mapped_requests c by_ns ings IngressToNamespaceIngresses x =
     (if co_kind x = ''Ingress'' then ingress_to_namespace_ingresses c by_ns (object_key (co_meta x)) else [])"
| "mapped_requests c by_ns ings TranslationToCanaries x =
     (if co_kind x = ''IngressTranslation'' then translation_to_canaries c by_ns (object_key (co_meta x)) else [])"
| "mapped_requests c by_ns ings ServiceToIngresses x =
     (if co_kind x = ''Service'' then service_to_ingresses c by_ns (object_key (co_meta x)) else [])"
| "mapped_requests c by_ns ings ConfigMapToIngresses x =
     (if co_kind x = ''ConfigMap'' then config_map_to_ingresses by_ns (object_key (co_meta x)) else [])"
| "mapped_requests c by_ns ings GatewayToIngresses x =
     (if co_kind x = ''Gateway'' then gateway_to_ingresses c ings (object_key (co_meta x)) else [])"
| "mapped_requests c by_ns ings ManagedGrantToIngresses x = managed_grant_to_ingresses c ings (co_meta x)"
| "mapped_requests c by_ns ings ManagedListenerSetToIngresses x = managed_listener_set_to_ingresses c ings (co_meta x)"

subsection \<open>Channels\<close>

text \<open>The queue of requests may support priorities.\<close>

datatype queue_call = QueueAdd nsname | QueueAddWithPriority nsname int

definition affectedIngressPriority :: int where
  "affectedIngressPriority = 10"

definition prioritized_ingress_handler :: "bool \<Rightarrow> object_meta \<Rightarrow> queue_call" where
  "prioritized_ingress_handler priorities meta =
     (if priorities then QueueAddWithPriority (object_key meta) affectedIngressPriority else QueueAdd (object_key meta))"

text \<open>The event the controller starts with.\<close>

definition startup_event :: object_meta where
  "startup_event = \<lparr>om_name = nn_name globalReconcileKey, om_namespace = [], om_labels = []\<rparr>"

lemma startup_requests_plan: "object_key startup_event = globalReconcileKey"
  by (simp add: startup_event_def object_key_def globalReconcileKey_def)

subsection \<open>The cache of Secrets\<close>

record cache_by_object =
  cb_field :: "string \<times> string"
  cb_transform :: "tls_secret_object \<Rightarrow> tls_secret_object"

definition secret_cache_by_object :: "codec \<Rightarrow> x509_lib \<Rightarrow> cache_by_object" where
  "secret_cache_by_object J L = \<lparr>cb_field = (''type'', ''kubernetes.io/tls''), cb_transform = transform_tls_secret J L\<rparr>"

definition cache_options :: "codec \<Rightarrow> x509_lib \<Rightarrow> config \<Rightarrow> (string \<times> cache_by_object) list" where
  "cache_options J L c = (if cf_manage c \<and> cf_collapse c then [(''Secret'', secret_cache_by_object J L)] else [])"

text \<open>
  Secrets are watched only through the cache that strips them: nothing of their data stays in the
  memory of the controller, and without wildcard collapse no Secret is watched or read at all.
\<close>

lemma watched_secrets_stripped:
  assumes "w \<in> set (watches c)" and "wa_kind w = ''Secret''"
  shows "\<exists>cache. map_of (cache_options J L c) ''Secret'' = Some cache \<and> se_data (cb_transform cache s) = None"
  using assms
  by (auto simp: watches_def owned_kinds_def mapped_watch_def cache_options_def secret_cache_by_object_def transform_tls_secret_def
      split: if_splits)

lemma no_secret_read: "\<not> cf_collapse c \<Longrightarrow> certificate_infos J c get ings snapshot = (Inr None, snapshot)"
  by (simp add: certificate_infos_def)

subsection \<open>The process\<close>

record process_flags =
  pf_config :: config
  pf_classes :: string
  pf_metrics :: string
  pf_probe :: string
  pf_leader :: bool

definition default_process_flags :: process_flags where
  "default_process_flags =
     \<lparr>pf_config = default_flags, pf_classes = default_classes, pf_metrics = '':8080'', pf_probe = '':8081'', pf_leader = True\<rparr>"

record manager_options =
  mn_metrics :: string
  mn_probe :: string
  mn_leader :: bool
  mn_leader_id :: string
  mn_cache :: "(string \<times> cache_by_object) list"

definition manager_options_of :: "codec \<Rightarrow> x509_lib \<Rightarrow> process_flags \<Rightarrow> config \<Rightarrow> manager_options" where
  "manager_options_of J L f c =
     \<lparr>mn_metrics = pf_metrics f, mn_probe = pf_probe f, mn_leader = pf_leader f,
      mn_leader_id = ''ingress-nginx-gateway-bridge.gateway.zyno.io'', mn_cache = cache_options J L c\<rparr>"

text \<open>What controller-runtime answers to the steps of \<^verbatim>\<open>main\<close>: whether they succeed.\<close>

record runtime_answers =
  ra_manager :: "manager_options \<Rightarrow> bool"
  ra_mapping :: mapping_answer
  ra_setup :: "watch list \<Rightarrow> bool"
  ra_healthz :: bool
  ra_readyz :: bool
  ra_run :: bool

text \<open>The message the process exits with, or the configuration it ran with until it was stopped.\<close>

definition run_process :: "codec \<Rightarrow> x509_lib \<Rightarrow> process_flags \<Rightarrow> runtime_answers \<Rightarrow> string + config" where
  "run_process J L f ra =
     (let c = (pf_config f)\<lparr>cf_classes := class_names (pf_classes f)\<rparr> in
      if cf_namespace c = [] \<or> cf_name c = [] then Inl ''gateway-namespace and gateway-name must not be empty''
      else if cf_manage c \<and> cf_class c = [] then Inl ''gateway-class-name must not be empty when manage-gateway is enabled''
      else if \<not> ra_manager ra (manager_options_of J L f c) then Inl ''create manager''
      else (case start_config (pf_config f) (pf_classes f) (ra_mapping ra) of
              None \<Rightarrow> Inl ''check ListenerSet API availability''
            | Some started \<Rightarrow>
                if \<not> ra_setup ra (watches started) then Inl ''register Ingress controller''
                else if \<not> ra_healthz ra then Inl ''register health check''
                else if \<not> ra_readyz ra then Inl ''register readiness check''
                else if \<not> ra_run ra then Inl ''run manager''
                else Inr started))"

lemma run_process_started:
  "run_process J L f ra = Inr c \<Longrightarrow> start_config (pf_config f) (pf_classes f) (ra_mapping ra) = Some c"
  by (auto simp: run_process_def Let_def split: if_splits option.splits)

text \<open>ListenerSets are watched only if their API is installed, so that starting the informers cannot fail for it.\<close>

lemma listener_sets_watched:
  assumes "run_process J L f ra = Inr c" and "\<not> cf_sets_available (pf_config f)"
  shows "list_ex (\<lambda>w. wa_kind w = ''ListenerSet'') (watches c) \<longleftrightarrow> cf_manage c \<and> ra_mapping ra = MappingFound"
proof -
  have "cf_manage c = cf_manage (pf_config f)" "cf_sets_available c \<longleftrightarrow> cf_manage c \<and> ra_mapping ra = MappingFound"
    using run_process_started [OF assms(1)] assms(2)
    by (auto simp: start_config_def Let_def split: if_splits mapping_answer.splits)
  then show ?thesis by (simp add: watches_def owned_kinds_def mapped_watch_def)
qed

subsection \<open>Every written object is watched\<close>

fun applied_meta :: "applied \<Rightarrow> object_meta" where
  "applied_meta (AppGrant g) = rg_meta g"
| "applied_meta (AppGateway g) = gw_meta g"
| "applied_meta (AppSet s) = ls_meta s"
| "applied_meta (AppGenerated g) = gen_meta g"
| "applied_meta (AppTranslation m ingress) = m"

definition owner_watched :: "config \<Rightarrow> applied \<Rightarrow> bool" where
  "owner_watched c x \<longleftrightarrow>
     list_ex (\<lambda>w. wa_kind w = fst (app_key x) \<and> wa_handler w = RequestsOwner \<and> wa_predicate w = EveryEvent) (watches c)"

definition plan_requested :: "config \<Rightarrow> lister \<Rightarrow> ingress list \<Rightarrow> applied \<Rightarrow> bool" where
  "plan_requested c by_ns ings x \<longleftrightarrow>
     list_ex (\<lambda>w. wa_kind w = fst (app_key x) \<and>
       (case wa_handler w of
          RequestsMapped mapping \<Rightarrow>
            set (mapped_requests c by_ns (Some ings) mapping \<lparr>co_kind = fst (app_key x), co_meta = applied_meta x\<rparr>) =
              insert globalReconcileKey (set (selected_requests c ings))
        | _ \<Rightarrow> False)) (watches c)"

lemma applied_owner_watched: "owner_watched c (AppGenerated g)" "owner_watched c (AppTranslation m i)"
  by (cases g; simp add: owner_watched_def watches_def owned_kinds_def gen_key_def) (simp add: owner_watched_def watches_def owned_kinds_def)

lemma all_selected_set: "set (all_selected_ingresses c (Some ings)) = set (selected_requests c ings)"
  by (simp add: all_selected_ingresses_def)

lemma managed_labels_requested:
  assumes "om_labels meta = managed_labels (managed_options_of c certs previous) @ rest"
  shows "set (managed_grant_to_ingresses c (Some ings) meta) = insert globalReconcileKey (set (selected_requests c ings))"
  using assms by (simp add: managed_grant_to_ingresses_def managed_labels_def all_selected_set gm_or_def ManagedByLabel_def GatewayLabel_def)

lemma plan_watched:
  assumes "cf_manage c" and "x \<in> set (plan_applied (build_managed_gateway items (managed_options_of c certs previous)))"
  shows "plan_requested c by_ns ings x"
proof -
  let ?o = "managed_options_of c certs previous"
  from assms(2) consider
      secret where "x = AppGrant (certificate_reference_grant ?o secret)"
    | "x = AppGateway (gp_gateway (build_managed_gateway items ?o))"
    | i entries where "x = AppSet (managed_listener_set ?o i entries)" "i \<in> set (mg.used_sets ?o items)"
    by (auto simp: plan_applied_def plan_fields mg.emit_sets_eq)
  then show ?thesis
  proof cases
    case 1
    then show ?thesis
      using managed_labels_requested [of "rg_meta (certificate_reference_grant ?o secret)" c certs previous "[]" ings]
      by (simp add: plan_requested_def watches_def mapped_watch_def certificate_reference_grant_def)
  next
    case 2
    then show ?thesis
      by (simp add: plan_requested_def watches_def mapped_watch_def plan_fields gateway_to_ingresses_def object_key_def all_selected_set
          managed_options_of_def)
  next
    case 3
    then have "cf_sets_available c" using used_sets_overflow by fastforce
    with 3 show ?thesis
      using managed_labels_requested [of "ls_meta (managed_listener_set ?o i entries)" c certs previous "[(ListenerSetIndexLabel, itoa (int i))]" ings]
        assms(1)
      by (simp add: plan_requested_def watches_def mapped_watch_def managed_listener_set_def managed_listener_set_to_ingresses_def)
  qed
qed

text \<open>
  C12. Drift is repaired. Everything the controller writes is watched: an event of a generated object
  or of an IngressTranslation requests its Ingress, and an event of the managed Gateway, of one of
  its ListenerSets or of a certificate grant requests every selected Ingress and the plan itself. A
  request of the plan that succeeds has applied every object of the plan again.
\<close>

theorem drift_repaired:
  "list_all (owner_watched c) (map AppGenerated objects @ [AppTranslation meta name]) \<and>
   (if cf_manage c
    then list_all (plan_requested c by_ns ings)
        (plan_applied (build_managed_gateway items (managed_options_of c certs previous))) \<and>
      (case reconcile api c globalReconcileKey st of
         (Inl _, _) \<Rightarrow> True
       | (Inr _, st') \<Rightarrow> \<exists>plan. gateway_planned api c (Some plan) \<and>
           applied_in every (st_log st') = applied_in every (st_log st) @ plan_applied plan)
    else True)"
proof -
  have "\<exists>plan. gateway_planned api c (Some plan) \<and> applied_in every (st_log st') = applied_in every (st_log st) @ plan_applied plan"
    if run: "reconcile api c globalReconcileKey st = (Inr u, st')" and manage: "cf_manage c" for u st'
  proof -
    from run manage obtain plan where plan: "reconcile_managed_gateway api c st = (Inr plan, st')"
      by (auto simp: reconcile_def managed_plan_def certificateSyncKey_def globalReconcileKey_def)
    then have "managed_plan api c st = (Inr (Some plan), st')" using manage by (simp add: managed_plan_def)
    then have "gateway_planned api c (Some plan)" by (rule gateway_planned_ok)
    moreover have "applied_in every (st_log st') = applied_in every (st_log st) @ plan_applied plan"
      using managed_run [where api = api and c = c and st = st] unfolding plan by auto
    ultimately show ?thesis by blast
  qed
  then show ?thesis
    using plan_watched applied_owner_watched by (auto simp: list_all_iff split: prod.split sum.split)
qed

end
