(* ===== verification/ReconcileProgress.thy ===== *)
theory ReconcileProgress
  imports ReconcileEffects
begin

text \<open>
  Progress: a reconciliation fails only because of the API server. With one that answers every read,
  accepts every write and holds no unmanaged object in the way, every request succeeds.
\<close>

subsection \<open>A reliable API server\<close>

definition readable :: "'e view \<Rightarrow> bool" where
  "readable view \<longleftrightarrow>
     (\<forall>key. \<not> isl (vw_gateway view key) \<and> \<not> isl (vw_set view key) \<and> \<not> isl (vw_route view key) \<and>
        \<not> isl (vw_ingress view key) \<and> \<not> isl (vw_translation view key)) \<and>
     (\<forall>kind key. \<not> isl (vw_policy view kind key) \<and> \<not> isl (vw_filter view kind key))"

definition adoptable :: "'e + strmap option \<Rightarrow> bool" where
  "adoptable answer \<longleftrightarrow>
     (case answer of Inl _ \<Rightarrow> False | Inr None \<Rightarrow> True | Inr (Some labels) \<Rightarrow> gm_or [] labels ManagedByLabel = ControllerName)"

definition accepted_write :: "call \<Rightarrow> 'e written \<Rightarrow> bool" where
  "accepted_write c w \<longleftrightarrow> (case w of Written \<Rightarrow> True | Missing \<Rightarrow> deletes c | WriteFailed _ \<Rightarrow> False)"

definition reliable :: "'e api \<Rightarrow> bool" where
  "reliable api \<longleftrightarrow>
     (\<forall>log kind key. adoptable (api_labels api log kind key)) \<and>
     (\<forall>log kind namespace labels. \<not> isl (api_list api log kind namespace labels)) \<and>
     (\<forall>log c. accepted_write c (api_write api log c)) \<and>
     (\<forall>log namespace. \<not> isl (api_ingresses api log namespace)) \<and>
     (\<forall>log key. \<not> isl (api_ingress api log key)) \<and>
     (\<forall>log key. \<not> isl (api_secret api log key)) \<and>
     (\<forall>log. \<not> isl (api_gateway api log) \<and> \<not> isl (api_sets api log) \<and> readable (api_view api log)) \<and>
     (\<forall>ing meta. api_owner api ing meta = None) \<and>
     (\<forall>object. api_encode api object = None)"

lemma reliableD:
  assumes "reliable api"
  shows "adoptable (api_labels api log kind key)" "\<not> isl (api_list api log kind namespace labels)"
    "accepted_write w (api_write api log w)" "\<not> isl (api_ingresses api log namespace)" "\<not> isl (api_ingress api log key)"
    "\<not> isl (api_secret api log key)" "\<not> isl (api_gateway api log)" "\<not> isl (api_sets api log)" "readable (api_view api log)"
    "api_owner api ing meta = None" "api_encode api object = None"
  using assms by (simp_all add: reliable_def)

subsection \<open>Actions that succeed\<close>

definition succeeds :: "('a, 'e) action \<Rightarrow> bool" where
  "succeeds m \<longleftrightarrow> (\<forall>st. \<not> isl (fst (m st)))"

lemma succeeds_basic [simp]: "succeeds (return' x)" "succeeds (\<lambda>st. (Inr (f st), g st))" "succeeds (or_fail None)"
  by (simp_all add: succeeds_def return'_def or_fail_def)

lemma succeeds_and_then [simp]: "succeeds m \<Longrightarrow> (\<And>x. succeeds (f x)) \<Longrightarrow> succeeds (and_then m f)"
  unfolding succeeds_def and_then_def by (auto split: prod.split sum.split) (metis fst_conv sum.disc(1))+

lemma succeeds_state: "(\<And>st. succeeds (m st)) \<Longrightarrow> succeeds (\<lambda>st. m st st)"
  by (simp add: succeeds_def)

lemma succeeds_ask: "(\<And>log. \<not> isl (answer log)) \<Longrightarrow> succeeds (ask call answer)"
  unfolding succeeds_def ask_def by (auto split: sum.split) (metis sum.disc(1))

lemma succeeds_ask_then:
  assumes "\<And>log. \<not> isl (answer log)" and "\<And>log x. answer log = Inr x \<Longrightarrow> succeeds (f x)"
  shows "succeeds (and_then (ask call answer) f)"
  unfolding succeeds_def
proof
  fix st :: bridge
  obtain x where "answer (st_log st) = Inr x" using assms(1) [of "st_log st"] by (cases "answer (st_log st)") auto
  with assms(2) [OF this] show "\<not> isl (fst (and_then (ask call answer) f st))"
    by (simp add: and_then_def ask_def succeeds_def)
qed

lemma succeeds_for_each [simp]: "(\<And>x. succeeds (f x)) \<Longrightarrow> succeeds (for_each f xs)"
  by (induction xs) simp_all

lemma succeeds_join [simp]:
  assumes "\<And>x. succeeds (f x)"
  shows "succeeds (join_errors f xs)"
proof -
  have "fst (collect_errors f xs st) = []" for st
  proof (induction xs arbitrary: st)
    case (Cons x xs)
    have "\<not> isl (fst (f x st))" using assms by (simp add: succeeds_def)
    with Cons show ?case by (auto split: sum.split prod.split)
  qed simp
  then show ?thesis unfolding succeeds_def join_errors_def by (auto split: prod.split list.split) (metis fst_conv list.distinct(1))
qed

subsection \<open>The parts of a reconciliation\<close>

lemma succeeds_perform:
  assumes "reliable api" and "\<not> deletes w"
  shows "succeeds (perform api w)"
proof -
  have "api_write api log w = Written" for log
    using reliableD(3) [OF assms(1), of w log] assms(2) by (simp add: accepted_write_def split: written.splits)
  then show ?thesis by (simp add: succeeds_def perform_def)
qed

lemma succeeds_delete: "reliable api \<Longrightarrow> succeeds (delete_object api kind key)"
  using reliableD(3) [of api "CallDelete kind key"]
  by (auto simp: succeeds_def delete_object_def perform_def accepted_write_def split: written.split) (metis written.simps)+

lemma succeeds_apply:
  assumes "reliable api"
  shows "succeeds (apply_object api object)"
  unfolding apply_object_def
proof (rule succeeds_ask_then)
  let ?k = "fst (app_key object)" and ?n = "snd (app_key object)"
  show "\<not> isl (api_labels api log ?k ?n)" for log
    using reliableD(1) [OF assms, of log ?k ?n] by (auto simp: adoptable_def split: sum.splits)
  fix log x assume "api_labels api log ?k ?n = Inr x"
  with reliableD(1) [OF assms, of log ?k ?n]
  have "\<not> (case x of None \<Rightarrow> False | Some labels \<Rightarrow> gm_or [] labels ManagedByLabel \<noteq> ControllerName)"
    by (auto simp: adoptable_def split: option.splits)
  then show "succeeds (if case x of None \<Rightarrow> False | Some labels \<Rightarrow> gm_or [] labels ManagedByLabel \<noteq> ControllerName
      then fail (RefusedToAdopt ?k ?n) else and_then (or_fail (api_encode api object)) (\<lambda>_. perform api (CallApply object)))"
    using succeeds_perform [OF assms] by (simp add: reliableD(11) [OF assms])
qed

lemma succeeds_prune_source: "reliable api \<Longrightarrow> succeeds (prune_source api request desired includeStatus)"
  unfolding prune_source_def prune_kind_def delete_list_items_def
  by (intro succeeds_join succeeds_and_then succeeds_ask succeeds_delete reliableD(2))

lemma succeeds_delete_others: "reliable api \<Longrightarrow> succeeds (delete_others api kind keep items)"
  unfolding delete_others_def by (intro succeeds_for_each succeeds_delete)

lemma succeeds_read_certificates:
  assumes "reliable api"
  shows "succeeds (read_certificates api c ings)"
proof -
  have "\<not> isl (read_certificate J get key)" if "\<And>key. \<not> isl (get key)" for J and get :: "nsname \<Rightarrow> 'a + tls_secret_object option" and key
    using that [of key] by (auto simp: read_certificate_def split: sum.split option.split)
  moreover have "\<not> isl (fst (lookup_loop read keys cache result))" if "\<And>key. \<not> isl (read key)"
    for read :: "nsname \<Rightarrow> 'a + certificate_info option" and keys cache result
  proof (induction keys arbitrary: cache result)
    case (Cons k ks)
    show ?case using Cons.IH that [of k] by (auto split: option.split sum.split)
  qed simp
  ultimately show ?thesis
    using reliableD(6) [OF assms]
    by (auto simp: succeeds_def read_certificates_def certificate_infos_def Let_def split: prod.splits sum.splits)
      (metis fst_conv sum.disc(1))+
qed

lemma succeeds_known_placements:
  assumes "reliable api"
  shows "succeeds (known_placements api c)"
proof -
  have "\<not> isl (observed_listener_placements c (api_gateway api log) (api_sets api log))" for log
    using reliableD(7,8) [OF assms, of log]
    by (auto simp: observed_listener_placements_def Let_def split: sum.split option.split)
  then have "succeeds (and_then (ask (CallReads ''ListenerSet'') (\<lambda>log. observed_listener_placements c (api_gateway api log) (api_sets api log)))
      (\<lambda>observed. and_then (commit_placements observed) (\<lambda>_. return' observed)))"
    by (intro succeeds_and_then succeeds_ask) (simp_all add: commit_placements_def)
  then show ?thesis by (simp add: succeeds_def known_placements_def split: option.split)
qed

lemma succeeds_planning [simp]: "succeeds (push_changed ings hosts changed)" "succeeds (commit_placements p)"
  by (simp_all add: push_changed_def commit_placements_def)

lemma succeeds_managed:
  assumes "reliable api"
  shows "succeeds (reconcile_managed_gateway api c)"
proof -
  have "succeeds (apply_plan api plan)" for plan
    unfolding apply_plan_def by (intro succeeds_and_then succeeds_for_each succeeds_apply assms)
  moreover have "succeeds (prune_plan api c plan)" for plan
    unfolding prune_plan_def prune_listener_sets_def prune_grants_def
    by (auto intro!: succeeds_and_then succeeds_ask succeeds_delete_others reliableD(2) assms)
  ultimately have "succeeds (execute_plan api c ings previous options)" for ings previous options
    unfolding execute_plan_def Let_def by simp
  then show ?thesis
    unfolding reconcile_managed_gateway_def
    by (intro succeeds_and_then succeeds_ask succeeds_read_certificates succeeds_known_placements reliableD(4) assms)
qed

subsection \<open>The status\<close>

definition no_error :: "'e ready \<Rightarrow> bool" where
  "no_error r \<longleftrightarrow> snd (snd (snd r)) = None"

lemma readableD:
  assumes "readable view"
  shows "\<not> isl (vw_gateway view key)" "\<not> isl (vw_set view key)" "\<not> isl (vw_route view key)" "\<not> isl (vw_ingress view key)"
    "\<not> isl (vw_translation view key)" "\<not> isl (vw_policy view kind key)" "\<not> isl (vw_filter view kind key)"
  using assms by (simp_all add: readable_def)

lemma no_error_simp [simp]: "no_error (status, reason, message, err) \<longleftrightarrow> err = None"
  by (simp add: no_error_def)

lemma first_failure_no_error:
  assumes "first_failure f xs = Some r" and "\<And>x r. f x = Some r \<Longrightarrow> no_error r"
  shows "no_error r"
  using first_failure_Some [OF assms(1)] assms(2) by blast

lemma unless_ready_no_error: "unless_ready x = Some r \<Longrightarrow> no_error r"
  by (auto simp: unless_ready_def split: prod.splits if_splits)

lemma policy_check_no_error:
  assumes "readable view"
  shows "policy_check view kind meta = Some r \<Longrightarrow> no_error r" "filter_check view kind meta = Some r \<Longrightarrow> no_error r"
  using readableD(6,7) [OF assms, of kind "object_key meta"]
  by (auto simp: policy_check_def filter_check_def pending_object_def split: sum.splits option.splits dest: unless_ready_no_error)

lemma ancestor_check_no_error: "ancestor_check n g cs = Some r \<Longrightarrow> no_error r"
  by (auto simp: ancestor_check_def policy_pending_def policy_rejected_def split: option.splits if_splits)

lemma own_ancestors_no_error:
  assumes "first_failure (\<lambda>a. if own_ancestor c a then ancestor_check n g (pa_conditions a) else None) as = Some r"
  shows "no_error r"
  using assms by (rule first_failure_no_error) (auto split: if_splits dest: ancestor_check_no_error)

lemma backend_tls_check_no_error:
  assumes "readable view" and "backend_tls_check c view meta = Some r"
  shows "no_error r"
  using assms readableD(6) [OF assms(1), of "''BackendTLSPolicy''" "object_key meta"]
  by (auto simp: backend_tls_check_def policy_pending_def split: sum.splits option.splits if_splits dest: own_ancestors_no_error)

lemma route_condition_check_no_error: "route_condition_check n g cs ty = Some r \<Longrightarrow> no_error r"
  by (auto simp: route_condition_check_def route_pending_def split: option.splits if_splits)

lemma route_parent_check_no_error:
  assumes "route_parent_check meta current want = Some r"
  shows "no_error r"
proof (cases "matching_parent_status (ob_status current) want (om_namespace meta)")
  case None
  with assms show ?thesis by (auto simp: route_parent_check_def route_pending_def)
next
  case (Some p)
  with assms have "first_failure (route_condition_check (om_name meta) (ob_generation current) (pa_conditions p)) [''Accepted'', ''ResolvedRefs''] = Some r"
    by (simp add: route_parent_check_def)
  then show ?thesis by (rule first_failure_no_error) (rule route_condition_check_no_error)
qed

lemma route_check_no_error:
  assumes "readable view" and "route_check view route = Some r"
  shows "no_error r"
proof -
  have "no_error r" if "first_failure (route_parent_check meta current) wants = Some r" for meta current wants and r :: "'a ready"
    using that by (rule first_failure_no_error) (rule route_parent_check_no_error)
  then show ?thesis
    using assms readableD(3) [OF assms(1), of "object_key (hr_meta route)"]
    by (auto simp: route_check_def route_pending_def split: sum.splits option.splits if_splits)
qed

lemma object_check_no_error: "readable view \<Longrightarrow> object_check c view g = Some r \<Longrightarrow> no_error r"
  by (cases g) (auto dest: policy_check_no_error backend_tls_check_no_error route_check_no_error)

lemma set_check_no_error:
  assumes "readable view" and "set_check c view n = Some r"
  shows "no_error r"
proof (cases "\<exists>current. first_failure (set_condition_check n current) [''Accepted'', ''Programmed''] = Some r")
  case True
  then obtain current where "first_failure (set_condition_check n current) [''Accepted'', ''Programmed''] = Some r" by blast
  then show ?thesis
    by (rule first_failure_no_error) (auto simp: set_condition_check_def split: option.splits if_splits)
next
  case False
  with assms readableD(2) [OF assms(1), of "nsname (cf_namespace c) n"] show ?thesis
    by (auto simp: set_check_def split: sum.splits option.splits simp del: first_failure.simps)
qed

lemma generated_ready_no_error:
  assumes "readable view"
  shows "no_error (generated_ready c view desired)"
proof -
  have gateway: "no_error r" if "gateway_check c view = Some r" for r
    using that readableD(1) [OF assms, of "nsname (cf_namespace c) (cf_name c)"]
    by (auto simp: gateway_check_def split: sum.splits option.splits if_splits)
  have sets: "no_error r" if "first_failure (set_check c view) ns = Some r" for ns r
    using that by (rule first_failure_no_error) (rule set_check_no_error [OF assms])
  have objects: "no_error r" if "first_failure (object_check c view) gs = Some r" for gs r
    using that by (rule first_failure_no_error) (rule object_check_no_error [OF assms])
  show ?thesis
    unfolding generated_ready_def by (auto split: option.split dest: gateway sets objects simp del: first_failure_None)
qed

lemma delegated_ready_no_error: "readable view \<Longrightarrow> no_error (delegated_ready view namespace primary)"
  using readableD(4,5) [of view "nsname namespace primary"]
  by (auto simp: delegated_ready_def delegated_pending_def split: sum.split option.split cond_status.split)

lemma compute_status_answers:
  assumes "readable view"
  shows "\<not> isl (compute_translation_status c view ing plan desired before)" "\<not> isl (vw_gateway view key) \<Longrightarrow>
    \<not> isl (mirrored_status c view (vw_gateway view key) ing desired)"
  using generated_ready_no_error [OF assms, of c desired]
    delegated_ready_no_error [OF assms, of "ing_namespace ing" "pl_delegated plan"]
  by (auto simp: compute_translation_status_def mirrored_status_def Let_def split: prod.splits option.splits sum.split)

subsection \<open>Requests\<close>

lemma succeeds_apply_desired: "reliable api \<Longrightarrow> succeeds (apply_desired api ing gs)"
proof (induction gs)
  case (Cons g gs)
  have "succeeds (\<lambda>st. and_then (apply_desired api ing gs) (\<lambda>rest. return' (received api (st_log st) g # rest)) st)"
    by (rule succeeds_state) (simp add: Cons)
  then show ?case using Cons.prems by (simp add: reliableD(10) succeeds_apply)
qed simp

lemma succeeds_patch_ingress: "reliable api \<Longrightarrow> succeeds (patch_ingress api before after)"
  unfolding patch_ingress_def by (simp add: succeeds_perform)

lemma succeeds_translation_status:
  assumes "reliable api"
  shows "succeeds (reconcile_translation_status api c ing plan desired)"
proof -
  have label: "succeeds (patch_label api ing label)" "succeeds (write_status api key before status)" for label key before status
    unfolding patch_label_def write_status_def by (simp_all add: succeeds_patch_ingress succeeds_perform assms)
  have "succeeds (\<lambda>st. and_then (ask (CallReads ''status'') (\<lambda>log. compute_translation_status c (api_view api log) ing plan desired
        (tr_conditions (api_status api (st_log st) (ing_key ing)))))
      (\<lambda>x. and_then (write_status api (ing_key ing) (api_status api (st_log st) (ing_key ing)) (fst x)) (\<lambda>_. patch_label api ing (snd x))) st)"
    by (rule succeeds_state) (intro succeeds_and_then succeeds_ask compute_status_answers reliableD assms label)
  then show ?thesis
    unfolding reconcile_translation_status_def Let_def split_beta
    by (simp add: reliableD(10) [OF assms] succeeds_apply [OF assms])
qed

lemma succeeds_mirror:
  assumes "reliable api"
  shows "succeeds (mirror_ingress_status api c ing desired)"
proof -
  have "\<not> isl (mirrored_status c (api_view api log) (vw_gateway (api_view api log') key) ing desired)" for log log' key
    using generated_ready_no_error [OF reliableD(9) [OF assms, of log], of c desired] readableD(1) [OF reliableD(9) [OF assms, of log'], of key]
    by (auto simp: mirrored_status_def Let_def split: prod.splits option.splits sum.split)
  then show ?thesis
    unfolding mirror_ingress_status_def
    by (intro succeeds_and_then succeeds_ask) (auto split: option.split simp: succeeds_perform assms)
qed

lemma succeeds_serve:
  assumes "reliable api"
  shows "succeeds (serve api c request ing)"
proof -
  have "succeeds (ensure_finalizer api ing)" for ing
    unfolding ensure_finalizer_def by (simp add: succeeds_patch_ingress assms)
  moreover have "succeeds (managed_plan api c)"
    unfolding managed_plan_def by (simp add: succeeds_managed assms)
  moreover have "succeeds (ingress_plan api c gp ings ing)" for gp ings ing
  proof -
    have "\<not> isl (requires_settings_snippets c (api_ingresses api log ns) ing canaries)" for log ns canaries
      using reliableD(4) [OF assms, of log ns] by (auto simp: requires_settings_snippets_def split: sum.split)
    then show ?thesis
      unfolding ingress_plan_def Let_def translate_ingress_def by (auto intro!: succeeds_and_then succeeds_ask)
  qed
  moreover have "succeeds (activate api c request ing plan)" for ing plan
    unfolding activate_def
    by (auto intro!: succeeds_and_then succeeds_prune_source succeeds_translation_status succeeds_apply_desired succeeds_mirror assms)
  ultimately show ?thesis
    unfolding serve_def by (intro succeeds_and_then succeeds_ask reliableD(4) [OF assms])
qed

lemma succeeds_release: "reliable api \<Longrightarrow> succeeds (release api c request found)"
  unfolding release_def managed_plan_def detach_def
  by (auto intro!: succeeds_and_then succeeds_prune_source succeeds_managed succeeds_patch_ingress split: option.split)

lemma reconcile_ok:
  assumes "reliable api"
  shows "fst (reconcile api c request st) = Inr ()"
proof -
  have "succeeds (reconcile api c request)"
    unfolding reconcile_def managed_plan_def forget_certificates_def
    by (auto intro!: succeeds_and_then succeeds_ask succeeds_managed succeeds_release succeeds_serve reliableD(5) assms split: option.split)
  then show ?thesis unfolding succeeds_def by (metis (full_types) isl_def old.unit.exhaust sum.exhaust_sel)
qed


text \<open>A cluster with one Ingress, nothing generated yet and nothing reported.\<close>

definition sample_view :: "string view" where
  "sample_view = \<lparr>vw_gateway = (\<lambda>_. Inr None), vw_set = (\<lambda>_. Inr None), vw_policy = (\<lambda>_ _. Inr None), vw_filter = (\<lambda>_ _. Inr None),
     vw_route = (\<lambda>_. Inr None), vw_ingress = (\<lambda>_. Inr None), vw_translation = (\<lambda>_. Inr None)\<rparr>"

definition sample_api :: "string api" where
  "sample_api =
     \<lparr>api_labels = (\<lambda>_ _ _. Inr None), api_list = (\<lambda>_ _ _ _. Inr []), api_write = (\<lambda>_ _. Written),
      api_ingresses = (\<lambda>_ _. Inr [sample_route ''web'' 1 []]), api_ingress = (\<lambda>_ _. Inr (Some (sample_route ''web'' 1 []))),
      api_secret = (\<lambda>_ _. Inr None), api_gateway = (\<lambda>_. Inr None), api_sets = (\<lambda>_. Inr []), api_service = (\<lambda>_ _. Inr None),
      api_config_map = (\<lambda>_ _. Inr None), api_view = (\<lambda>_. sample_view), api_patched = (\<lambda>_ ing. ing),
      api_parents = (\<lambda>_ r. hr_parents r),
      api_status = (\<lambda>_ _. \<lparr>tr_generation = 0, tr_conditions = [], tr_resources = [], tr_issues = []\<rparr>),
      api_owner = (\<lambda>_ _. None), api_encode = (\<lambda>_. None), api_text = (\<lambda>e. e), api_missing = (\<lambda>kind _. kind @ '' not found''),
      api_codec = sample_codec,
      api_env = \<lparr>en_resolve_port = None, en_resolve_config = None, en_dns1123 = (\<lambda>_. True), en_parse_url = (\<lambda>_. None)\<rparr>\<rparr>"

definition fresh_bridge :: bridge where
  "fresh_bridge = \<lparr>st_log = [], st_placements = None, st_certs = None, st_affected = Some []\<rparr>"


end
