(* ===== verification/Store.thy ===== *)
theory Store
  imports Wiring ReconcileProgress
begin

text \<open>
  The reconciler against an API server that keeps what it is told: the objects it holds are a
  function of the calls that wrote them, and its lists answer from them (nobody else writes, and
  the cache the client reads from has caught up). Against such a server a request refines an update
  of the store: what the bridge manages is replaced by what is wanted and nothing else changes. The
  store after every operation is given in turn, up to \<^verbatim>\<open>Reconcile\<close>.
\<close>

subsection \<open>The store\<close>

type_synonym store = "string \<times> nsname \<Rightarrow> applied option"

fun written_store :: "'e written \<Rightarrow> call \<Rightarrow> store \<Rightarrow> store" where
  "written_store Written (CallApply x) s = s(app_key x \<mapsto> x)"
| "written_store Written (CallDelete kind key) s = s((kind, key) := None)"
| "written_store Missing (CallDelete kind key) s = s((kind, key) := None)"
| "written_store w c s = s"

text \<open>The store after a log, the newest call first.\<close>

primrec store_back :: "'e api \<Rightarrow> store \<Rightarrow> call list \<Rightarrow> store" where
  "store_back api s [] = s"
| "store_back api s (c # earlier) = written_store (api_write api (rev earlier) c) c (store_back api s earlier)"

definition store_at :: "'e api \<Rightarrow> store \<Rightarrow> bridge \<Rightarrow> store" where
  "store_at api s st = store_back api s (rev (st_log st))"

definition carries :: "strmap \<Rightarrow> applied \<Rightarrow> bool" where
  "carries selector x \<longleftrightarrow> list_all (\<lambda>(label, v). gm_get (om_labels (applied_meta x)) label = Some v) selector"

definition in_namespace :: "string option \<Rightarrow> nsname \<Rightarrow> bool" where
  "in_namespace namespace key \<longleftrightarrow> (case namespace of None \<Rightarrow> True | Some ns \<Rightarrow> nn_namespace key = ns)"

definition selects :: "store \<Rightarrow> string \<Rightarrow> string option \<Rightarrow> strmap \<Rightarrow> nsname \<Rightarrow> bool" where
  "selects s kind namespace selector key \<longleftrightarrow>
     (case s (kind, key) of None \<Rightarrow> False | Some x \<Rightarrow> in_namespace namespace key \<and> carries selector x)"

text \<open>
  The API server as documented: a list that is answered returns the objects in the store of that
  kind and namespace with the labels of the selector.
\<close>

definition lists_store :: "'e api \<Rightarrow> store \<Rightarrow> bool" where
  "lists_store api s \<longleftrightarrow>
     (\<forall>log kind namespace selector. case api_list api log kind namespace selector of
        Inl _ \<Rightarrow> True
      | Inr keys \<Rightarrow> set keys = {key. selects (store_back api s (rev log)) kind namespace selector key})"

lemma store_logged: "store_at api s (logged c st) = written_store (api_write api (st_log st) c) c (store_at api s st)"
  by (simp add: store_at_def)

lemma written_read [simp]:
  "written_store w (CallReads what) s = s" "written_store w (CallGet kind key) s = s" "written_store w (CallList kind ns sel) s = s"
  by (cases w; simp)+

subsection \<open>Calls that leave some kinds alone\<close>

definition spares :: "string list \<Rightarrow> call list \<Rightarrow> call \<Rightarrow> bool" where
  "spares kinds log c \<longleftrightarrow>
     (case c of CallApply x \<Rightarrow> fst (app_key x) \<notin> set kinds | CallDelete kind key \<Rightarrow> kind \<notin> set kinds | _ \<Rightarrow> True)"

interpretation spared: read_rule "spares kinds" for kinds
  by unfold_locales (simp_all add: spares_def)

lemma spares_store:
  assumes "extends (spares kinds) log log'" and "kind \<in> set kinds"
  shows "store_back api s (rev log') (kind, key) = store_back api s (rev log) (kind, key)"
  using assms(1)
proof (induction rule: extends.induct)
  case (extends_step log log' c)
  have "app_key x \<noteq> (kind, key)" if "c = CallApply x" for x
    using extends_step(2) assms(2) that by (auto simp: spares_def)
  then have "written_store (api_write api log' c) c (store_back api s (rev log')) (kind, key) = store_back api s (rev log') (kind, key)"
    using extends_step(2) assms(2) by (cases c; cases "api_write api log' c") (auto simp: spares_def)
  with extends_step(3) show ?case by simp
qed simp

lemma spared_store:
  assumes "logs (spares kinds) [] m" and "m st = (r, st')" and "kind \<in> set kinds"
  shows "store_at api s st' (kind, key) = store_at api s st (kind, key)"
  using assms spares_store unfolding logs_def store_at_def by (metis Nil_prefix snd_conv)

lemma spared_apply: "fst (app_key x) \<notin> set kinds \<Longrightarrow> logs (spares kinds) b (apply_object api x)"
  unfolding apply_object_def by (auto intro!: logs_intros simp: spares_def)

lemma spared_patch: "logs (spares kinds) b (patch_ingress api before after)"
  unfolding patch_ingress_def by (intro logs_and_then logs_perform logs_gets) (simp add: spares_def)

lemma spared_finalizer: "logs (spares kinds) b (ensure_finalizer api ing)" "logs (spares kinds) b (detach api ing)"
  unfolding ensure_finalizer_def detach_def by (simp_all add: spared_patch logs_and_then)

lemma spared_mirror: "logs (spares kinds) b (mirror_ingress_status api c ing desired)"
  unfolding mirror_ingress_status_def
  by (intro logs_and_then spared.logs_read) (auto split: option.split intro!: logs_perform simp: spares_def)

lemma quiet_store:
  assumes "\<And>kinds. logs (spares kinds) [] m" and "m st = (r, st')"
  shows "store_at api s st' = store_at api s st"
proof
  fix k
  show "store_at api s st' k = store_at api s st k"
    using spared_store [OF assms(1) assms(2), of "fst k" "[fst k]" api s "snd k"] by simp
qed

subsection \<open>What writes do to the store\<close>

lemma apply_store:
  "apply_object api x st = (Inr (), st') \<Longrightarrow> store_at api s st' = (store_at api s st)(app_key x \<mapsto> x)"
  by (auto simp: apply_object_def store_logged split: if_splits)

lemma apply_desired_store:
  "apply_desired api ing gs st = (Inr gs', st') \<Longrightarrow>
     store_at api s st' = fold (\<lambda>g s. s(gen_key g \<mapsto> AppGenerated g)) gs (store_at api s st)"
  by (induction gs arbitrary: st gs') (auto dest!: apply_store [where s = s])

lemma delete_store:
  "delete_object api kind key st = (Inr (), st') \<Longrightarrow> store_at api s st' = (store_at api s st)((kind, key) := None)"
  by (auto simp: delete_object_def perform_def store_logged split: written.splits)

lemma join_errors_Cons:
  "join_errors f (x # xs) st = (Inr (), st') \<longleftrightarrow> (\<exists>st1. f x st = (Inr (), st1) \<and> join_errors f xs st1 = (Inr (), st'))"
  by (auto simp: join_errors_def split: prod.splits sum.splits list.splits)

lemma join_errors_Nil: "join_errors f [] st = (Inr (), st') \<longleftrightarrow> st' = st"
  by (auto simp: join_errors_def)

definition without :: "(string \<times> nsname \<Rightarrow> bool) \<Rightarrow> store \<Rightarrow> store" where
  "without P s = (\<lambda>k. if P k then None else s k)"

lemma without_without: "without P (without Q s) = without (\<lambda>k. P k \<or> Q k) s"
  by (auto simp: without_def)

lemma delete_all_store:
  "join_errors (delete_object api kind) keys st = (Inr (), st') \<Longrightarrow>
     store_at api s st' = without (\<lambda>k. k \<in> Pair kind ` set keys) (store_at api s st)"
proof (induction keys arbitrary: st)
  case (Cons key keys)
  then obtain st1 where st1: "delete_object api kind key st = (Inr (), st1)"
    "join_errors (delete_object api kind) keys st1 = (Inr (), st')"
    unfolding join_errors_Cons by blast
  show ?case unfolding Cons.IH [OF st1(2)] delete_store [OF st1(1)] by (auto simp: without_def)
qed (simp add: join_errors_Nil without_def)

definition pruned_key :: "store \<Rightarrow> string \<Rightarrow> string option \<Rightarrow> strmap \<Rightarrow> (string \<times> nsname) list \<Rightarrow> string \<times> nsname \<Rightarrow> bool" where
  "pruned_key s kind namespace selector keep k \<longleftrightarrow>
     fst k = kind \<and> selects s kind namespace selector (snd k) \<and> k \<notin> set keep"

lemma prune_kind_store:
  assumes "lists_store api s" and "prune_kind api source keep kind st = (Inr (), st')"
  shows "store_at api s st' =
    without (pruned_key (store_at api s st) kind (Some (nn_namespace source)) (source_selector source) keep) (store_at api s st)"
proof -
  let ?ns = "Some (nn_namespace source)" and ?sel = "source_selector source"
  from assms(2) obtain keys where keys: "api_list api (st_log st) kind ?ns ?sel = Inr keys"
    "join_errors (delete_object api kind) (filter (\<lambda>key. (kind, key) \<notin> set keep) keys) (logged (CallList kind ?ns ?sel) st) = (Inr (), st')"
    by (auto simp: prune_kind_def delete_list_items_def)
  have "case api_list api (st_log st) kind ?ns ?sel of Inl _ \<Rightarrow> True
      | Inr keys \<Rightarrow> set keys = {key. selects (store_at api s st) kind ?ns ?sel key}"
    using assms(1) unfolding lists_store_def store_at_def by blast
  then have "set keys = {key. selects (store_at api s st) kind ?ns ?sel key}" unfolding keys(1) by simp
  then show ?thesis
    unfolding delete_all_store [OF keys(2)] store_logged written_read
    by (intro arg_cong2 [where f = without]) (auto simp: pruned_key_def fun_eq_iff)
qed

lemma prune_kinds_store:
  assumes "lists_store api s" and "join_errors (prune_kind api source keep) kinds st = (Inr (), st')" and "distinct kinds"
  shows "store_at api s st' = without (\<lambda>k. list_ex (\<lambda>kind.
    pruned_key (store_at api s st) kind (Some (nn_namespace source)) (source_selector source) keep k) kinds) (store_at api s st)"
  using assms(2,3)
proof (induction kinds arbitrary: st)
  case (Cons kind kinds)
  then obtain st1 where st1: "prune_kind api source keep kind st = (Inr (), st1)"
    "join_errors (prune_kind api source keep) kinds st1 = (Inr (), st')"
    unfolding join_errors_Cons by blast
  have same: "store_at api s st1 (other, key) = store_at api s st (other, key)" if "other \<noteq> kind" for other key
    unfolding prune_kind_store [OF assms(1) st1(1)] using that by (simp add: without_def pruned_key_def)
  show ?case
    unfolding Cons.IH [OF st1(2) distinct.simps(2) [THEN iffD1, OF Cons.prems(2), THEN conjunct2]]
  proof (rule ext, goal_cases)
    case (1 k)
    show ?case
    proof (cases "fst k = kind")
      case True
      then have "\<not> list_ex (\<lambda>other. pruned_key t other ns sel keep k) kinds" for ns sel t
        using Cons.prems(2) by (auto simp: list_ex_iff pruned_key_def)
      then show ?thesis
        unfolding prune_kind_store [OF assms(1) st1(1)] by (simp add: without_def)
    next
      case False
      then have "pruned_key (store_at api s st1) other ns sel keep k = pruned_key (store_at api s st) other ns sel keep k" for other ns sel
        using same by (cases k) (auto simp: pruned_key_def selects_def)
      then show ?thesis using False same by (cases k) (auto simp: without_def pruned_key_def)
    qed
  qed
qed (simp add: join_errors_Nil without_def)

lemma prune_source_store:
  assumes "lists_store api s" and "prune_source api source desired includeStatus st = (Inr (), st')"
  shows "store_at api s st' = without (\<lambda>k. list_ex (\<lambda>kind.
      pruned_key (store_at api s st) kind (Some (nn_namespace source)) (source_selector source) (map gen_key desired) k)
        (prunedKinds @ (if includeStatus then [''IngressTranslation''] else []))) (store_at api s st)"
proof (rule prune_kinds_store [OF assms(1)])
  show "join_errors (prune_kind api source (map gen_key desired)) (prunedKinds @ (if includeStatus then [''IngressTranslation''] else [])) st = (Inr (), st')"
    using assms(2) by (simp add: prune_source_def)
  show "distinct (prunedKinds @ (if includeStatus then [''IngressTranslation''] else []))" by (simp add: prunedKinds_def)
qed

subsection \<open>The store that is wanted\<close>

text \<open>The objects of a list in the store, the last of a key, in place of what a condition selects.\<close>

definition last_of :: "applied list \<Rightarrow> store" where
  "last_of xs = map_of (rev (map (\<lambda>x. (app_key x, x)) xs))"

definition installed :: "applied list \<Rightarrow> (string \<times> nsname \<Rightarrow> bool) \<Rightarrow> store \<Rightarrow> store" where
  "installed xs stale s = (\<lambda>k. case last_of xs k of Some x \<Rightarrow> Some x | None \<Rightarrow> if stale k then None else s k)"

definition owned :: "nsname \<Rightarrow> string list \<Rightarrow> store \<Rightarrow> string \<times> nsname \<Rightarrow> bool" where
  "owned source kinds s k \<longleftrightarrow>
     fst k \<in> set kinds \<and> selects s (fst k) (Some (nn_namespace source)) (source_selector source) (snd k)"

definition gateway_owned :: "config \<Rightarrow> store \<Rightarrow> string \<times> nsname \<Rightarrow> bool" where
  "gateway_owned c s k \<longleftrightarrow>
     fst k = ''ReferenceGrant'' \<and> selects s (fst k) None (gateway_selector c) (snd k) \<or>
     cf_sets_available c \<and> fst k = ''ListenerSet'' \<and> selects s (fst k) (Some (cf_namespace c)) (gateway_selector c) (snd k)"

definition gateway_installed :: "config \<Rightarrow> gateway_plan option \<Rightarrow> store \<Rightarrow> store" where
  "gateway_installed c gatewayPlan s =
     (case gatewayPlan of None \<Rightarrow> s | Some plan \<Rightarrow> installed (plan_applied plan) (gateway_owned c s) s)"

lemma last_of_simps [simp]: "last_of [] = Map.empty" "last_of (xs @ [x]) = (last_of xs)(app_key x \<mapsto> x)"
  by (auto simp: last_of_def)

lemma fold_last_of: "fold (\<lambda>x s. s(app_key x \<mapsto> x)) xs s = (\<lambda>k. case last_of xs k of Some x \<Rightarrow> Some x | None \<Rightarrow> s k)"
  by (induction xs rule: rev_induct) (auto simp: fun_eq_iff)

lemma last_of_None: "last_of xs k = None \<longleftrightarrow> k \<notin> set (map app_key xs)"
  by (auto simp: last_of_def map_of_eq_None_iff image_image)

text \<open>Applying and then deleting what is selected and not wanted installs.\<close>

lemma installed_without:
  assumes "\<And>k. last_of xs k = None \<Longrightarrow> P k \<longleftrightarrow> stale k" and "\<And>k. P k \<Longrightarrow> last_of xs k = None"
  shows "without P (fold (\<lambda>x s. s(app_key x \<mapsto> x)) xs s) = installed xs stale s"
  unfolding fold_last_of without_def installed_def using assms by (auto simp: fun_eq_iff split: option.split)

lemma selects_applied:
  "last_of xs (kind, key) = None \<Longrightarrow>
     selects (fold (\<lambda>x s. s(app_key x \<mapsto> x)) xs s) kind ns sel key = selects s kind ns sel key"
  unfolding fold_last_of selects_def by simp

lemma pruned_key_applied:
  assumes "last_of xs k = None"
  shows "pruned_key (fold (\<lambda>x s. s(app_key x \<mapsto> x)) xs s) kind ns sel keep k = pruned_key s kind ns sel keep k"
  unfolding pruned_key_def using selects_applied [of xs "fst k" "snd k"] assms by auto

subsection \<open>The managed Gateway\<close>

lemma for_each_apply_store:
  "for_each (apply_object api) xs st = (Inr (), st') \<Longrightarrow>
     store_at api s st' = fold (\<lambda>x s. s(app_key x \<mapsto> x)) xs (store_at api s st)"
  by (induction xs arbitrary: st) (auto dest!: apply_store [where s = s])

lemma delete_others_store:
  assumes "delete_others api kind keep keys st = (Inr (), st')"
  shows "store_at api s st' = without (\<lambda>k. fst k = kind \<and> snd k \<in> set keys \<and> snd k \<notin> set keep) (store_at api s st)"
proof -
  have "store_at api s st' = without (\<lambda>k. fst k = kind \<and> snd k \<in> set ks) (store_at api s st)"
    if "for_each (delete_object api kind) ks st = (Inr (), st')" for ks st
    using that
  proof (induction ks arbitrary: st)
    case (Cons key ks)
    then obtain st1 where st1: "delete_object api kind key st = (Inr (), st1)" "for_each (delete_object api kind) ks st1 = (Inr (), st')"
      by auto
    show ?case unfolding Cons.IH [OF st1(2)] delete_store [OF st1(1)] by (auto simp: without_def fun_eq_iff)
  qed (simp add: without_def)
  from this [OF assms [unfolded delete_others_def]] show ?thesis by (simp add: conj_assoc)
qed

definition stale_key :: "store \<Rightarrow> string \<Rightarrow> string option \<Rightarrow> strmap \<Rightarrow> nsname list \<Rightarrow> string \<times> nsname \<Rightarrow> bool" where
  "stale_key s kind namespace selector keep k \<longleftrightarrow> fst k = kind \<and> selects s kind namespace selector (snd k) \<and> snd k \<notin> set keep"

lemma stale_key_applied:
  assumes "last_of xs k = None"
  shows "stale_key (fold (\<lambda>x s. s(app_key x \<mapsto> x)) xs s) kind ns sel keep k = stale_key s kind ns sel keep k"
  unfolding stale_key_def using selects_applied [of xs "fst k" "snd k"] assms by auto

lemma prune_list_store:
  assumes "lists_store api s"
    and "and_then (ask (CallList kind ns sel) (\<lambda>log. api_list api log kind ns sel)) (delete_others api kind keep) st = (Inr (), st')"
  shows "store_at api s st' = without (stale_key (store_at api s st) kind ns sel keep) (store_at api s st)"
proof -
  from assms(2) obtain keys where keys: "api_list api (st_log st) kind ns sel = Inr keys"
    "delete_others api kind keep keys (logged (CallList kind ns sel) st) = (Inr (), st')" by auto
  have "case api_list api (st_log st) kind ns sel of Inl _ \<Rightarrow> True | Inr keys \<Rightarrow> set keys = {key. selects (store_at api s st) kind ns sel key}"
    using assms(1) unfolding lists_store_def store_at_def by blast
  then have "set keys = {key. selects (store_at api s st) kind ns sel key}" unfolding keys(1) by simp
  then show ?thesis
    unfolding delete_others_store [OF keys(2)] store_logged written_read
    by (intro arg_cong2 [where f = without]) (auto simp: stale_key_def fun_eq_iff)
qed

lemma prune_plan_store:
  assumes "lists_store api s" and "prune_plan api c plan st = (Inr (), st')"
  shows "store_at api s st' = without (\<lambda>k.
      cf_sets_available c \<and> stale_key (store_at api s st) ''ListenerSet'' (Some (cf_namespace c)) (gateway_selector c)
        (map (\<lambda>x. object_key (ls_meta x)) (gp_sets plan)) k \<or>
      stale_key (store_at api s st) ''ReferenceGrant'' None (gateway_selector c) (map (\<lambda>g. object_key (rg_meta g)) (gp_grants plan)) k)
    (store_at api s st)"
proof -
  let ?s = "store_at api s st" and ?sets = "map (\<lambda>x. object_key (ls_meta x)) (gp_sets plan)"
    and ?grants = "map (\<lambda>g. object_key (rg_meta g)) (gp_grants plan)"
  let ?stale = "stale_key ?s ''ListenerSet'' (Some (cf_namespace c)) (gateway_selector c) ?sets"
  from assms(2) obtain st1 where st1:
    "(if cf_sets_available c then prune_listener_sets api c ?sets else return' ()) st = (Inr (), st1)"
    "prune_grants api c ?grants st1 = (Inr (), st')"
    by (auto simp: prune_plan_def)
  have one: "store_at api s st1 = without (\<lambda>k. cf_sets_available c \<and> ?stale k) ?s"
  proof (cases "cf_sets_available c")
    case True
    then show ?thesis using prune_list_store [OF assms(1)] st1(1) by (simp add: prune_listener_sets_def)
  qed (use st1(1) in \<open>simp add: without_def\<close>)
  have "stale_key (store_at api s st1) ''ReferenceGrant'' None sel keep = stale_key ?s ''ReferenceGrant'' None sel keep" for sel keep
    unfolding one by (auto simp: stale_key_def selects_def without_def fun_eq_iff)
  then show ?thesis
    using prune_list_store [OF assms(1) st1(2) [unfolded prune_grants_def]] unfolding one without_without
    by (simp add: disj_commute)
qed

lemma execute_plan_store:
  assumes "lists_store api s" and "execute_plan api c ings previous options st = (Inr plan, st')"
  shows "store_at api s st' = gateway_installed c (Some plan) (store_at api s st)"
proof -
  let ?xs = "plan_applied plan" and ?s = "store_at api s st"
  from assms(2) obtain st1 st2 where *:
    "apply_plan api plan (st\<lparr>st_placements := Some (gp_placements plan)\<rparr>) = (Inr (), st1)"
    "prune_plan api c plan st1 = (Inr (), st2)" "st_log st' = st_log st2"
    by (auto simp: execute_plan_def Let_def commit_placements_def push_changed_def)
  have one: "store_at api s st1 = fold (\<lambda>x s. s(app_key x \<mapsto> x)) ?xs ?s"
    using *(1) by (auto simp: apply_plan_def plan_applied_def store_at_def dest!: for_each_apply_store [where s = s] apply_store [where s = s])
  have none: "last_of ?xs k = None \<longleftrightarrow>
      k \<notin> Pair ''ReferenceGrant'' ` set (map (\<lambda>g. object_key (rg_meta g)) (gp_grants plan)) \<and> k \<noteq> app_key (AppGateway (gp_gateway plan)) \<and>
      k \<notin> Pair ''ListenerSet'' ` set (map (\<lambda>x. object_key (ls_meta x)) (gp_sets plan))" for k
    by (auto simp: last_of_None plan_applied_def)
  have "store_at api s st' = store_at api s st2" using *(3) by (simp add: store_at_def)
  also have "\<dots> = installed ?xs (gateway_owned c ?s) ?s"
    unfolding prune_plan_store [OF assms(1) *(2)] one
  proof (rule installed_without, goal_cases)
    case (1 k)
    obtain kind key where k: "k = (kind, key)" by fastforce
    show ?case
      unfolding stale_key_applied [OF 1] using 1 [unfolded none k]
      unfolding k stale_key_def gateway_owned_def fst_conv snd_conv by (auto simp: image_iff)
  next
    case (2 k)
    then show ?case unfolding none stale_key_def by auto
  qed
  finally show ?thesis by (simp add: gateway_installed_def)
qed

lemma managed_plan_store:
  assumes "lists_store api s" and "managed_plan api c st = (Inr gatewayPlan, st')"
  shows "store_at api s st' = gateway_installed c gatewayPlan (store_at api s st)"
proof (cases "cf_manage c")
  case True
  with assms(2) obtain plan where plan: "reconcile_managed_gateway api c st = (Inr plan, st')" "gatewayPlan = Some plan"
    by (auto simp: managed_plan_def)
  then obtain items certs previous st1 st2 where *:
    "read_certificates api c (filter (active c) items) (logged (CallList ''Ingress'' None []) st) = (Inr certs, st1)"
    "known_placements api c st1 = (Inr previous, st2)"
    "execute_plan api c (filter (active c) items) previous (managed_options_of c certs previous) st2 = (Inr plan, st')"
    unfolding reconcile_managed_gateway_def by auto
  have "store_at api s st2 = store_at api s st"
    using quiet_store [OF spared.logs_read_certificates *(1), where api = api and s = s]
      quiet_store [OF spared.logs_known_placements *(2), where api = api and s = s]
    by (simp add: store_logged)
  then show ?thesis using execute_plan_store [OF assms(1) *(3)] plan(2) by simp
qed (use assms(2) in \<open>simp add: managed_plan_def gateway_installed_def\<close>)

subsection \<open>The generated objects\<close>

lemma translation_status_store:
  assumes "reconcile_translation_status api c ing plan desired st = (Inr ing', st')"
  shows "store_at api s st' = (store_at api s st)
    (app_key (AppTranslation (translation_meta ing) (ing_name ing)) \<mapsto> AppTranslation (translation_meta ing) (ing_name ing))"
proof -
  let ?x = "AppTranslation (translation_meta ing) (ing_name ing)"
  from assms obtain st1 status label st2 st3 where *: "apply_object api ?x st = (Inr (), st1)"
    "write_status api (ing_key ing) (api_status api (st_log st1) (ing_key ing)) status st2 = (Inr (), st3)" "st2 = logged (CallReads ''status'') st1"
    "patch_label api ing label st3 = (Inr ing', st')"
    by (auto simp: reconcile_translation_status_def Let_def)
  have label: "logs (spares kinds) [] (patch_label api ing label)" for kinds
    unfolding patch_label_def by (simp add: spared_patch)
  have status: "logs (spares kinds) [] (write_status api key before status)" for kinds key before
    unfolding write_status_def by (auto intro!: logs_perform simp: spares_def)
  show ?thesis
    using apply_store [OF *(1), of s] quiet_store [OF status *(2), where api = api and s = s]
      quiet_store [OF label *(4), where api = api and s = s] *(3) by (simp add: store_logged)
qed

lemma activate_store:
  assumes "lists_store api s" and "activate api c request ing plan st = (Inr (), st')"
  shows "store_at api s st' = (installed (map AppGenerated (objects_to_apply plan)) (owned request prunedKinds (store_at api s st)) (store_at api s st))
    (app_key (AppTranslation (translation_meta ing) (ing_name ing)) \<mapsto> AppTranslation (translation_meta ing) (ing_name ing))"
proof -
  let ?gs = "objects_to_apply plan" and ?s = "store_at api s st"
  from assms(2) obtain desired st1 st2 ing' st3 where *: "apply_desired api ing ?gs st = (Inr desired, st1)"
    "prune_source api request desired False st1 = (Inr (), st2)"
    "reconcile_translation_status api c ing plan desired st2 = (Inr ing', st3)"
    "(if cf_update_status c \<and> \<not> plan_fatal plan \<and> pl_delegated plan = []
      then mirror_ingress_status api c ing' desired else return' ()) st3 = (Inr (), st')"
    unfolding activate_eq after_objects_def after_pruning_def by auto
  have one: "store_at api s st1 = fold (\<lambda>x s. s(app_key x \<mapsto> x)) (map AppGenerated ?gs) ?s"
    using apply_desired_store [OF *(1), of s] by (simp add: fold_map comp_def)
  have none: "last_of (map AppGenerated ?gs) k = None \<longleftrightarrow> k \<notin> set (map gen_key desired)" for k
    unfolding last_of_None apply_desired_ok(1) [OF *(1)] by (simp add: comp_def)
  have "store_at api s st2 = installed (map AppGenerated ?gs) (owned request prunedKinds ?s) ?s"
    unfolding prune_source_store [OF assms(1) *(2)] one
  proof (rule installed_without, goal_cases)
    case (1 k)
    show ?case
      unfolding pruned_key_applied [OF 1] using 1 [unfolded none]
      unfolding owned_def pruned_key_def list_ex_iff by auto
  next
    case (2 k)
    then show ?case unfolding none pruned_key_def list_ex_iff by blast
  qed
  moreover have "logs (spares kinds) [] (if cf_update_status c \<and> \<not> plan_fatal plan \<and> pl_delegated plan = []
      then mirror_ingress_status api c ing' desired else return' ())" for kinds
    by (simp add: spared_mirror)
  from quiet_store [OF this *(4)] have "store_at api s st' = store_at api s st3" .
  ultimately show ?thesis using translation_status_store [OF *(3), of s] by simp
qed

subsection \<open>Requests\<close>

definition with_translation :: "nsname \<Rightarrow> ingress \<Rightarrow> store \<Rightarrow> store" where
  "with_translation key ing s = s((''IngressTranslation'', key) \<mapsto> AppTranslation (translation_meta ing) (ing_name ing))"

text \<open>What a request makes of the store: the managed Gateway, then what is generated for the Ingress.\<close>

definition gateway_refined :: "'e api \<Rightarrow> config \<Rightarrow> store \<Rightarrow> store \<Rightarrow> bool" where
  "gateway_refined api c s s' \<longleftrightarrow>
     (\<exists>gatewayPlan. gateway_planned api c gatewayPlan \<and> s' = gateway_installed c gatewayPlan s)"

definition released_refined :: "'e api \<Rightarrow> config \<Rightarrow> nsname \<Rightarrow> store \<Rightarrow> store \<Rightarrow> bool" where
  "released_refined api c request s s' \<longleftrightarrow>
     gateway_refined api c (installed [] (owned request (prunedKinds @ [''IngressTranslation'']) s) s) s'"

definition served_objects :: "config \<Rightarrow> gateway_plan option \<Rightarrow> nsname \<Rightarrow> ingress \<Rightarrow> plan \<Rightarrow> store \<Rightarrow> store" where
  "served_objects c gatewayPlan request ing plan s =
     (let planned = gateway_installed c gatewayPlan s;
          objects = map AppGenerated (objects_to_apply (with_gateway_issues gatewayPlan request plan))
      in with_translation (ing_key ing) ing (installed objects (owned request prunedKinds planned) planned))"

definition served_refined :: "'e api \<Rightarrow> config \<Rightarrow> nsname \<Rightarrow> ingress \<Rightarrow> call list \<Rightarrow> store \<Rightarrow> store \<Rightarrow> bool" where
  "served_refined api c request found log s s' \<longleftrightarrow>
     (\<exists>gatewayPlan ing plan. gateway_planned api c gatewayPlan \<and> finalized api log found ing \<and>
        ingress_planned api c gatewayPlan ing plan \<and> s' = served_objects c gatewayPlan request ing plan s)"

lemma gateway_refined_ok:
  assumes "lists_store api s" and "managed_plan api c st = (Inr gatewayPlan, st')"
  shows "gateway_refined api c (store_at api s st) (store_at api s st')"
  using managed_plan_store [OF assms] gateway_planned_ok [OF assms(2)] by (auto simp: gateway_refined_def)

lemma gateway_refined_reconcile:
  assumes "lists_store api s" and "cf_manage c" and "reconcile_managed_gateway api c st = (Inr plan, st')"
  shows "gateway_refined api c (store_at api s st) (store_at api s st')"
  by (rule gateway_refined_ok [OF assms(1), where gatewayPlan = "Some plan"]) (simp add: managed_plan_def assms(2,3))

lemma spared_release_last: "logs (spares kinds) [] (case found of None \<Rightarrow> return' () | Some ing \<Rightarrow> detach api ing)"
  by (simp add: spared_finalizer split: option.split)

lemma release_parts:
  assumes "release api c request found st = (Inr (), st')"
  obtains st1 gatewayPlan st2 where "prune_source api request [] True st = (Inr (), st1)"
    "managed_plan api c st1 = (Inr gatewayPlan, st2)"
    "(case found of None \<Rightarrow> return' () | Some ing \<Rightarrow> detach api ing) st2 = (Inr (), st')"
  using assms unfolding release_def by auto

lemma released_parts_store:
  assumes "lists_store api s" and "prune_source api request [] True st = (Inr (), st1)"
    and "managed_plan api c st1 = (Inr gatewayPlan, st2)"
    and "(case found of None \<Rightarrow> return' () | Some ing \<Rightarrow> detach api ing) st2 = (Inr (), st')"
  shows "store_at api s st' = gateway_installed c gatewayPlan
    (installed [] (owned request (prunedKinds @ [''IngressTranslation'']) (store_at api s st)) (store_at api s st))"
proof -
  have "store_at api s st1 = installed [] (owned request (prunedKinds @ [''IngressTranslation'']) (store_at api s st)) (store_at api s st)"
    unfolding prune_source_store [OF assms(1,2)]
    by (auto simp: without_def installed_def owned_def pruned_key_def list_ex_iff fun_eq_iff)
  then show ?thesis
    using managed_plan_store [OF assms(1,3)] quiet_store [OF spared_release_last assms(4), where api = api and s = s] by simp
qed

lemma released_store:
  assumes "lists_store api s" and "release api c request found st = (Inr (), st')"
  shows "released_refined api c request (store_at api s st) (store_at api s st')"
proof -
  from assms(2) obtain st1 gatewayPlan st2 where *: "prune_source api request [] True st = (Inr (), st1)"
    "managed_plan api c st1 = (Inr gatewayPlan, st2)"
    "(case found of None \<Rightarrow> return' () | Some ing \<Rightarrow> detach api ing) st2 = (Inr (), st')"
    by (rule release_parts)
  then show ?thesis
    using released_parts_store [OF assms(1) *] gateway_planned_ok [OF *(2)]
    by (auto simp: released_refined_def gateway_refined_def)
qed

lemma served_parts_store:
  assumes "lists_store api s" and "ensure_finalizer api found st = (Inr ing, st1)"
    and "managed_plan api c st1 = (Inr gatewayPlan, st2)"
    and "ingress_plan api c gatewayPlan ings ing (logged (CallList kind ns sel) st2) = (Inr plan, st4)"
    and "activate api c request ing (with_gateway_issues gatewayPlan request plan) st4 = (Inr (), st')"
  shows "store_at api s st' = served_objects c gatewayPlan request ing plan (store_at api s st)"
proof -
  have "store_at api s st1 = store_at api s st"
    by (rule quiet_store [OF spared_finalizer(1) assms(2)])
  moreover have "store_at api s st4 = store_at api s st2"
    using quiet_store [OF spared.logs_ingress_plan assms(4), where api = api and s = s] by (simp add: store_logged)
  ultimately show ?thesis
    using managed_plan_store [OF assms(1,3)] activate_store [OF assms(1,5)]
    by (simp add: served_objects_def Let_def with_translation_def translation_meta_def object_key_def ing_key_def)
qed

lemma served_store:
  assumes "lists_store api s" and "serve api c request found st = (Inr (), st')"
  shows "served_refined api c request found (st_log st') (store_at api s st) (store_at api s st')"
proof -
  from assms(2) obtain ing st1 gatewayPlan st2 items plan st4 where *:
    "ensure_finalizer api found st = (Inr ing, st1)" "managed_plan api c st1 = (Inr gatewayPlan, st2)"
    "api_ingresses api (st_log st2) (Some (ing_namespace ing)) = Inr items"
    "ingress_plan api c gatewayPlan (filter (active c) items) ing
      (logged (CallList ''Ingress'' (Some (ing_namespace ing)) []) st2) = (Inr plan, st4)"
    "activate api c request ing (with_gateway_issues gatewayPlan request plan) st4 = (Inr (), st')"
    by (rule serve_parts)
  show ?thesis
    using served_finalized [OF *] served_parts_store [OF assms(1) *(1,2,4,5)]
      gateway_planned_ok [OF *(2)] ingress_planned_ok [OF *(4,3)]
    unfolding served_refined_def by blast
qed

lemma reconcile_store:
  assumes "lists_store api s" and "reconcile api c request st = (Inr (), st')"
  shows "if request = certificateSyncKey \<or> request = globalReconcileKey
     then gateway_refined api c (store_at api s st) (store_at api s st')
     else case api_ingress api (st_log st) request of
       Inl _ \<Rightarrow> False
     | Inr None \<Rightarrow> released_refined api c request (store_at api s st) (store_at api s st')
     | Inr (Some ing) \<Rightarrow>
         if active c ing then served_refined api c request ing (st_log st') (store_at api s st) (store_at api s st')
         else released_refined api c request (store_at api s st) (store_at api s st')"
proof -
  have quiet: "store_at api s (st\<lparr>st_certs := certs\<rparr>) = store_at api s st" for certs by (simp add: store_at_def)
  consider (sync) "request = certificateSyncKey" "\<not> cf_manage c"
    | (renewal) "request = certificateSyncKey" "cf_manage c"
    | (global) "request \<noteq> certificateSyncKey" "request = globalReconcileKey"
    | (normal) "request \<noteq> certificateSyncKey" "request \<noteq> globalReconcileKey" by blast
  then show ?thesis
  proof cases
    case sync
    then have "managed_plan api c st = (Inr None, st')" using assms(2) by (simp add: reconcile_def managed_plan_def)
    then show ?thesis using gateway_refined_ok [OF assms(1)] sync(1) by simp
  next
    case renewal
    then obtain plan where "reconcile_managed_gateway api c (st\<lparr>st_certs := None\<rparr>) = (Inr plan, st')"
      using assms(2) by (auto simp: reconcile_def forget_certificates_def and_then_def split: prod.splits sum.splits)
    then show ?thesis using gateway_refined_reconcile [OF assms(1) renewal(2)] renewal(1) by (fastforce simp: quiet)
  next
    case global
    then obtain gatewayPlan where "managed_plan api c st = (Inr gatewayPlan, st')" using assms(2) by (auto simp: reconcile_def)
    then show ?thesis using gateway_refined_ok [OF assms(1)] global by simp
  next
    case normal
    let ?got = "logged (CallGet ''Ingress'' request) st"
    have same: "store_at api s ?got = store_at api s st" by (simp add: store_logged)
    from assms(2) normal obtain found where found: "api_ingress api (st_log st) request = Inr found"
      "(case found of None \<Rightarrow> release api c request None
        | Some ing \<Rightarrow> if ing_deleting ing \<or> \<not> selected c ing then release api c request (Some ing) else serve api c request ing) ?got = (Inr (), st')"
      by (auto simp: reconcile_def)
    show ?thesis
      using normal found released_store [OF assms(1), of c request _ ?got st'] served_store [OF assms(1), of c request _ ?got st']
      by (auto simp: same active_def split: option.splits if_splits)
  qed
qed

text \<open>
  C3. A request that is served without an error is an update of the cluster's objects and nothing
  else. The managed Gateway's objects become those of its plan: the Gateway, the ListenerSets and
  grants of the plan are installed and what else carries the Gateway's labels is gone. What is
  generated for the Ingress becomes the objects of its translation and its IngressTranslation: what
  else carries its labels is gone, and when the Ingress is going or not selected all of it is. Every
  other object is as it was before, whatever happened in between.
\<close>

theorem request_refines_store:
  assumes "lists_store api s"
  shows "case reconcile api c request st of
     (Inl _, _) \<Rightarrow> True
   | (Inr _, st') \<Rightarrow>
       (if request = certificateSyncKey \<or> request = globalReconcileKey
        then gateway_refined api c (store_at api s st) (store_at api s st')
        else case api_ingress api (st_log st) request of
          Inl _ \<Rightarrow> False
        | Inr None \<Rightarrow> released_refined api c request (store_at api s st) (store_at api s st')
        | Inr (Some ing) \<Rightarrow>
            if active c ing then served_refined api c request ing (st_log st') (store_at api s st) (store_at api s st')
            else released_refined api c request (store_at api s st) (store_at api s st'))"
proof -
  obtain r st' where run: "reconcile api c request st = (r, st')" by fastforce
  show ?thesis
    using reconcile_store [OF assms, of c request st st'] by (cases r) (simp_all add: run del: split_paired_All)
qed

subsection \<open>A server that keeps what it is told\<close>

text \<open>The keys a log wrote, and a server over any other that answers its lists from the store.\<close>

fun written_keys :: "call list \<Rightarrow> (string \<times> nsname) list" where
  "written_keys [] = []"
| "written_keys (CallApply x # log) = app_key x # written_keys log"
| "written_keys (_ # log) = written_keys log"

definition storing :: "(string \<times> nsname) list \<Rightarrow> store \<Rightarrow> 'e api \<Rightarrow> 'e api" where
  "storing keys s api = api\<lparr>api_list := \<lambda>log kind namespace selector.
     Inr (map snd (filter (\<lambda>k. fst k = kind \<and> selects (store_back api s (rev log)) kind namespace selector (snd k))
       (keys @ written_keys log)))\<rparr>"

lemma storing_back: "store_back (storing keys s api) t log = store_back api t log"
  by (induction log) (simp_all add: storing_def)

lemma written_keys_append: "written_keys (log @ log') = written_keys log @ written_keys log'"
  by (induction log rule: written_keys.induct) simp_all

lemma store_dom:
  assumes "dom s \<subseteq> set keys"
  shows "dom (store_back api s (rev log)) \<subseteq> set (keys @ written_keys log)"
proof (induction log rule: rev_induct)
  case (snoc c log)
  have "dom (written_store w c t) \<subseteq> dom t \<union> set (written_keys [c])" for w t
    by (cases c; cases w) (auto split: if_splits)
  with snoc show ?case by (fastforce simp: written_keys_append)
qed (use assms in simp)

lemma storing_lists:
  assumes "dom s \<subseteq> set keys"
  shows "lists_store (storing keys s api) s"
proof -
  have "snd ` {k \<in> set (keys @ written_keys log). fst k = kind \<and> selects (store_back api s (rev log)) kind ns sel (snd k)} =
      {key. selects (store_back api s (rev log)) kind ns sel key}" (is "?answered = ?selected") for log kind ns sel
  proof
    show "?selected \<subseteq> ?answered"
    proof
      fix key
      assume key: "key \<in> ?selected"
      then have "(kind, key) \<in> dom (store_back api s (rev log))" by (auto simp: selects_def split: option.splits)
      then have "(kind, key) \<in> set (keys @ written_keys log)" using store_dom [OF assms] by blast
      with key show "key \<in> ?answered" by (force intro: image_eqI [where x = "(kind, key)"])
    qed
  qed auto
  then have "set (map snd (filter (\<lambda>k. fst k = kind \<and> selects (store_back api s (rev log)) kind ns sel (snd k)) (keys @ written_keys log))) =
      {key. selects (store_back api s (rev log)) kind ns sel key}" for log kind ns sel
    unfolding set_map set_filter by simp
  then show ?thesis
    unfolding lists_store_def storing_back by (simp add: storing_def)
qed

lemma storing_reliable: "reliable api \<Longrightarrow> reliable (storing keys s api)"
  unfolding reliable_def storing_def by simp

text \<open>An Ingress that is gone: the HTTPRoute it left behind goes, that of somebody else stays.\<close>

definition kept_route :: "string \<Rightarrow> strmap \<Rightarrow> applied" where
  "kept_route name labels = AppGenerated (GenRoute
     \<lparr>hr_meta = \<lparr>om_name = name, om_namespace = ''app'', om_labels = labels\<rparr>, hr_parents = [], hr_hostnames = [], hr_rules = []\<rparr>)"

definition left_behind :: store where
  "left_behind = [(''HTTPRoute'', nsname ''app'' ''web-1'') \<mapsto> kept_route ''web-1'' (source_selector (nsname ''app'' ''web'')),
     (''HTTPRoute'', nsname ''app'' ''own'') \<mapsto> kept_route ''own'' []]"

definition gone_api :: "string api" where
  "gone_api = storing [(''HTTPRoute'', nsname ''app'' ''web-1''), (''HTTPRoute'', nsname ''app'' ''own'')] left_behind
     (sample_api\<lparr>api_ingress := \<lambda>_ _. Inr None\<rparr>)"

lemma gone_api_lists: "lists_store gone_api left_behind"
  unfolding gone_api_def by (rule storing_lists) (auto simp: left_behind_def)

lemma gone_api_reliable: "reliable gone_api"
  unfolding gone_api_def
  by (rule storing_reliable) (simp add: reliable_def sample_api_def sample_view_def readable_def adoptable_def accepted_write_def)

lemma gateway_installed_other:
  assumes "kind \<notin> {''ReferenceGrant'', ''Gateway'', ''ListenerSet''}"
  shows "gateway_installed c gatewayPlan s (kind, key) = s (kind, key)"
proof -
  have "last_of (plan_applied plan) (kind, key) = None" for plan
    unfolding last_of_None plan_applied_def using assms by auto
  then show ?thesis
    using assms by (simp add: gateway_installed_def installed_def gateway_owned_def split: option.split)
qed

theorem request_refines_store_witness:
  "case reconcile gone_api sample_config (nsname ''app'' ''web'') fresh_bridge of
     (Inl _, _) \<Rightarrow> False
   | (Inr _, st') \<Rightarrow>
       store_at gone_api left_behind st' (''HTTPRoute'', nsname ''app'' ''web-1'') = None \<and>
       store_at gone_api left_behind st' (''HTTPRoute'', nsname ''app'' ''own'') = Some (kept_route ''own'' [])"
proof -
  let ?request = "nsname ''app'' ''web''"
  obtain st' where run: "reconcile gone_api sample_config ?request fresh_bridge = (Inr (), st')"
    using reconcile_ok [OF gone_api_reliable, where c = sample_config and request = ?request and st = fresh_bridge] by (metis prod.collapse)
  have "api_ingress gone_api (st_log fresh_bridge) ?request = Inr None" by (simp add: gone_api_def storing_def)
  moreover have "?request \<noteq> certificateSyncKey" "?request \<noteq> globalReconcileKey"
    by (simp_all add: certificateSyncKey_def globalReconcileKey_def)
  moreover have "store_at gone_api left_behind fresh_bridge = left_behind" by (simp add: store_at_def fresh_bridge_def)
  ultimately have "released_refined gone_api sample_config ?request left_behind (store_at gone_api left_behind st')"
    using request_refines_store [OF gone_api_lists, where c = sample_config and request = ?request and st = fresh_bridge] by (simp add: run)
  then obtain gatewayPlan where end': "store_at gone_api left_behind st' = gateway_installed sample_config gatewayPlan
      (installed [] (owned ?request (prunedKinds @ [''IngressTranslation'']) left_behind) left_behind)"
    unfolding released_refined_def gateway_refined_def by blast
  have "owned ?request (prunedKinds @ [''IngressTranslation'']) left_behind (''HTTPRoute'', nsname ''app'' ''web-1'')"
    "\<not> owned ?request (prunedKinds @ [''IngressTranslation'']) left_behind (''HTTPRoute'', nsname ''app'' ''own'')"
    by code_simp+
  then have "store_at gone_api left_behind st' (''HTTPRoute'', nsname ''app'' ''web-1'') = None"
    "store_at gone_api left_behind st' (''HTTPRoute'', nsname ''app'' ''own'') = left_behind (''HTTPRoute'', nsname ''app'' ''own'')"
    unfolding end' by (simp_all add: gateway_installed_other installed_def)
  then show ?thesis by (simp add: run) (simp add: left_behind_def)
qed

end
