(* ===== verification/Memory.thy ===== *)
theory Memory
  imports ReconcileEffects
begin

text \<open>
  What an action does to the fields the reconciler keeps between requests. Only the planning of the
  managed Gateway writes them, so a condition on them that planning keeps is kept by every request.
\<close>

definition preserves :: "(bridge \<Rightarrow> bool) \<Rightarrow> ('a, 'e) action \<Rightarrow> bool" where
  "preserves Q m \<longleftrightarrow> (\<forall>st. Q st \<longrightarrow> Q (snd (m st)))"

named_theorems preserves_intros \<open>rules for what actions preserve\<close>

lemma preservesD: "preserves Q m \<Longrightarrow> Q st \<Longrightarrow> Q (snd (m st))"
  by (simp add: preserves_def)

lemma preserves_return [preserves_intros, simp]: "preserves Q (return' x)" "preserves Q (fail err)" "preserves Q (or_fail problem)"
  by (simp_all add: preserves_def return'_def fail_def or_fail_def split: option.split)

lemma preserves_gets [preserves_intros, simp]: "preserves Q (\<lambda>st. (Inr (f st), st))"
  by (simp add: preserves_def)

lemma preserves_and_then [preserves_intros]:
  "preserves Q m \<Longrightarrow> (\<And>x. preserves Q (f x)) \<Longrightarrow> preserves Q (and_then m f)"
  unfolding preserves_def and_then_def by (simp add: split_beta split: sum.split)

lemma preserves_state: "(\<And>st. preserves Q (m st)) \<Longrightarrow> preserves Q (\<lambda>st. m st st)"
  by (simp add: preserves_def)

lemma preserves_for_each [preserves_intros]: "(\<And>x. preserves Q (f x)) \<Longrightarrow> preserves Q (for_each f xs)"
  by (induction xs) (auto intro: preserves_and_then)

lemma preserves_join [preserves_intros]:
  assumes "\<And>x. preserves Q (f x)"
  shows "preserves Q (join_errors f xs)"
proof -
  have "Q (snd (collect_errors f xs st))" if "Q st" for st
    using that
  proof (induction xs arbitrary: st)
    case (Cons x xs)
    have "Q (snd (f x st))" using assms Cons.prems by (simp add: preserves_def)
    with Cons.IH [of "snd (f x st)"] show ?case by (auto split: prod.split sum.split)
  qed simp
  then show ?thesis unfolding preserves_def join_errors_def by (auto split: prod.split list.split) (metis snd_conv)+
qed

locale memory_rule =
  fixes Q :: "bridge \<Rightarrow> bool"
  assumes log_free: "Q (logged call st) \<longleftrightarrow> Q st"
begin

lemma preserves_ask [preserves_intros]: "preserves Q (ask call answer)"
  by (simp add: preserves_def ask_def log_free split: sum.split)

lemma preserves_perform [preserves_intros]: "preserves Q (perform api call)"
  by (simp add: preserves_def perform_def log_free split: written.split)

lemma preserves_delete [preserves_intros]: "preserves Q (delete_object api kind key)"
  by (simp add: preserves_def delete_object_def perform_def log_free split: written.split)

lemma preserves_apply [preserves_intros]: "preserves Q (apply_object api object)"
  unfolding apply_object_def by (auto intro!: preserves_intros)

lemma preserves_prune_source: "preserves Q (prune_source api source desired includeStatus)"
  unfolding prune_source_def prune_kind_def delete_list_items_def by (intro preserves_intros)

lemma preserves_prune_plan: "preserves Q (prune_plan api c plan)"
  unfolding prune_plan_def prune_listener_sets_def prune_grants_def delete_others_def by (auto intro!: preserves_intros)

lemma preserves_apply_plan: "preserves Q (apply_plan api plan)"
  unfolding apply_plan_def by (intro preserves_intros)

lemma preserves_apply_desired: "preserves Q (apply_desired api ing objects)"
proof (induction objects)
  case (Cons g gs)
  have "preserves Q (\<lambda>st. and_then (apply_desired api ing gs) (\<lambda>rest. return' (received api (st_log st) g # rest)) st)"
    by (rule preserves_state) (intro preserves_and_then Cons.IH preserves_return)
  then show ?case by (simp add: preserves_and_then preserves_apply)
qed simp

lemma preserves_patch: "preserves Q (patch_ingress api before after)"
  unfolding patch_ingress_def by (intro preserves_intros)

lemma preserves_finalizer: "preserves Q (ensure_finalizer api ing)" "preserves Q (detach api ing)"
  unfolding ensure_finalizer_def detach_def by (auto intro!: preserves_and_then preserves_patch)

lemma preserves_translation_status: "preserves Q (reconcile_translation_status api c ing plan desired)"
proof -
  have label: "preserves Q (patch_label api ing label)" for label
    unfolding patch_label_def by (auto intro!: preserves_patch)
  have status: "preserves Q (write_status api key before status)" for key before status
    unfolding write_status_def by (auto intro!: preserves_perform)
  have "preserves Q (\<lambda>st. and_then (ask (CallReads ''status'') (\<lambda>log. compute_translation_status c (api_view api log) ing plan desired
        (tr_conditions (api_status api (st_log st) (ing_key ing)))))
      (\<lambda>x. and_then (write_status api (ing_key ing) (api_status api (st_log st) (ing_key ing)) (fst x)) (\<lambda>_. patch_label api ing (snd x))) st)"
    by (rule preserves_state) (intro preserves_and_then preserves_ask status label)
  then show ?thesis
    unfolding reconcile_translation_status_def Let_def split_beta by (intro preserves_and_then preserves_return preserves_apply)
qed

lemma preserves_mirror: "preserves Q (mirror_ingress_status api c ing desired)"
  unfolding mirror_ingress_status_def
  by (intro preserves_and_then preserves_ask) (auto split: option.split intro!: preserves_perform)

lemma preserves_ingress_plan: "preserves Q (ingress_plan api c gatewayPlan ings ing)"
proof -
  have "preserves Q (translate_ingress api ing options)" for options
    by (simp add: preserves_def translate_ingress_def log_free)
  then show ?thesis unfolding ingress_plan_def Let_def by (simp add: preserves_and_then preserves_ask)
qed

lemma preserves_activate: "preserves Q (activate api c request ing plan)"
  unfolding activate_def
  by (intro preserves_and_then preserves_prune_source preserves_translation_status) (auto intro: preserves_apply_desired preserves_mirror)

end

locale memory_reconcile = memory_rule +
  fixes api :: "'e api" and c :: config
  assumes managed: "preserves Q (reconcile_managed_gateway api c)"
begin

lemma preserves_managed_plan: "preserves Q (managed_plan api c)"
  unfolding managed_plan_def by (simp add: preserves_and_then managed)

lemma preserves_reconcile:
  assumes "request \<noteq> certificateSyncKey \<or> (\<forall>st. Q st \<longrightarrow> Q (st\<lparr>st_certs := None\<rparr>))"
  shows "preserves Q (reconcile api c request)"
proof -
  have forget: "preserves Q (forget_certificates :: (unit, 'e) action)" if "request = certificateSyncKey"
    using assms that by (simp add: preserves_def forget_certificates_def)
  have release: "preserves Q (release api c request found)" for found
    unfolding release_def
    by (intro preserves_and_then preserves_prune_source preserves_managed_plan) (simp add: preserves_finalizer split: option.split)
  have serve: "preserves Q (serve api c request ing)" for ing
    unfolding serve_def
    by (intro preserves_and_then preserves_finalizer preserves_managed_plan preserves_ask preserves_ingress_plan preserves_activate)
  show ?thesis
    unfolding reconcile_def
    by (auto intro!: preserves_and_then preserves_ask preserves_managed_plan forget managed release serve split: option.split)
qed

end

end
