(* ===== verification/Determinism.thy ===== *)
theory Determinism
  imports Replanning
begin

text \<open>
  What the plan of the managed Gateway depends on: the names and TLS declarations of the Ingresses,
  in whatever order the API server lists them, and what a lookup finds among the certificates. Go
  maps and informer lists have no order, so the plan must not depend on one.
\<close>

definition decl_of :: "ingress \<Rightarrow> (string \<times> string) \<times> bool \<times> ingress_tls list \<times> ingress_rule list" where
  "decl_of ing = ((ing_namespace ing, ing_name ing), ing_deleting ing, ing_tls ing, ing_rules ing)"

definition same_declarations :: "ingress list \<Rightarrow> ingress list \<Rightarrow> bool" where
  "same_declarations ings ings' \<longleftrightarrow>
     distinct (map ing_key ings) \<and> mset (map decl_of ings) = mset (map decl_of ings')"

lemma ing_key_pair: "ing_key a = ing_key b \<longleftrightarrow> (ing_namespace a, ing_name a) = (ing_namespace b, ing_name b)"
  by (simp add: ing_key_def)

lemma same_declarations_refl: "distinct (map ing_key ings) \<Longrightarrow> same_declarations ings ings"
  by (simp add: same_declarations_def)

lemma same_declarations_sym: "same_declarations ings ings' \<Longrightarrow> same_declarations ings' ings"
proof -
  assume s: "same_declarations ings ings'"
  have keys: "mset (map ing_key xs) = image_mset (\<lambda>d. nsname (fst (fst d)) (snd (fst d))) (mset (map decl_of xs))" for xs
    by (simp add: decl_of_def ing_key_def [abs_def] comp_def multiset.map_comp)
  from s have "mset (map ing_key ings') = mset (map ing_key ings)" unfolding keys by (simp add: same_declarations_def)
  then have "distinct (map ing_key ings')" using s mset_eq_imp_distinct_iff unfolding same_declarations_def by blast
  with s show ?thesis by (simp add: same_declarations_def)
qed

lemma map_sort_key: "map f (sort_key (\<lambda>x. g (f x)) xs) = sort_key g (map f xs)"
proof -
  have "map f (insort_key (\<lambda>x. g (f x)) x ys) = insort_key g (f x) (map f ys)" for x ys
    by (induction ys) auto
  then show ?thesis by (induction xs) (simp_all add: sort_key_def)
qed

lemma sorted_declarations:
  assumes "same_declarations ings ings'"
  shows "map decl_of (sort_slice ing_less ings) = map decl_of (sort_slice ing_less ings')"
proof -
  have key: "(\<lambda>ing. (ing_namespace ing, ing_name ing)) = (\<lambda>ing. fst (decl_of ing))"
    by (simp add: decl_of_def fun_eq_iff)
  have inj: "inj_on fst (set (map decl_of ings))"
    using assms unfolding same_declarations_def distinct_map
    by (auto simp: inj_on_def decl_of_def ing_key_pair)
  have "sort_key fst (map decl_of ings) = sort_key fst (map decl_of ings')"
    using assms by (intro sort_key_inj_key_eq inj) (simp_all add: same_declarations_def)
  then show ?thesis unfolding ing_order.sort_slice_sort_key key map_sort_key .
qed

lemma collect_declared:
  assumes "map decl_of ings = map decl_of ings'"
  shows "fold collect_ingress ings st = fold collect_ingress ings' st"
proof -
  have hosts: "effective_tls_hosts a tls = effective_tls_hosts b tls" if "decl_of a = decl_of b" for a b tls
    using that by (simp add: decl_of_def effective_tls_hosts_def)
  have host: "collect_host a secret = collect_host b secret" if "decl_of a = decl_of b" for a b secret
    using that by (intro ext) (simp add: decl_of_def collect_host_def ing_key_def Let_def)
  have tls: "collect_tls a tls = collect_tls b tls" if "decl_of a = decl_of b" for a b tls
  proof -
    have key: "ing_key a = ing_key b" using that by (simp add: decl_of_def ing_key_def)
    show ?thesis by (intro ext) (unfold collect_tls_def hosts [OF that] host [OF that] key, rule refl)
  qed
  have one: "collect_ingress a st = collect_ingress b st" if "decl_of a = decl_of b" for a b st
    using that tls [OF that] by (simp add: decl_of_def collect_ingress_def cong: fold_cong)
  show ?thesis using assms
  proof (induction ings arbitrary: ings' st)
    case (Cons a ings)
    then obtain b bs where b: "ings' = b # bs" "decl_of a = decl_of b" "map decl_of ings = map decl_of bs"
      by (cases ings') simp_all
    then show ?case using one [OF b(2), of st] Cons.IH [OF b(3)] by simp
  qed simp
qed

lemma collect_same: "same_declarations ings ings' \<Longrightarrow> collect ings = collect ings'"
  unfolding collect_def by (intro collect_declared sorted_declarations)

subsection \<open>Certificates\<close>

text \<open>The same options with certificates that answer every lookup alike.\<close>

definition same_lookups :: "(nsname, certificate_info) gomap option \<Rightarrow> (nsname, certificate_info) gomap option \<Rightarrow> bool" where
  "same_lookups certs certs' \<longleftrightarrow> map_option gm_get certs = map_option gm_get certs'"

lemma certs_unread:
  "churn (options\<lparr>mo_certs := certs\<rparr>) = churn options"
  "canonical_secret (options\<lparr>mo_certs := certs\<rparr>) = canonical_secret options"
  "place_listeners ls (options\<lparr>mo_certs := certs\<rparr>) = place_listeners ls options"
  "emit (options\<lparr>mo_certs := certs\<rparr>) = emit options"
  "emit_sets (options\<lparr>mo_certs := certs\<rparr>) = emit_sets options"
  "managed_labels (options\<lparr>mo_certs := certs\<rparr>) = managed_labels options"
  "certificate_reference_grant (options\<lparr>mo_certs := certs\<rparr>) = certificate_reference_grant options"
  "grant_secrets (options\<lparr>mo_certs := certs\<rparr>) = grant_secrets options"
proof -
  have prev: "previous_listener (options\<lparr>mo_certs := certs\<rparr>) = previous_listener options"
    by (simp add: previous_listener_def fun_eq_iff)
  show "churn (options\<lparr>mo_certs := certs\<rparr>) = churn options"
    by (simp add: churn_def prev fun_eq_iff)
  show "canonical_secret (options\<lparr>mo_certs := certs\<rparr>) = canonical_secret options"
    by (simp add: canonical_secret_def fun_eq_iff)
  show "place_listeners ls (options\<lparr>mo_certs := certs\<rparr>) = place_listeners ls options"
    by (simp add: place_listeners_def)
  have labels: "managed_labels (options\<lparr>mo_certs := certs\<rparr>) = managed_labels options"
    by (simp add: managed_labels_def)
  then show "managed_labels (options\<lparr>mo_certs := certs\<rparr>) = managed_labels options" .
  have listener: "emit_listener (options\<lparr>mo_certs := certs\<rparr>) = emit_listener options"
    by (simp add: emit_listener_def listener_ref_of_def fun_eq_iff Let_def)
  show "emit (options\<lparr>mo_certs := certs\<rparr>) = emit options"
    by (intro ext) (unfold emit_def http_listener_def listener, simp)
  have set: "managed_listener_set (options\<lparr>mo_certs := certs\<rparr>) = managed_listener_set options"
    by (simp add: managed_listener_set_def labels fun_eq_iff)
  show "emit_sets (options\<lparr>mo_certs := certs\<rparr>) = emit_sets options"
    by (intro ext) (unfold emit_sets_def set, rule refl)
  show "certificate_reference_grant (options\<lparr>mo_certs := certs\<rparr>) = certificate_reference_grant options"
    by (simp add: certificate_reference_grant_def labels fun_eq_iff)
  show "grant_secrets (options\<lparr>mo_certs := certs\<rparr>) = grant_secrets options"
    by (simp add: grant_secrets_def fun_eq_iff)
qed

lemma project_same:
  assumes "same_lookups (mo_certs options) certs"
  shows "project_listeners (options\<lparr>mo_certs := certs\<rparr>) sources = project_listeners options sources"
proof -
  let ?o = "options\<lparr>mo_certs := certs\<rparr>"
  have get: "(case certs of None \<Rightarrow> None | Some cs \<Rightarrow> gm_get cs s) = (case mo_certs options of None \<Rightarrow> None | Some cs \<Rightarrow> gm_get cs s)" for s
    using assms by (cases certs; cases "mo_certs options") (auto simp: same_lookups_def fun_eq_iff)
  have same_class: "class_of ?o = class_of options"
    using get by (simp add: class_of_def fun_eq_iff)
  have target: "claim_target ?o = claim_target options"
    using assms by (cases certs; cases "mo_certs options") (auto simp: claim_target_def same_lookups_def fun_eq_iff)
  have classes: "wildcard_classes ?o = wildcard_classes options"
    by (simp add: wildcard_classes_def same_class fun_eq_iff)
  have score: "score_of ?o = score_of options"
    by (simp add: score_of_def certs_unread fun_eq_iff)
  have "winner_key ?o = winner_key options"
    by (intro ext) (unfold winner_key_def classes score, rule refl)
  then have resolved: "resolve_wildcard_group t claims ?o = resolve_wildcard_group t claims options" for t claims
    by (simp add: resolve_wildcard_group_def classes certs_unread Let_def)
  have "project_group ?o = project_group options"
    by (intro ext) (unfold project_group_def resolved, rule refl)
  moreover have "group_claims ?o = group_claims options"
    by (simp add: group_claims_def target fun_eq_iff)
  ultimately show ?thesis by (simp add: project_listeners_def)
qed

lemma plan_same:
  assumes "same_declarations ings ings'" and "same_lookups (mo_certs options) certs"
  shows "build_managed_gateway ings' (options\<lparr>mo_certs := certs\<rparr>) = build_managed_gateway ings options"
  unfolding build_managed_gateway_def collect_same [OF assms(1), symmetric] project_same [OF assms(2)]
  by (simp add: certs_unread)

text \<open>
  C29. The plan of the managed Gateway is deterministic: it does not depend on the order in which
  Ingresses are listed or certificates are stored, nor on anything of an Ingress but its name and its
  TLS declarations, so that neither the bridge's own patches of finalizers and labels nor a restart
  of an informer can move a listener.
\<close>

theorem plan_order_irrelevant:
  assumes "same_declarations ings ings'" and "same_lookups (mo_certs options) certs"
  shows "build_managed_gateway ings' (options\<lparr>mo_certs := certs\<rparr>) = build_managed_gateway ings options"
  using assms by (rule plan_same)

theorem plan_order_irrelevant_witness:
  "build_managed_gateway [sample_ingress ''web'' ''b.example'' ''tls'', (sample_ingress ''app'' ''a.example'' ''tls'')\<lparr>ing_finalizers := [''f'']\<rparr>]
      (sample_options\<lparr>mo_certs := None\<rparr>) =
   build_managed_gateway [sample_ingress ''app'' ''a.example'' ''tls'', sample_ingress ''web'' ''b.example'' ''tls''] sample_options"
proof (rule plan_order_irrelevant)
  show "same_declarations [sample_ingress ''app'' ''a.example'' ''tls'', sample_ingress ''web'' ''b.example'' ''tls'']
      [sample_ingress ''web'' ''b.example'' ''tls'', (sample_ingress ''app'' ''a.example'' ''tls'')\<lparr>ing_finalizers := [''f'']\<rparr>]"
    by (simp add: same_declarations_def decl_of_def ing_key_def sample_ingress_def)
  show "same_lookups (mo_certs sample_options) None" by (simp add: same_lookups_def sample_options_def)
qed

end
