(* ===== verification/Settled.thy ===== *)
theory Settled
  imports Memory Determinism
begin

text \<open>
  The reconciler as a state machine over the requests it serves: once a plan that serves every
  hostname is in place, it stays in place for as long as the Ingresses declare the same, whatever is
  requested, answered or refused in between.
\<close>

subsection \<open>Certificates that are remembered\<close>

lemma lookup_loop_cached:
  "(\<And>key. key \<in> set keys \<Longrightarrow> gm_has cache key) \<Longrightarrow> \<exists>m. lookup_loop read keys cache result = (Inr m, cache)"
proof (induction keys arbitrary: result)
  case (Cons key keys)
  then obtain entry where entry: "gm_get cache key = Some entry" by auto
  have "\<exists>m. lookup_loop read keys cache (case entry of None \<Rightarrow> result | Some info \<Rightarrow> gm_put key info result) = (Inr m, cache)"
    using Cons.prems by (intro Cons.IH) simp
  then show ?case by (simp add: entry)
qed simp

lemma referenced_declared:
  assumes "same_declarations ings ings'"
  shows "set (referenced_secrets_of ings') = set (referenced_secrets_of ings)"
proof -
  have one: "tls_secret_keys a = tls_secret_keys b" if "decl_of a = decl_of b" for a b
  proof -
    have "ing_namespace a = ing_namespace b" "ing_tls a = ing_tls b" using that by (simp_all add: decl_of_def)
    then show ?thesis unfolding tls_secret_keys_def by (simp only:)
  qed
  have "decl_of ` set ings = decl_of ` set ings'"
  proof -
    have "set_mset (mset (map decl_of ings)) = set_mset (mset (map decl_of ings'))"
      using assms by (simp only: same_declarations_def)
    then show ?thesis by simp
  qed
  moreover have "tls_secret_keys ` set xs \<subseteq> tls_secret_keys ` set ys" if "decl_of ` set xs = decl_of ` set ys" for xs ys
  proof (intro image_subsetI)
    fix x assume "x \<in> set xs"
    then have "decl_of x \<in> decl_of ` set ys" unfolding that [symmetric] by (rule imageI)
    then obtain y where y: "decl_of x = decl_of y" "y \<in> set ys" by (rule imageE)
    show "tls_secret_keys x \<in> tls_secret_keys ` set ys" unfolding one [OF y(1)] by (rule imageI) (rule y(2))
  qed
  ultimately have "tls_secret_keys ` set ings' = tls_secret_keys ` set ings" by (intro equalityI) simp_all
  moreover have "set (referenced_secrets_of xs) = \<Union> (set ` (tls_secret_keys ` set xs))" for xs
    by (simp add: referenced_secrets_of_def)
  ultimately show ?thesis by (simp only:)
qed

text \<open>The snapshot holds what the plan was made from, for every referenced Secret.\<close>

definition snapshot_of :: "config \<Rightarrow> ingress list \<Rightarrow> (nsname, certificate_info) gomap option \<Rightarrow> cert_cache option \<Rightarrow> bool" where
  "snapshot_of c ings certs snapshot \<longleftrightarrow>
     (if cf_collapse c
      then \<exists>m cache. certs = Some m \<and> snapshot = Some cache \<and>
        (\<forall>key. if key \<in> set (referenced_secrets_of ings) then gm_get cache key = Some (gm_get m key) else gm_get m key = None)
      else certs = None)"

lemma snapshot_made:
  assumes "certificate_infos J c get ings snapshot = (Inr certs, snapshot')"
  shows "snapshot_of c ings certs snapshot'"
proof (cases "cf_collapse c")
  case True
  let ?keys = "referenced_secrets_of ings" and ?cache = "case snapshot of None \<Rightarrow> [] | Some cache \<Rightarrow> cache"
  obtain m cache' where l: "lookup_loop (read_certificate J get) ?keys ?cache [] = (Inr m, cache')"
    and eq: "certs = Some m" "snapshot' = Some (filter (\<lambda>(key, _). key \<in> set ?keys) cache')"
    using assms True by (auto simp: certificate_infos_def referenced_secrets_of_def Let_def split: prod.splits sum.splits)
  have "if key \<in> set ?keys then gm_get (filter (\<lambda>(key, _). key \<in> set ?keys) cache') key = Some (gm_get m key) else gm_get m key = None" for key
    using lookup_loop_result [OF l, of key] by (cases "gm_get m key") (auto simp: get_filter or_previous_def split: option.splits)
  then show ?thesis using True eq by (simp add: snapshot_of_def)
next
  case False
  with assms show ?thesis by (simp add: certificate_infos_def snapshot_of_def)
qed

lemma snapshot_used:
  assumes "snapshot_of c ings certs snapshot" and "same_declarations ings ings'"
  shows "\<exists>certs' snapshot'. certificate_infos J c get ings' snapshot = (Inr certs', snapshot') \<and>
    same_lookups certs certs' \<and> snapshot_of c ings certs snapshot'"
proof (cases "cf_collapse c")
  case True
  let ?keys = "referenced_secrets_of ings'"
  note refs = referenced_declared [OF assms(2)]
  from assms(1) True obtain m cache where m: "certs = Some m" "snapshot = Some cache"
    "\<And>key. if key \<in> set ?keys then gm_get cache key = Some (gm_get m key) else gm_get m key = None"
    unfolding refs by (auto simp: snapshot_of_def)
  obtain m' where l: "lookup_loop (read_certificate J get) ?keys cache [] = (Inr m', cache)"
    using lookup_loop_cached [of ?keys cache "read_certificate J get" "[]"] m(3) by (metis option.distinct(1))
  have "gm_get m' key = gm_get m key" for key
    using lookup_loop_result [OF l, of key] m(3) [of key]
    by (cases "gm_get m key") (auto simp: entry_now_def or_previous_def split: option.splits if_splits)
  then have "same_lookups certs (Some m')" by (auto simp: same_lookups_def m(1) fun_eq_iff)
  moreover have "snapshot_of c ings certs (Some (filter (\<lambda>(key, _). key \<in> set ?keys) cache))"
    using True m refs by (auto simp: snapshot_of_def get_filter)
  moreover have "certificate_infos J c get ings' snapshot = (Inr (Some m'), Some (filter (\<lambda>(key, _). key \<in> set ?keys) cache))"
    using True l m(2) by (simp add: certificate_infos_def referenced_secrets_of_def Let_def)
  ultimately show ?thesis by blast
next
  case False
  with assms(1) show ?thesis by (simp add: certificate_infos_def snapshot_of_def same_lookups_def)
qed

subsection \<open>A plan that is in place\<close>

text \<open>The reconciler remembers the plan: its placements, and the certificates it was made from.\<close>

definition remembers :: "config \<Rightarrow> ingress list \<Rightarrow> gateway_plan \<Rightarrow> bridge \<Rightarrow> bool" where
  "remembers c ings plan st \<longleftrightarrow>
     (\<exists>certs previous. plan = build_managed_gateway ings (managed_options_of c certs previous) \<and>
        st_placements st = Some (gp_placements plan) \<and> snapshot_of c ings certs (st_certs st))"

lemma remembers_logged [simp]: "remembers c ings plan (logged call st) = remembers c ings plan st"
  by (simp add: remembers_def logged_def)

lemma certs_steady: "st_certs (snd (m st)) = st_certs st" if "preserves (\<lambda>st'. st_certs st' = st_certs st) m"
  using that by (simp add: preserves_def)

text \<open>The steps of a managed reconciliation that succeeds.\<close>

lemma managed_parts:
  assumes "reconcile_managed_gateway api c st = (Inr plan, st')"
  obtains items certs previous st1 st2 where
    "api_ingresses api (st_log st) None = Inr items"
    "read_certificates api c (filter (active c) items) (logged (CallList ''Ingress'' None []) st) = (Inr certs, st1)"
    "known_placements api c st1 = (Inr previous, st2)"
    "execute_plan api c (filter (active c) items) previous (managed_options_of c certs previous) st2 = (Inr plan, st')"
  using assms unfolding reconcile_managed_gateway_def by auto

interpretation certs_kept: memory_rule "\<lambda>st. st_certs st = certs" for certs
  by unfold_locales (simp add: logged_def)

lemma execute_plan_certs: "st_certs (snd (execute_plan api c ings previous options st)) = st_certs st"
proof -
  have "preserves (\<lambda>st'. st_certs st' = st_certs st) (execute_plan api c ings previous options)"
    unfolding execute_plan_def Let_def
    by (intro preserves_and_then certs_kept.preserves_apply_plan certs_kept.preserves_prune_plan preserves_return)
      (simp_all add: preserves_def commit_placements_def push_changed_def)
  then show ?thesis by (simp add: preserves_def)
qed

lemma known_placements_certs: "st_certs (snd (known_placements api c st)) = st_certs st"
  by (simp add: known_placements_def and_then_def ask_def commit_placements_def return'_def logged_def split: option.split sum.split)

lemma remembers_made:
  assumes "reconcile_managed_gateway api c st = (Inr plan, st')" and "api_ingresses api (st_log st) None = Inr items"
  shows "remembers c (filter (active c) items) plan st'"
proof -
  obtain certs previous st1 st2 where *:
    "read_certificates api c (filter (active c) items) (logged (CallList ''Ingress'' None []) st) = (Inr certs, st1)"
    "known_placements api c st1 = (Inr previous, st2)"
    "execute_plan api c (filter (active c) items) previous (managed_options_of c certs previous) st2 = (Inr plan, st')"
    using managed_parts [OF assms(1)] assms(2) by (metis sum.inject(2))
  from *(1) have "snapshot_of c (filter (active c) items) certs (st_certs st1)"
    using snapshot_made unfolding read_certificates_def by (auto split: prod.splits sum.splits)
  moreover have "st_certs st' = st_certs st1"
    using *(2,3) execute_plan_certs [of api c "filter (active c) items" previous "managed_options_of c certs previous" st2]
      known_placements_certs [of api c st1] by simp
  ultimately show ?thesis
    using execute_plan_ok [OF *(3)] by (auto simp: remembers_def)
qed

text \<open>Planning again, from declarations that are the same.\<close>

definition lists_same :: "config \<Rightarrow> ingress list \<Rightarrow> 'e api \<Rightarrow> bool" where
  "lists_same c ings api \<longleftrightarrow>
     (\<forall>log. case api_ingresses api log None of Inl _ \<Rightarrow> True | Inr items \<Rightarrow> same_declarations ings (filter (active c) items))"

lemma execute_again:
  assumes "remembers c ings plan st" and "all_served plan" and "same_declarations ings ings'"
    and "plan = build_managed_gateway ings (managed_options_of c certs previous)" and "same_lookups certs certs'"
  defines "options \<equiv> managed_options_of c certs' (gp_placements plan)"
  shows "st_placements (snd (execute_plan api c ings' (gp_placements plan) options st)) = Some (gp_placements plan) \<and>
    st_affected (snd (execute_plan api c ings' (gp_placements plan) options st)) = st_affected st \<and>
    (case fst (execute_plan api c ings' (gp_placements plan) options st) of Inl _ \<Rightarrow> True | Inr plan' \<Rightarrow> plan' = plan)"
proof -
  let ?o = "managed_options_of c certs previous"
  have options: "options = (again ?o plan)\<lparr>mo_certs := certs'\<rparr>"
    by (simp add: options_def managed_options_of_def again_def)
  have plan': "build_managed_gateway ings' options = plan"
    using plan_same [OF assms(3), of "again ?o plan" certs'] assms(5) replanned [of ings ?o] assms(2,4)
    unfolding options by simp
  have "listener_ref_for h ps (x\<lparr>mo_certs := cs\<rparr>) = listener_ref_for h ps x" for h ps x cs
  proof -
    have "listener_ref_of g i (x\<lparr>mo_certs := cs\<rparr>) = listener_ref_of g i x" for g i
      by (simp add: listener_ref_of_def Let_def)
    then show ?thesis unfolding listener_ref_for_def by (simp only:)
  qed
  then have "changed_tls_hosts (gp_placements plan) plan options = changed_tls_hosts (gp_placements plan) plan (again ?o plan)"
    by (simp add: changed_tls_hosts_def options)
  then have unchanged: "changed_tls_hosts (gp_placements plan) plan options = []"
    using replanned_unchanged [of ings ?o plan] replanned [of ings ?o] assms(2,4) by simp
  obtain r1 st1 where m1: "apply_plan api plan (st\<lparr>st_placements := Some (gp_placements plan)\<rparr>) = (r1, st1)" by fastforce
  obtain r2 st2 where m2: "prune_plan api c plan st1 = (r2, st2)" by fastforce
  show ?thesis
    unfolding execute_plan_def plan' Let_def unchanged
    using steady_placements [OF steady_apply_plan m1] steady_placements [OF steady_prune_plan m2]
    by (auto simp: commit_placements_def and_then_def m1 m2 push_changed_def return'_def enqueue_affected_ingresses_def [abs_def]
        option.map_ident split: sum.splits)
qed

lemma managed_again:
  assumes "remembers c ings plan st" and "all_served plan" and "lists_same c ings api"
  shows "remembers c ings plan (snd (reconcile_managed_gateway api c st)) \<and>
    st_affected (snd (reconcile_managed_gateway api c st)) = st_affected st \<and>
    (case fst (reconcile_managed_gateway api c st) of Inl _ \<Rightarrow> True | Inr plan' \<Rightarrow> plan' = plan)"
proof (cases "api_ingresses api (st_log st) None")
  case (Inl err)
  then show ?thesis using assms(1) by (simp add: reconcile_managed_gateway_def and_then_def ask_def) (simp add: logged_def)
next
  case (Inr items)
  let ?call = "CallList ''Ingress'' None []" and ?ings = "filter (active c) items"
  let ?st = "logged ?call st"
  have same: "same_declarations ings ?ings" using assms(3) Inr unfolding lists_same_def by (metis sum.case(2))
  from assms(1) obtain certs previous where
    plan: "plan = build_managed_gateway ings (managed_options_of c certs previous)" "st_placements st = Some (gp_placements plan)"
    and snap: "snapshot_of c ings certs (st_certs st)" by (auto simp: remembers_def)
  have "st_certs ?st = st_certs st" by (simp add: logged_def)
  with snapshot_used [OF snap same, of "api_codec api" "api_secret api (st_log ?st)"] obtain certs' snapshot' where
    infos: "certificate_infos (api_codec api) c (api_secret api (st_log ?st)) ?ings (st_certs ?st) = (Inr certs', snapshot')"
    and lookups: "same_lookups certs certs'" and snap': "snapshot_of c ings certs snapshot'"
    by metis
  let ?st1 = "(logged (CallReads ''Secret'') ?st)\<lparr>st_certs := snapshot'\<rparr>"
  have read: "read_certificates api c ?ings ?st = (Inr certs', ?st1)"
    unfolding read_certificates_def infos by simp
  have known: "known_placements api c ?st1 = (Inr (gp_placements plan), ?st1)"
    using plan(2) by (simp add: known_placements_def logged_def)
  have run: "reconcile_managed_gateway api c st =
      execute_plan api c ?ings (gp_placements plan) (managed_options_of c certs' (gp_placements plan)) ?st1"
    by (simp add: reconcile_managed_gateway_def and_then_def ask_def Inr read known)
  have "remembers c ings plan ?st1"
    using plan snap' by (auto simp: remembers_def logged_def)
  from execute_again [OF this assms(2) same plan(1) lookups, of api]
    execute_plan_certs [of api c ?ings "gp_placements plan" "managed_options_of c certs' (gp_placements plan)" ?st1]
  show ?thesis
    unfolding run using plan(1) snap' by (auto simp: remembers_def logged_def)
qed

end
