(* ===== verification/ReadyMeaning.thy ===== *)
theory ReadyMeaning
  imports Readiness
begin

text \<open>
  What readiness means: the specification of a ready translation over the reported conditions, and
  that the checks decide it.
\<close>

subsection \<open>Specification\<close>

text \<open>A condition holds when it is reported true at the generation of the object.\<close>

definition holds :: "conditions \<Rightarrow> string \<Rightarrow> int \<Rightarrow> bool" where
  "holds conditions conditionType generation \<longleftrightarrow>
     (case gm_get conditions conditionType of None \<Rightarrow> False | Some c \<Rightarrow> cn_status c = CondTrue \<and> cn_generation c = generation)"

definition gateway_programmed :: "config \<Rightarrow> 'e view \<Rightarrow> bool" where
  "gateway_programmed c view \<longleftrightarrow>
     (case vw_gateway view (nsname (cf_namespace c) (cf_name c)) of
        Inr (Some g) \<Rightarrow> holds (gs_conditions (ob_status g)) ''Programmed'' (ob_generation g)
      | _ \<Rightarrow> False)"

definition set_programmed :: "config \<Rightarrow> 'e view \<Rightarrow> string \<Rightarrow> bool" where
  "set_programmed c view name \<longleftrightarrow>
     (case vw_set view (nsname (cf_namespace c) name) of
        Inr (Some s) \<Rightarrow> holds (ob_status s) ''Accepted'' (ob_generation s) \<and> holds (ob_status s) ''Programmed'' (ob_generation s)
      | _ \<Rightarrow> False)"

text \<open>
  NGINX Gateway Fabric has accepted the object at its generation, under some parent, and has not
  rejected it at that generation under another.
\<close>

definition reported_at :: "int \<Rightarrow> string \<times> conditions \<Rightarrow> bool" where
  "reported_at generation r \<longleftrightarrow> fst r = nginxGatewayController \<and>
     (case gm_get (snd r) ''Accepted'' of None \<Rightarrow> False | Some c \<Rightarrow> cn_generation c = generation)"

definition accepted_by_ngf :: "int \<Rightarrow> (string \<times> conditions) list \<Rightarrow> bool" where
  "accepted_by_ngf generation reports \<longleftrightarrow>
     filter (reported_at generation) reports \<noteq> [] \<and>
     list_all (\<lambda>r. holds (snd r) ''Accepted'' generation) (filter (reported_at generation) reports)"

definition policy_accepted :: "'e view \<Rightarrow> string \<Rightarrow> object_meta \<Rightarrow> bool" where
  "policy_accepted view kind meta \<longleftrightarrow>
     (case vw_policy view kind (object_key meta) of
        Inr (Some p) \<Rightarrow> accepted_by_ngf (ob_generation p) (map (\<lambda>a. (pa_controller a, pa_conditions a)) (ob_status p))
      | _ \<Rightarrow> False)"

definition filter_accepted :: "'e view \<Rightarrow> string \<Rightarrow> object_meta \<Rightarrow> bool" where
  "filter_accepted view kind meta \<longleftrightarrow>
     (case vw_filter view kind (object_key meta) of
        Inr (Some p) \<Rightarrow> accepted_by_ngf (ob_generation p) (map (\<lambda>a. (ct_controller a, ct_conditions a)) (ob_status p))
      | _ \<Rightarrow> False)"

definition ancestor_accepts :: "int \<Rightarrow> parent_status \<Rightarrow> bool" where
  "ancestor_accepts generation a \<longleftrightarrow> holds (pa_conditions a) ''Accepted'' generation \<and>
     (gm_get (pa_conditions a) ''ResolvedRefs'' = None \<or> holds (pa_conditions a) ''ResolvedRefs'' generation)"

definition backend_tls_accepted :: "config \<Rightarrow> 'e view \<Rightarrow> object_meta \<Rightarrow> bool" where
  "backend_tls_accepted c view meta \<longleftrightarrow>
     (case vw_policy view ''BackendTLSPolicy'' (object_key meta) of
        Inr (Some p) \<Rightarrow> filter (own_ancestor c) (ob_status p) \<noteq> [] \<and>
          list_all (ancestor_accepts (ob_generation p)) (filter (own_ancestor c) (ob_status p))
      | _ \<Rightarrow> False)"

text \<open>Every parent the route asks for has reported it as accepted, with its references resolved.\<close>

definition parent_accepts :: "object_meta \<Rightarrow> parent_status list observed \<Rightarrow> parent_ref \<Rightarrow> bool" where
  "parent_accepts meta current want \<longleftrightarrow>
     (case matching_parent_status (ob_status current) want (om_namespace meta) of
        None \<Rightarrow> False
      | Some p \<Rightarrow> holds (pa_conditions p) ''Accepted'' (ob_generation current) \<and>
          holds (pa_conditions p) ''ResolvedRefs'' (ob_generation current))"

definition route_accepted :: "'e view \<Rightarrow> http_route \<Rightarrow> bool" where
  "route_accepted view route \<longleftrightarrow>
     (case vw_route view (object_key (hr_meta route)) of
        Inr (Some current) \<Rightarrow> ob_status current \<noteq> [] \<and> list_all (parent_accepts (hr_meta route) current) (hr_parents route)
      | _ \<Rightarrow> False)"

fun accepted :: "config \<Rightarrow> 'e view \<Rightarrow> generated \<Rightarrow> bool" where
  "accepted c view (GenClient p) = policy_accepted view ''ClientSettingsPolicy'' (cs_meta p)"
| "accepted c view (GenProxy p) = policy_accepted view ''ProxySettingsPolicy'' (ps_meta p)"
| "accepted c view (GenAuth f) = filter_accepted view ''AuthenticationFilter'' (af_meta f)"
| "accepted c view (GenSnippets f) = filter_accepted view ''SnippetsFilter'' (sf_meta f)"
| "accepted c view (GenBackendTLS p) = backend_tls_accepted c view (bt_meta p)"
| "accepted c view (GenRoute r) = route_accepted view r"

subsection \<open>The checks decide it\<close>

lemma gateway_check_None: "gateway_check c view = None \<longleftrightarrow> gateway_programmed c view"
  by (auto simp: gateway_check_def gateway_programmed_def holds_def split: sum.split option.split)

lemma set_check_None: "set_check c view name = None \<longleftrightarrow> set_programmed c view name"
  by (auto simp: set_check_def set_programmed_def set_condition_check_def holds_def split: sum.split option.split)

lemma accepted_loop_True:
  "fst (accepted_loop kind name generation found reports) = CondTrue \<longleftrightarrow>
     (found \<or> filter (reported_at generation) reports \<noteq> []) \<and>
     list_all (\<lambda>r. holds (snd r) ''Accepted'' generation) (filter (reported_at generation) reports)"
  by (induction kind name generation found reports rule: accepted_loop.induct)
    (auto simp: reported_at_def holds_def split: option.split)

lemma unless_ready_None: "unless_ready r = None \<longleftrightarrow> fst r = CondTrue"
  by (simp add: unless_ready_def split: prod.split)

lemma policy_check_None: "policy_check view kind meta = None \<longleftrightarrow> policy_accepted view kind meta"
  by (auto simp: policy_check_def policy_accepted_def unless_ready_None attached_policy_ready_def accepted_loop_True
      accepted_by_ngf_def split: sum.split option.split)

lemma filter_check_None: "filter_check view kind meta = None \<longleftrightarrow> filter_accepted view kind meta"
  by (auto simp: filter_check_def filter_accepted_def unless_ready_None extension_filter_ready_def accepted_loop_True
      accepted_by_ngf_def split: sum.split option.split)

lemma ancestor_check_None: "ancestor_check name (ob_generation p) (pa_conditions a) = None \<longleftrightarrow> ancestor_accepts (ob_generation p) a"
  by (auto simp: ancestor_check_def ancestor_accepts_def holds_def split: option.split)

lemma case_or_else_None: "(case a of None \<Rightarrow> b | Some r \<Rightarrow> Some r) = None \<longleftrightarrow> a = None \<and> b = None"
  by (cases a) simp_all

lemma if_Some_None: "(if b then Some x else y) = None \<longleftrightarrow> \<not> b \<and> y = None" "(if b then x else None) = None \<longleftrightarrow> (b \<longrightarrow> x = None)"
  "(if b then None else Some z) = None \<longleftrightarrow> b"
  by simp_all

lemma ancestors_check_None:
  "(case first_failure (\<lambda>a. if own_ancestor c a then ancestor_check name (ob_generation p) (pa_conditions a) else None) as of
      Some r \<Rightarrow> Some r
    | None \<Rightarrow> if list_ex (own_ancestor c) as then None else Some r') = None \<longleftrightarrow>
   filter (own_ancestor c) as \<noteq> [] \<and> list_all (ancestor_accepts (ob_generation p)) (filter (own_ancestor c) as)"
  unfolding case_or_else_None if_Some_None first_failure_None ancestor_check_None list_ex_iff list_all_iff filter_empty_conv
  by auto

lemma backend_tls_check_None: "backend_tls_check c view meta = None \<longleftrightarrow> backend_tls_accepted c view meta"
proof -
  have "backend_tls_check c view meta = None \<longleftrightarrow> backend_tls_accepted c view meta"
    if "vw_policy view ''BackendTLSPolicy'' (object_key meta) = Inr (Some p)" for p
  proof (cases "ob_status p = []")
    case True
    then show ?thesis using that by (simp add: backend_tls_check_def backend_tls_accepted_def)
  next
    case False
    then show ?thesis
      unfolding backend_tls_check_def backend_tls_accepted_def that sum.case option.case if_not_P [OF False] ancestors_check_None by simp
  qed
  then show ?thesis
    by (cases "vw_policy view ''BackendTLSPolicy'' (object_key meta)")
      (auto simp: backend_tls_check_def backend_tls_accepted_def split: option.split)
qed

lemma route_condition_check_None:
  "route_condition_check name generation conditions ty = None \<longleftrightarrow> holds conditions ty generation"
  by (auto simp: route_condition_check_def holds_def split: option.split)

lemma route_parent_check_None: "route_parent_check meta current want = None \<longleftrightarrow> parent_accepts meta current want"
  unfolding route_parent_check_def parent_accepts_def
  by (cases "matching_parent_status (ob_status current) want (om_namespace meta)")
    (simp_all add: route_condition_check_None del: first_failure.simps)

lemma route_check_None: "route_check view route = None \<longleftrightarrow> route_accepted view route"
  by (cases "vw_route view (object_key (hr_meta route))")
    (auto simp: route_check_def route_accepted_def route_parent_check_None list_all_iff simp del: not_None_eq split: option.split)

lemma object_check_None: "object_check c view g = None \<longleftrightarrow> accepted c view g"
  by (cases g) (simp_all add: policy_check_None filter_check_None backend_tls_check_None route_check_None)

text \<open>A check that fails never says ready.\<close>

lemma checks_not_ready:
  "gateway_check c view = Some r \<Longrightarrow> \<not> is_ready r"
  "set_check c view n = Some r \<Longrightarrow> \<not> is_ready r"
  "object_check c view g = Some r \<Longrightarrow> \<not> is_ready r"
proof -
  show "gateway_check c view = Some r \<Longrightarrow> \<not> is_ready r"
    by (auto simp: gateway_check_def is_ready_def split: sum.splits option.splits if_splits)
  show "set_check c view n = Some r \<Longrightarrow> \<not> is_ready r"
    by (auto simp: set_check_def set_condition_check_def is_ready_def split: sum.splits option.splits if_splits)
  have unless: "unless_ready x = Some r \<Longrightarrow> \<not> is_ready r" for x :: "cond_status \<times> string \<times> string" and r :: "'a ready"
    by (auto simp: unless_ready_def is_ready_def split: prod.splits if_splits)
  have policy: "policy_check view k m = Some r \<Longrightarrow> \<not> is_ready r" "filter_check view k m = Some r \<Longrightarrow> \<not> is_ready r" for k m
    using unless by (auto simp: policy_check_def filter_check_def pending_object_def is_ready_def split: sum.splits option.splits)
  have ancestor: "ancestor_check n g cs = Some r \<Longrightarrow> \<not> is_ready r" for n g cs and r :: "'a ready"
    by (auto simp: ancestor_check_def policy_pending_def policy_rejected_def is_ready_def split: option.splits if_splits)
  have tls: "\<not> is_ready r" if "backend_tls_check c view m = Some r" for m
    using that by (auto simp: backend_tls_check_def policy_pending_def is_ready_def
        dest!: first_failure_Some split: sum.splits option.splits if_splits) (auto simp: is_ready_def dest: ancestor)
  have condition: "route_condition_check n g cs ty = Some r \<Longrightarrow> \<not> is_ready r" for n g cs ty and r :: "'a ready"
    by (auto simp: route_condition_check_def route_pending_def is_ready_def split: option.splits if_splits)
  have parent: "\<not> is_ready r" if "route_parent_check m cur want = Some r" for m cur want and r :: "'a ready"
  proof (cases "matching_parent_status (ob_status cur) want (om_namespace m)")
    case None
    with that show ?thesis by (auto simp: route_parent_check_def route_pending_def is_ready_def)
  next
    case (Some p)
    with that have "first_failure (route_condition_check (om_name m) (ob_generation cur) (pa_conditions p)) [''Accepted'', ''ResolvedRefs''] = Some r"
      by (simp add: route_parent_check_def)
    from first_failure_Some [OF this] show ?thesis using condition by blast
  qed
  have route: "\<not> is_ready r" if "route_check view rt = Some r" for rt
  proof (cases "\<exists>cur. first_failure (route_parent_check (hr_meta rt) cur) (hr_parents rt) = Some r")
    case True
    then show ?thesis using first_failure_Some parent by metis
  next
    case False
    with that show ?thesis by (auto simp: route_check_def route_pending_def is_ready_def split: sum.splits option.splits if_splits)
  qed
  show "object_check c view g = Some r \<Longrightarrow> \<not> is_ready r"
    by (cases g) (auto dest: policy tls route)
qed

text \<open>
  C16. Ready is reported exactly when it is true now: the Gateway is programmed at its current
  generation, every ListenerSet the routes attach to is accepted and programmed at its own, and
  NGINX Gateway Fabric has accepted every generated object at its generation, a route under every
  parent it names. A stale, missing or unknown condition anywhere keeps the translation from Ready.
\<close>

theorem ready_iff_programmed:
  "is_ready (generated_ready c view desired) \<longleftrightarrow>
     gateway_programmed c view \<and>
     list_all (set_programmed c view) (desired_listener_sets desired (cf_namespace c)) \<and>
     list_all (accepted c view) desired"
proof (cases "gateway_check c view")
  case (Some r)
  then show ?thesis using checks_not_ready(1) [OF Some] gateway_check_None [of c view] by (simp add: generated_ready_def)
next
  case None
  note gateway = None
  show ?thesis
  proof (cases "first_failure (set_check c view) (desired_listener_sets desired (cf_namespace c))")
    case (Some r)
    from first_failure_Some [OF Some] obtain n where "n \<in> set (desired_listener_sets desired (cf_namespace c))" "set_check c view n = Some r"
      by blast
    with Some gateway checks_not_ready(2) [of c view n r] set_check_None [of c view n] show ?thesis
      by (auto simp: generated_ready_def list_all_iff)
  next
    case None
    note sets = None
    show ?thesis
    proof (cases "first_failure (object_check c view) desired")
      case (Some r)
      from first_failure_Some [OF Some] obtain g where "g \<in> set desired" "object_check c view g = Some r" by blast
      with Some gateway sets checks_not_ready(3) [of c view g r] object_check_None [of c view g] show ?thesis
        by (auto simp: generated_ready_def list_all_iff simp del: first_failure_None)
    next
      case None
      have "gateway_programmed c view" "list_all (set_programmed c view) (desired_listener_sets desired (cf_namespace c))"
        "list_all (accepted c view) desired"
        using gateway sets None gateway_check_None [of c view] set_check_None [of c view] object_check_None [of c view]
        by (simp_all add: list_all_iff)
      moreover have "is_ready (generated_ready c view desired)"
        using gateway sets None by (simp add: generated_ready_def is_ready_def del: first_failure_None)
      ultimately show ?thesis by blast
    qed
  qed
qed

subsection \<open>Delegated translations and the status\<close>

definition primary_ready :: "'e view \<Rightarrow> string \<Rightarrow> string \<Rightarrow> bool" where
  "primary_ready view namespace primary \<longleftrightarrow>
     (case (vw_ingress view (nsname namespace primary), vw_translation view (nsname namespace primary)) of
        (Inr (Some generation), Inr (Some t)) \<Rightarrow> tr_generation t = generation \<and> holds (tr_conditions t) ''Ready'' generation
      | _ \<Rightarrow> False)"

lemma delegated_ready_iff: "is_ready (delegated_ready view namespace primary) \<longleftrightarrow> primary_ready view namespace primary"
  by (auto simp: delegated_ready_def primary_ready_def is_ready_def delegated_pending_def holds_def
      split: sum.split option.split cond_status.split)

definition ready_now :: "config \<Rightarrow> 'e view \<Rightarrow> ingress \<Rightarrow> plan \<Rightarrow> generated list \<Rightarrow> bool" where
  "ready_now c view ing p desired \<longleftrightarrow> \<not> plan_fatal p \<and>
     (if pl_delegated p \<noteq> [] then primary_ready view (ing_namespace ing) (pl_delegated p)
      else is_ready (generated_ready c view desired))"

lemma label_ready [simp]: "translation_status_label_value status = TranslationStatusReady \<longleftrightarrow> status = CondTrue"
  by (simp add: translation_status_label_value_def TranslationStatusReady_def TranslationStatusPending_def TranslationStatusFailed_def)

lemma references_keys:
  "map (\<lambda>r. (rf_kind r, nsname (rf_namespace r) (rf_name r))) (generated_references desired) = map gen_key desired"
  by (simp add: generated_references_def comp_def gen_key_def [abs_def] object_key_def [abs_def])

lemma severity_text_error [simp]: "severity_text s = ''Error'' \<longleftrightarrow> s = SeverityError"
  by (cases s) simp_all

lemma status_issues_kept:
  "map (\<lambda>i. (ti_severity i = ''Error'', ti_field i, ti_message i)) (status_issues issues) =
     map (\<lambda>i. (issue_fatal i, is_field i, is_message i)) issues"
  by (simp add: status_issues_def comp_def issue_fatal_def [abs_def])

text \<open>
  C22. The status written for an Ingress is truthful: it is of the Ingress's generation, lists the
  generated objects and every issue of the plan, the fatal ones as errors, says Translated exactly when the plan is not
  fatal, and says Ready, in the condition and in the label alike, exactly when the routing is
  ready, for a canary when its primary's current translation is.
\<close>

theorem translation_status_truthful:
  "case compute_translation_status c view ing p desired before of
     Inl err \<Rightarrow> \<not> ready_now c view ing p desired
   | Inr (status, label) \<Rightarrow>
       tr_generation status = ing_generation ing \<and>
       map (\<lambda>r. (rf_kind r, nsname (rf_namespace r) (rf_name r))) (tr_resources status) = map gen_key desired \<and>
       map (\<lambda>i. (ti_severity i = ''Error'', ti_field i, ti_message i)) (tr_issues status) =
         map (\<lambda>i. (issue_fatal i, is_field i, is_message i)) (pl_issues p) \<and>
       holds (tr_conditions status) ''Translated'' (ing_generation ing) = (\<not> plan_fatal p) \<and>
       holds (tr_conditions status) ''Ready'' (ing_generation ing) = ready_now c view ing p desired \<and>
       (label = TranslationStatusReady) = ready_now c view ing p desired"
proof (cases "plan_fatal p")
  case True
  then show ?thesis
    by (simp add: gomap_simps compute_translation_status_def failed_conditions_def set_condition_def holds_def ready_now_def
        references_keys status_issues_kept TranslationStatusFailed_def TranslationStatusReady_def)
next
  case False
  let ?r = "if pl_delegated p \<noteq> [] then delegated_ready view (ing_namespace ing) (pl_delegated p) else generated_ready c view desired"
  obtain ready reason message err where r: "?r = (ready, reason, message, err)" using prod_cases4 by blast
  have now: "ready_now c view ing p desired \<longleftrightarrow> ready = CondTrue \<and> err = None"
    using False r delegated_ready_iff [of view "ing_namespace ing" "pl_delegated p"]
    by (simp add: ready_now_def is_ready_def split: if_splits)
  show ?thesis
    unfolding compute_translation_status_def r Let_def
    using False now by (cases err)
      (simp_all add: gomap_simps translated_conditions_def set_condition_def holds_def references_keys status_issues_kept)
qed

text \<open>
  The addresses of the Gateway are mirrored to an Ingress only when all of its routing is
  programmed, and they are never replaced by an empty list or written without a change.
\<close>

theorem mirrored_only_when_ready:
  "case mirrored_status c view later ing desired of
     Inr (Some addresses) \<Rightarrow> is_ready (generated_ready c view desired) \<and> addresses \<noteq> [] \<and> addresses \<noteq> ing_lb ing \<and>
       (case later of
          Inr (Some g) \<Rightarrow> holds (gs_conditions (ob_status g)) ''Programmed'' (ob_generation g) \<and>
            addresses = map ingress_address (gs_addresses (ob_status g))
        | _ \<Rightarrow> False)
   | _ \<Rightarrow> True"
  by (auto simp: mirrored_status_def is_ready_def holds_def Let_def split: sum.split option.split prod.split)

subsection \<open>Parent references\<close>

text \<open>A reference with the defaults of Gateway API filled in.\<close>

definition resolved_ref :: "string \<Rightarrow> parent_ref \<Rightarrow> string \<times> string \<times> string \<times> string" where
  "resolved_ref namespace r =
     (or_else group_name (pr_group r), or_else GatewayKind (pr_kind r), or_else namespace (pr_namespace r), pr_name r)"

text \<open>
  A reported parent is the desired one exactly when both name the same object once Gateway
  API's defaults are filled in, and the report is for the desired section when there is one; so a
  report never counts for another listener, kind or namespace.
\<close>

theorem same_parent_ref_iff:
  "same_parent_ref have' want namespace \<longleftrightarrow>
     resolved_ref namespace have' = resolved_ref namespace want \<and> (pr_section want = None \<or> pr_section have' = pr_section want)"
  by (auto simp: same_parent_ref_def resolved_ref_def split: option.split)

end
