(* ===== verification/Translated.thy ===== *)
theory Translated
  imports Translate
begin

text \<open>
  What a translated plan looks like: its routes one by one, the limit on their rules, the checks
  an activated plan has passed, and the uniqueness of its BackendTLSPolicies.
\<close>

subsection \<open>What policies leave alone\<close>

text \<open>
  A rule without its extension references: its matches, its other filters and its backends; and a
  route with such rules.
\<close>

type_synonym core_rule = "route_match list \<times> route_filter list \<times> backend_ref list"
type_synonym core_route = "object_meta \<times> parent_ref list \<times> string list \<times> core_rule list"

fun plain_filter :: "route_filter \<Rightarrow> bool" where
  "plain_filter (FilterExtensionRef r) = False"
| "plain_filter f = True"

definition rule_core :: "route_rule \<Rightarrow> core_rule" where
  "rule_core rule = (rr_matches rule, filter plain_filter (rr_filters rule), rr_backends rule)"

definition route_core :: "http_route \<Rightarrow> core_route" where
  "route_core route = (hr_meta route, hr_parents route, hr_hostnames route, map rule_core (hr_rules route))"

text \<open>The upstream hostname, where the annotation is a hostname the code accepts.\<close>

definition upstream_vhost :: "environment \<Rightarrow> ingress \<Rightarrow> string option" where
  "upstream_vhost env ing =
     (let host = trim_space (annotation ing annUpstreamVHost) in
      if host = [] \<or> nginxUnsafePattern host \<or> contains_any host blanks \<or> \<not> en_dns1123 env host then None else Some host)"

definition with_vhost :: "environment \<Rightarrow> ingress \<Rightarrow> core_rule \<Rightarrow> core_rule" where
  "with_vhost env ing = (\<lambda>(matches, filters, backends).
     (matches, (case upstream_vhost env ing of None \<Rightarrow> filters | Some host \<Rightarrow> set_rewrite_hostname host filters), backends))"

text \<open>One plan extends another when it keeps its routes and every issue of it.\<close>

definition keeps :: "plan \<Rightarrow> plan \<Rightarrow> bool" where
  "keeps p p' \<longleftrightarrow> pl_routes p' = pl_routes p \<and> set (pl_issues p) \<subseteq> set (pl_issues p')"

lemma keeps_refl [simp, intro]: "keeps p p"
  by (simp add: keeps_def)

lemma keeps_trans [trans]: "keeps p q \<Longrightarrow> keeps q r \<Longrightarrow> keeps p r"
  by (auto simp: keeps_def)

lemma keeps_fatal: "keeps p q \<Longrightarrow> plan_fatal p \<Longrightarrow> plan_fatal q"
  by (auto simp: keeps_def plan_fatal_def list_ex_iff)

lemma keeps_updates [simp]:
  "keeps p (q\<lparr>pl_client := x1\<rparr>) = keeps p q" "keeps p (q\<lparr>pl_proxy := x2\<rparr>) = keeps p q"
  "keeps p (q\<lparr>pl_auth := x3\<rparr>) = keeps p q" "keeps p (q\<lparr>pl_snippets := x4\<rparr>) = keeps p q"
  "keeps p (q\<lparr>pl_backend_tls := x5\<rparr>) = keeps p q"
  "keeps p q \<Longrightarrow> keeps p (add_issues is q)"
  by (auto simp: keeps_def add_issues_def)

lemma plain_set_rewrite:
  "filter plain_filter (set_rewrite_hostname h fs) = set_rewrite_hostname h (filter plain_filter fs)"
  by (induction fs) (auto split: route_filter.split)

lemma append_filter_core [simp]: "rule_core (append_filter_to_rule kind name r) = rule_core r"
  by (simp add: append_filter_to_rule_def rule_core_def)

lemma route_core_rules: "route_core (r\<lparr>hr_rules := rs\<rparr>) = route_core r \<longleftrightarrow> map rule_core rs = map rule_core (hr_rules r)"
  by (simp add: route_core_def)

lemma append_extension_core [simp]: "route_core (append_extension_filter kind name r) = route_core r"
  by (simp add: append_extension_filter_def route_core_rules comp_def)

definition vhost_route :: "environment \<Rightarrow> ingress \<Rightarrow> core_route \<Rightarrow> core_route" where
  "vhost_route env ing = (\<lambda>(m, ps, hs, rules). (m, ps, hs, map (with_vhost env ing) rules))"

lemma vhost_core: "route_core (fst (add_upstream_vhost_rewrite env ing route)) = vhost_route env ing (route_core route)"
proof (cases "upstream_vhost env ing")
  case None
  then have "fst (add_upstream_vhost_rewrite env ing route) = route"
    by (auto simp: add_upstream_vhost_rewrite_def upstream_vhost_def Let_def split: if_splits)
  moreover have "with_vhost env ing = (\<lambda>c. c)" using None by (auto simp: with_vhost_def)
  ultimately show ?thesis by (simp add: vhost_route_def split: prod.split)
next
  case (Some host)
  then have "fst (add_upstream_vhost_rewrite env ing route) =
      route\<lparr>hr_rules := map (\<lambda>rule. rule\<lparr>rr_filters := set_rewrite_hostname host (rr_filters rule)\<rparr>) (hr_rules route)\<rparr>"
    by (auto simp: add_upstream_vhost_rewrite_def upstream_vhost_def Let_def split: if_splits)
  then show ?thesis by (simp add: vhost_route_def route_core_def rule_core_def with_vhost_def Some plain_set_rewrite comp_def)
qed

lemma unverified_rules_core:
  "map rule_core (fst (unverified_rules ing route config labels idx rules)) = map rule_core rules"
proof (induction rules arbitrary: idx)
  case (Cons r rs)
  have "rule_core (fst (unverified_rule ing route config labels idx r)) = rule_core r"
    by (auto simp: unverified_rule_def Let_def split: list.split option.split)
  with Cons.IH [of "Suc idx"] show ?case by (auto split: prod.split)
qed simp

lemma fold_backend_tls_keeps: "keeps p (fold add_backend_tls_policy bs p)"
proof (induction bs arbitrary: p)
  case (Cons b bs)
  have "keeps p (add_backend_tls_policy b p)" by (simp add: add_backend_tls_policy_def)
  from keeps_trans [OF this Cons.IH] show ?case by simp
qed simp

lemma add_backend_tls_keeps:
  "route_core (fst (add_backend_tls ing b labels (route, p))) = route_core route"
  "keeps p (snd (add_backend_tls ing b labels (route, p)))"
proof -
  have "map rule_core rs = map rule_core (hr_rules route)"
    if "unverified_rules ing route c labels 0 (hr_rules route) = (rs, fs, ws)" for c rs fs ws
    by (metis fst_conv that unverified_rules_core)
  then show "route_core (fst (add_backend_tls ing b labels (route, p))) = route_core route"
    by (auto simp: add_backend_tls_def add_unverified_backend_tls_filters_def route_core_rules split: option.split prod.split)
  show "keeps p (snd (add_backend_tls ing b labels (route, p)))"
    using fold_backend_tls_keeps
    by (auto simp: add_backend_tls_def add_unverified_backend_tls_filters_def keeps_def split: option.split prod.split)
qed

lemma add_basic_auth_keeps:
  "route_core (fst (add_basic_auth ing labels (route, p))) = route_core route"
  "keeps p (snd (add_basic_auth ing labels (route, p)))"
  by (simp_all add: add_basic_auth_def split: option.split prod.split)

lemma add_snippets_keeps:
  "route_core (fst (add_snippets env ing gen hs raw labels (route, p))) = route_core route"
  "keeps p (snd (add_snippets env ing gen hs raw labels (route, p)))"
  by (simp_all add: add_snippets_def split: option.split prod.split)

lemma add_proxy_policy_keeps: "keeps p q \<Longrightarrow> keeps p (add_proxy_policy x q)"
  by (simp add: add_proxy_policy_def split: option.split)

lemma add_policies_keeps:
  "route_core (fst (add_policies env ing gen hs b options (route, p))) = vhost_route env ing (route_core route)"
  "keeps p (snd (add_policies env ing gen hs b options (route, p)))"
proof -
  obtain route1 i1 where 1: "add_upstream_vhost_rewrite env ing route = (route1, i1)" by fastforce
  obtain settings i2 where 2: "(if op_settings_as_snippets options then build_proxy_settings_snippets ing else ([], [])) = (settings, i2)"
    by fastforce
  obtain client i3 where 3: "body_size_settings ing (om_name (hr_meta route)) \<lparr>lo_group = group_name, lo_kind = ''HTTPRoute'',
      lo_name = om_name (hr_meta route)\<rparr> (source_labels ing) (op_settings_as_snippets options) = (client, i3)" by fastforce
  obtain proxy i4 where 4: "(if op_settings_as_snippets options then (None, [])
      else build_proxy_policy ing (om_name (hr_meta route)) \<lparr>lo_group = group_name, lo_kind = ''HTTPRoute'',
        lo_name = om_name (hr_meta route)\<rparr> (source_labels ing)) = (proxy, i4)" by fastforce
  define p1 where "p1 = add_proxy_policy proxy ((add_issues (i1 @ i2 @ i3 @ i4) p)\<lparr>pl_client := pl_client p @ client\<rparr>)"
  have eq: "add_policies env ing gen hs b options (route, p) =
      add_snippets env ing (gen @ settings) hs (op_allow_snippets options) (source_labels ing)
        (add_basic_auth ing (source_labels ing) (add_backend_tls ing b (source_labels ing) (route1, p1)))"
    by (simp only: add_policies_def Let_def prod.case 1 2 3 4 p1_def)
  have "keeps p p1" by (simp add: p1_def add_proxy_policy_keeps)
  moreover have "route_core route1 = vhost_route env ing (route_core route)" using vhost_core [of env ing route] 1 by simp
  ultimately show
    "route_core (fst (add_policies env ing gen hs b options (route, p))) = vhost_route env ing (route_core route)"
    "keeps p (snd (add_policies env ing gen hs b options (route, p)))"
    unfolding eq using add_backend_tls_keeps add_basic_auth_keeps add_snippets_keeps keeps_trans
    by (metis prod.collapse)+
qed

subsection \<open>The routes of a plan\<close>

text \<open>The rules of the primary paths, then those of the canaries' paths, without their filters.\<close>

definition primary_rules :: "environment \<Rightarrow> ingress \<Rightarrow> http_path list \<Rightarrow> core_rule list" where
  "primary_rules env ing paths = map (\<lambda>path. rule_core (fst (build_rule env ing path 0))) paths"

definition canary_rules :: "environment \<Rightarrow> canary_input list \<Rightarrow> core_rule list" where
  "canary_rules env canaries = concat (map (\<lambda>c. primary_rules env (ca_ingress c) (hi_paths (ca_input c))) canaries)"

definition application_core ::
  "environment \<Rightarrow> ingress \<Rightarrow> options \<Rightarrow> host_input \<Rightarrow> core_route"
where
  "application_core env ing options input =
     (\<lparr>om_name = route_name ing (hi_hostname input), om_namespace = ing_namespace ing, om_labels = source_labels ing\<rparr>,
      application_parent_refs (ing_namespace ing) input (op_gateway options)
        (hi_tls_hostname input \<noteq> [] \<and> \<not> ssl_redirect_enabled (ing_annotations ing)) (is_acme_http01_solver ing),
      if hi_hostname input = [] then [] else [hi_hostname input],
      map (with_vhost env ing) (primary_rules env ing (hi_paths input) @
        canary_rules env (gm_or [] (cs_by_host (collect_canaries ing options)) (hi_hostname input))))"

definition expected_routes ::
  "environment \<Rightarrow> ingress \<Rightarrow> options \<Rightarrow> host_input \<Rightarrow> (core_route) list"
where
  "expected_routes env ing options input =
     application_core env ing options input #
       (if needs_redirect ing input then [route_core (build_redirect_route ing (hi_hostname input) options)] else [])"

lemma build_rule_index: "fst (build_rule env ing path i) = fst (build_rule env ing path j)"
  by (simp add: build_rule_def Let_def split: prod.split)

lemma build_rules_core: "map rule_core (fst (build_rules env ing i paths)) = primary_rules env ing paths"
proof (induction paths arbitrary: i)
  case (Cons path paths)
  have "rule_core (fst (build_rule env ing path i)) = rule_core (fst (build_rule env ing path 0))"
    using build_rule_index [of env ing path i 0] by simp
  with Cons.IH [of "Suc i"] show ?case by (auto simp: primary_rules_def split: prod.split)
qed (simp add: primary_rules_def)

lemma build_route_core:
  "route_core (fst (build_route env ing input options)) =
     (case application_core env ing options input of (m, ps, hs, _) \<Rightarrow> (m, ps, hs, primary_rules env ing (hi_paths input)))"
  using build_rules_core [of env ing 0 "hi_paths input"]
  by (auto simp: build_route_def application_core_def route_core_def split: prod.split)

definition add_rules :: "core_rule list \<Rightarrow>
    core_route \<Rightarrow>
    core_route" where
  "add_rules rs = (\<lambda>(m, ps, hs, rules). (m, ps, hs, rules @ rs))"

lemma add_rules_add_rules: "add_rules bs (add_rules as c) = add_rules (as @ bs) c"
  by (simp add: add_rules_def split: prod.split)

lemma add_canary_path_core:
  "route_core (fst (fold (add_canary_path env ing) paths st)) = add_rules (primary_rules env ing paths) (route_core (fst st))"
proof (induction paths arbitrary: st)
  case Nil
  show ?case by (simp add: add_rules_def primary_rules_def split: prod.split)
next
  case (Cons path paths)
  have "route_core (fst (add_canary_path env ing path st)) =
      add_rules [rule_core (fst (build_rule env ing path 0))] (route_core (fst st))"
    using build_rule_index [of env ing path "length (hr_rules (fst st))" 0]
    by (auto simp: add_canary_path_def add_rules_def route_core_def split: prod.split)
  with Cons.IH [of "add_canary_path env ing path st"] show ?case
    by (simp add: add_rules_add_rules primary_rules_def)
qed

lemma add_canary_rules_core:
  "route_core (fst (add_canary_rules env canaries st)) = add_rules (canary_rules env canaries) (route_core (fst st))"
proof (induction canaries arbitrary: st)
  case Nil
  show ?case by (simp add: add_canary_rules_def canary_rules_def add_rules_def split: prod.split)
next
  case (Cons c cs)
  from Cons.IH [of "fold (add_canary_path env (ca_ingress c)) (hi_paths (ca_input c)) st"] show ?case
    by (simp add: add_canary_rules_def canary_rules_def add_canary_path_core add_rules_add_rules)
qed

text \<open>What a plan without fatal issues knows of a hostname: few enough rules, and a port for every backend.\<close>

definition backend_found :: "environment \<Rightarrow> ingress \<Rightarrow> http_path \<Rightarrow> bool" where
  "backend_found env ing path =
     (case backend_port env (ing_namespace ing) (be_service (hp_backend path)) of Inl _ \<Rightarrow> False | Inr _ \<Rightarrow> True)"

definition input_checked :: "environment \<Rightarrow> ingress \<Rightarrow> options \<Rightarrow> host_input \<Rightarrow> bool" where
  "input_checked env ing options input =
     (let canaries = gm_or [] (cs_by_host (collect_canaries ing options)) (hi_hostname input) in
      length (primary_rules env ing (hi_paths input) @ canary_rules env canaries) \<le> 16 \<and>
      list_all (backend_found env ing) (hi_paths input) \<and>
      list_all (\<lambda>c. list_all (backend_found env (ca_ingress c)) (hi_paths (ca_input c))) canaries)"

lemma build_rule_unresolved: "\<not> backend_found env ing path \<Longrightarrow> list_ex issue_fatal (fst (snd (build_rule env ing path i)))"
  by (auto simp: build_rule_def backend_found_def Let_def split: sum.splits prod.split)

lemma build_rules_unresolved:
  "\<not> list_all (backend_found env ing) paths \<Longrightarrow> list_ex issue_fatal (fst (snd (build_rules env ing i paths)))"
proof (induction paths arbitrary: i)
  case (Cons path paths)
  from Cons.prems consider "\<not> backend_found env ing path" | "\<not> list_all (backend_found env ing) paths" by auto
  then show ?case
    using build_rule_unresolved [of env ing path i] Cons.IH [of "Suc i"] by cases (auto split: prod.split)
qed simp

lemma add_canary_path_issues:
  "list_ex issue_fatal (snd st) \<or> \<not> list_all (backend_found env ing) paths \<Longrightarrow>
   list_ex issue_fatal (snd (fold (add_canary_path env ing) paths st))"
proof (induction paths arbitrary: st)
  case (Cons path paths)
  have "list_ex issue_fatal (snd (add_canary_path env ing path st)) \<or> \<not> list_all (backend_found env ing) paths"
    using Cons.prems build_rule_unresolved [of env ing path "length (hr_rules (fst st))"]
    by (auto simp: add_canary_path_def split: prod.split)
  from Cons.IH [OF this] show ?case by simp
qed simp

lemma add_canary_rules_unresolved:
  "list_ex issue_fatal (snd st) \<or> \<not> list_all (\<lambda>c. list_all (backend_found env (ca_ingress c)) (hi_paths (ca_input c))) cs \<Longrightarrow>
   list_ex issue_fatal (snd (add_canary_rules env cs st))"
proof (induction cs arbitrary: st)
  case (Cons c cs)
  have "list_ex issue_fatal (snd (fold (add_canary_path env (ca_ingress c)) (hi_paths (ca_input c)) st)) \<or>
      \<not> list_all (\<lambda>c. list_all (backend_found env (ca_ingress c)) (hi_paths (ca_input c))) cs"
    using Cons.prems add_canary_path_issues [of st env "ca_ingress c" "hi_paths (ca_input c)"] by auto
  from Cons.IH [OF this] show ?case by (simp add: add_canary_rules_def)
qed (simp add: add_canary_rules_def)

lemma translate_host_step:
  assumes "p' = translate_host env ing options (cs_by_host (collect_canaries ing options)) headers b input p"
  shows "map route_core (pl_routes p') = map route_core (pl_routes p) @ expected_routes env ing options input"
    "set (pl_issues p) \<subseteq> set (pl_issues p')"
    "plan_fatal p' \<or> input_checked env ing options input"
proof -
  let ?cs = "gm_or [] (cs_by_host (collect_canaries ing options)) (hi_hostname input)"
  obtain route0 i0 snippets where 0: "build_route env ing input options = (route0, i0, snippets)" using prod_cases3 by blast
  obtain route1 i1 where 1: "add_canary_rules env ?cs (route0, []) = (route1, i1)" by fastforce
  let ?p1 = "add_issues (i0 @ i1 @ too_many_rules route1) p"
  obtain route2 p2 where 2: "add_policies env ing snippets headers b options (route1, ?p1) = (route2, p2)" by fastforce
  have core1: "vhost_route env ing (route_core route1) = application_core env ing options input"
    using build_route_core [of env ing input options] add_canary_rules_core [of env ?cs "(route0, [])"] 0 1
    by (simp add: add_rules_def application_core_def vhost_route_def)
  have core2: "route_core route2 = application_core env ing options input" and k: "keeps ?p1 p2"
    using add_policies_keeps [where env = env and ing = ing and gen = snippets and hs = headers and b = b and options = options
        and route = route1 and p = ?p1] 2 core1 by auto
  have p': "p' = p2\<lparr>pl_routes := pl_routes p2 @ [route2] @
      (if needs_redirect ing input then [build_redirect_route ing (hi_hostname input) options] else [])\<rparr>"
    using assms 0 1 2 by (simp add: translate_host_def)
  show "map route_core (pl_routes p') = map route_core (pl_routes p) @ expected_routes env ing options input"
    using core2 k unfolding p' by (simp add: keeps_def expected_routes_def add_issues_def)
  show "set (pl_issues p) \<subseteq> set (pl_issues p')"
    using k unfolding p' by (auto simp: keeps_def add_issues_def)
  have "length (hr_rules route1) = length (primary_rules env ing (hi_paths input) @ canary_rules env ?cs)"
    using core1 by (simp add: route_core_def application_core_def vhost_route_def) (metis length_append length_map)
  moreover have "plan_fatal p'" if "list_ex issue_fatal (i0 @ i1 @ too_many_rules route1)"
  proof -
    have "plan_fatal ?p1" using that by simp
    then have "plan_fatal p2" using k keeps_fatal by blast
    then show ?thesis unfolding p' by (simp add: plan_fatal_def)
  qed
  moreover have "list_ex issue_fatal i0" if "\<not> list_all (backend_found env ing) (hi_paths input)"
    using 0 build_rules_unresolved [OF that, of 0] by (auto simp: build_route_def split: prod.splits)
  moreover have "list_ex issue_fatal i1" if "\<not> list_all (\<lambda>c. list_all (backend_found env (ca_ingress c)) (hi_paths (ca_input c))) ?cs"
    using 1 that add_canary_rules_unresolved [of "(route0, [])" env ?cs] by simp
  ultimately show "plan_fatal p' \<or> input_checked env ing options input"
    unfolding input_checked_def Let_def by (cases "16 < length (hr_rules route1)") (auto simp: too_many_rules_def)
qed

definition start_issues :: "environment \<Rightarrow> ingress \<Rightarrow> options \<Rightarrow> issue list" where
  "start_issues env ing options =
     check_unknown_annotations ing (op_strict options) @ validate_whitelist_source_range ing @ validate_canary ing @
     snd (protocol_settings env ing) @ http_version_issues ing @ snd (resolve_auth_proxy_headers env ing) @
     cs_issues (collect_canaries ing options) @ snd (collect_hosts ing options)"

lemma translate_eq:
  "translate env ing options =
     fold (translate_host env ing options (cs_by_host (collect_canaries ing options)) (fst (resolve_auth_proxy_headers env ing))
         (fst (protocol_settings env ing)))
       (fst (collect_hosts ing options)) (add_issues (start_issues env ing options) empty_plan)"
  by (simp add: translate_def Let_def start_issues_def split: prod.split)

lemma fold_translate_host:
  assumes "step = translate_host env ing options (cs_by_host (collect_canaries ing options)) headers b"
  shows "map route_core (pl_routes (fold step inputs p)) = map route_core (pl_routes p) @ concat (map (expected_routes env ing options) inputs)"
    "set (pl_issues p) \<subseteq> set (pl_issues (fold step inputs p))"
    "plan_fatal (fold step inputs p) \<or> (\<forall>input \<in> set inputs. input_checked env ing options input)"
proof (induction inputs arbitrary: p)
  case (Cons input inputs)
  have is_step: "step input p = translate_host env ing options (cs_by_host (collect_canaries ing options)) headers b input p" for p
    by (simp add: assms)
  note step = translate_host_step [OF is_step]
  { case 1
    show ?case unfolding fold_simps Cons.IH(1) step(1) by simp
  next
    case 2
    from subset_trans [OF step(2) Cons.IH(2)] show ?case by simp
  next
    case 3
    have "plan_fatal (fold step inputs (step input p))" if "plan_fatal (step input p)"
      using that Cons.IH(2) [of "step input p"] by (auto simp: plan_fatal_def list_ex_iff)
    with step(3) [of p] Cons.IH(3) [of "step input p"] show ?case by auto }
qed auto

lemma translate_routes:
  "map route_core (pl_routes (translate env ing options)) =
     concat (map (expected_routes env ing options) (fst (collect_hosts ing options)))"
  unfolding translate_eq fold_translate_host(1) [OF refl] by (simp add: add_issues_def empty_plan_def)

lemma translate_start_ok:
  "\<not> plan_fatal (translate env ing options) \<Longrightarrow> \<not> list_ex issue_fatal (start_issues env ing options)"
  using fold_translate_host(2) [OF refl, of "add_issues (start_issues env ing options) empty_plan" env ing options]
  unfolding translate_eq plan_fatal_def list_ex_iff by (simp add: add_issues_def) blast

lemma translate_checked:
  "\<not> plan_fatal (translate env ing options) \<Longrightarrow> input \<in> set (fst (collect_hosts ing options)) \<Longrightarrow> input_checked env ing options input"
  using fold_translate_host(3) [OF refl] unfolding translate_eq by blast

text \<open>
  C10. The routes of a plan, one by one and in order: for every hostname of the Ingress an
  application route, attached to the parents of the hostname, with one rule for each path of the
  Ingress followed by one for each path of the canaries of that hostname, each with the filters of
  its path and the upstream hostname of the Ingress; and after it a redirect route exactly when the
  hostname has TLS and redirects are not switched off. The policies added to a route change none of
  this: they only append references to their objects.
\<close>

theorem translated_routes:
  "map route_core (pl_routes (translate env ing options)) =
     concat (map (expected_routes env ing options) (fst (collect_hosts ing options)))"
  by (rule translate_routes)

text \<open>
  C31. A plan that may be activated never has a route with more than the 16 rules Gateway API
  allows, canary rules included.
\<close>

theorem activated_routes_bounded:
  "plan_fatal (translate env ing options) \<or>
   list_all (\<lambda>route. length (hr_rules route) \<le> 16) (pl_routes (translate env ing options))"
proof (cases "plan_fatal (translate env ing options)")
  case False
  let ?rules = "\<lambda>c :: core_route. snd (snd (snd c))"
  have small: "length (primary_rules env ing (hi_paths input) @
       canary_rules env (gm_or [] (cs_by_host (collect_canaries ing options)) (hi_hostname input))) \<le> 16"
    if "input \<in> set (fst (collect_hosts ing options))" for input
    using translate_checked [OF False that] by (simp add: input_checked_def Let_def)
  have "length (?rules c) \<le> 16" if "c \<in> set (map route_core (pl_routes (translate env ing options)))" for c
  proof -
    from that obtain input where "input \<in> set (fst (collect_hosts ing options))" "c \<in> set (expected_routes env ing options input)"
      unfolding translate_eq fold_translate_host(1) [OF refl] by (auto simp: add_issues_def empty_plan_def)
    with small [of input] show ?thesis
      by (auto simp: expected_routes_def application_core_def route_core_def build_redirect_route_def split: if_splits)
  qed
  then have "length (?rules (route_core route)) \<le> 16" if "route \<in> set (pl_routes (translate env ing options))" for route
    using that by simp
  then show ?thesis by (simp add: list_all_iff route_core_def)
qed simp


subsection \<open>Filters\<close>

fun is_cors :: "route_filter \<Rightarrow> bool" where
  "is_cors (FilterCORS c) = True"
| "is_cors f = False"

fun is_rewrite :: "route_filter \<Rightarrow> bool" where
  "is_rewrite (FilterURLRewrite u) = True"
| "is_rewrite f = False"

fun is_redirect :: "route_filter \<Rightarrow> bool" where
  "is_redirect (FilterRequestRedirect r) = True"
| "is_redirect f = False"

definition filters_unique :: "route_filter list \<Rightarrow> bool" where
  "filters_unique fs \<longleftrightarrow> length (filter is_cors fs) \<le> 1 \<and> length (filter is_rewrite fs) \<le> 1 \<and>
     (list_ex is_redirect fs = False \<or> list_ex is_rewrite fs = False)"

lemma set_rewrite_counts:
  "filter is_cors (set_rewrite_hostname h fs) = filter is_cors fs"
  "length (filter is_rewrite (set_rewrite_hostname h fs)) = max 1 (length (filter is_rewrite fs))"
  "list_ex is_redirect (set_rewrite_hostname h fs) = list_ex is_redirect fs"
  by (induction fs) (auto split: route_filter.split)

lemma build_rule_filters:
  assumes "fs = rr_filters (fst (build_rule env ing path i))"
  shows "length (filter is_cors fs) \<le> 1" "length (filter is_rewrite fs) \<le> 1" "\<not> list_ex is_redirect fs"
  unfolding assms
  by (simp_all add: build_rule_def Let_def rewrite_of_def split: prod.split option.split)

lemma extension_is_nothing [simp]:
  "is_cors f \<Longrightarrow> plain_filter f" "is_rewrite f \<Longrightarrow> plain_filter f" "is_redirect f \<Longrightarrow> plain_filter f"
  by (cases f; simp)+

lemma filters_plain:
  "filters_unique (filter plain_filter fs) = filters_unique fs"
proof -
  have "filter is_cors (filter plain_filter fs) = filter is_cors fs" "filter is_rewrite (filter plain_filter fs) = filter is_rewrite fs"
    by (auto intro!: filter_cong)
  moreover have "list_ex is_redirect (filter plain_filter fs) = list_ex is_redirect fs"
    "list_ex is_rewrite (filter plain_filter fs) = list_ex is_rewrite fs"
    by (auto simp: list_ex_iff)
  ultimately show ?thesis by (simp only: filters_unique_def)
qed

lemma with_vhost_unique:
  "filters_unique (fst (snd (with_vhost env ing (rule_core (fst (build_rule env' ing' path i))))))"
proof -
  let ?fs = "rr_filters (fst (build_rule env' ing' path i))"
  note f = build_rule_filters [OF refl, of env' ing' path i]
  have "filters_unique ?fs" using f by (simp add: filters_unique_def)
  then have "filters_unique (filter plain_filter ?fs)" by (simp only: filters_plain)
  moreover have "filters_unique (set_rewrite_hostname h (filter plain_filter ?fs))" for h
  proof -
    have "filters_unique (set_rewrite_hostname h ?fs)"
      using f set_rewrite_counts [of h ?fs] by (simp add: filters_unique_def)
    then have "filters_unique (filter plain_filter (set_rewrite_hostname h ?fs))" by (simp only: filters_plain)
    then show ?thesis by (simp only: plain_set_rewrite)
  qed
  ultimately show ?thesis by (simp add: with_vhost_def rule_core_def split: option.split)
qed

text \<open>
  C32. Gateway API accepts the filters of every rule of every route: at most one CORS filter, at
  most one URL rewrite, and never a rewrite beside a redirect, whatever combination of rewrite
  target, upstream hostname and CORS annotations the Ingress and its canaries carry.
\<close>

theorem rule_filters_unique:
  "list_all (\<lambda>route. list_all (\<lambda>rule. filters_unique (rr_filters rule)) (hr_rules route)) (pl_routes (translate env ing options))"
proof -
  let ?ok = "\<lambda>c :: core_route. list_all (\<lambda>r. filters_unique (fst (snd r))) (snd (snd (snd c)))"
  have "?ok c" if "c \<in> set (map route_core (pl_routes (translate env ing options)))" for c
  proof -
    from that obtain input where c: "c \<in> set (expected_routes env ing options input)"
      unfolding translate_eq fold_translate_host(1) [OF refl] by (auto simp: add_issues_def empty_plan_def)
    have "?ok (application_core env ing options input)"
      using with_vhost_unique
      by (auto simp: application_core_def list_all_iff primary_rules_def canary_rules_def comp_def)
    moreover have "?ok (route_core (build_redirect_route ing (hi_hostname input) options))"
      by (simp add: route_core_def rule_core_def build_redirect_route_def filters_unique_def)
    ultimately show ?thesis using c by (auto simp: expected_routes_def split: if_splits)
  qed
  then have "?ok (route_core route)" if "route \<in> set (pl_routes (translate env ing options))" for route
    using that by simp
  then show ?thesis by (simp add: list_all_iff route_core_def rule_core_def filters_plain)
qed

subsection \<open>Names\<close>

text \<open>
  A generated name depends only on its parts joined by dashes, so two Ingresses of a namespace may
  give their routes the same name: \<^verbatim>\<open>web\<close> with the host \<^verbatim>\<open>api-x.example\<close> and \<^verbatim>\<open>web-api\<close> with the host
  \<^verbatim>\<open>x.example\<close>.
\<close>

lemma route_names_collide:
  "route_name ((sample_ingress ''app'' ''api-x.example'' ''tls'')\<lparr>ing_name := ''web''\<rparr>) ''api-x.example'' =
   route_name ((sample_ingress ''app'' ''x.example'' ''tls'')\<lparr>ing_name := ''web-api''\<rparr>) ''x.example''"
  by (simp add: route_name_def host_name_part_def dns_label_def sample_ingress_def)

end
