(* ===== verification/Attachment.thy ===== *)
theory Attachment
  imports ReconcileEffects ReadyMeaning Translated
begin

text \<open>
  How the two plans fit together: the parents of the routes \<^verbatim>\<open>Translate\<close> generates, read with the
  defaults of Gateway API, against the listeners \<^verbatim>\<open>BuildManagedGateway\<close> emits.
\<close>

definition listener_covers :: "string list \<Rightarrow> listener \<Rightarrow> bool" where
  "listener_covers hostnames l \<longleftrightarrow>
     (case li_hostname l of None \<Rightarrow> True | Some g \<Rightarrow> list_all (\<lambda>h. h = g \<or> tls_match h g) hostnames)"

text \<open>The parent is a listener of the plan, and the listener takes the hostnames of the route.\<close>

definition attaches :: "config \<Rightarrow> gateway_plan \<Rightarrow> string \<Rightarrow> string list \<Rightarrow> parent_ref \<Rightarrow> bool" where
  "attaches c plan namespace hostnames r \<longleftrightarrow>
     list_ex (\<lambda>(kind, name, l). resolved_ref namespace r = (group_name, kind, cf_namespace c, name) \<and>
        pr_section r = (if li_name l = [] then None else Some (li_name l)) \<and> listener_covers hostnames l) (plan_listeners plan)"

definition route_attaches :: "config \<Rightarrow> gateway_plan \<Rightarrow> core_route \<Rightarrow> bool" where
  "route_attaches c plan = (\<lambda>(meta, parents, hostnames, rules). list_all (attaches c plan (om_namespace meta) hostnames) parents)"

lemma tls_match_up:
  assumes "x = h \<or> tls_match x h" and "g = h \<or> one_label_up h = Some g"
  shows "x = g \<or> tls_match x g"
  using assms(2)
proof
  assume "one_label_up h = Some g"
  then obtain l r where h: "h = l @ CHR ''.'' # r" "l \<noteq> []" "CHR ''.'' \<notin> set l" and g: "g = ''*.'' @ r"
    by (auto simp: one_label_up_Some)
  show ?thesis
  proof (cases "x = h")
    case True
    with h g show ?thesis unfolding tls_match_iff by blast
  next
    case False
    with assms(1) obtain l' r' where x: "h = ''*.'' @ r'" "x = l' @ CHR ''.'' # r'" "l' \<noteq> []" unfolding tls_match_iff by blast
    have "l = ''*'' \<and> r = r'"
      using h x(1) by (cases l) (auto simp: append_eq_Cons_conv Cons_eq_append_conv)
    with x g show ?thesis unfolding tls_match_iff by blast
  qed
qed (use assms(1) in simp)

subsection \<open>Parents\<close>

lemma parent_ref_resolved:
  assumes "cf_namespace c \<noteq> []" and "go_namespace options = cf_namespace c" and "go_name options = cf_name c"
  shows "resolved_ref namespace (parent_ref_to namespace tls options) = (group_name, GatewayKind, cf_namespace c, cf_name c)"
    "pr_section (parent_ref_to namespace tls options) =
       (let s = if tls then go_https_section options else go_http_section options in if s = [] then None else Some s)"
    "resolved_ref namespace (listener_set_parent_ref namespace l options) = (group_name, ListenerSetKind, cf_namespace c, lr_name l)"
    "pr_section (listener_set_parent_ref namespace l options) = (if lr_section l = [] then None else Some (lr_section l))"
  using assms by (auto simp: resolved_ref_def parent_ref_to_def listener_set_parent_ref_def or_else_def Let_def)

lemma http_parent_attaches:
  assumes "cf_namespace c \<noteq> []" and "go_namespace options = cf_namespace c" and "go_name options = cf_name c"
    and "go_http_section options = cf_http_section c"
  shows "attaches c (build_managed_gateway ings (managed_options_of c certs ps)) namespace hostnames (parent_ref_to namespace False options)"
proof -
  let ?plan = "build_managed_gateway ings (managed_options_of c certs ps)"
  have "(GatewayKind, cf_name c, http_listener (managed_options_of c certs ps)) \<in> set (plan_listeners ?plan)"
    unfolding plan_listeners_def plan_fields mg.emit_listeners by simp
  moreover have "li_name (http_listener (managed_options_of c certs ps)) = cf_http_section c" "li_hostname (http_listener (managed_options_of c certs ps)) = None"
    by (simp_all add: http_listener_def managed_options_of_def)
  ultimately show ?thesis
    unfolding attaches_def list_ex_iff using parent_ref_resolved [OF assms(1-3)] assms(4)
    by (intro bexI [of _ "(GatewayKind, cf_name c, http_listener (managed_options_of c certs ps))"])
      (simp_all add: listener_covers_def Let_def)
qed

lemma tls_parent_attaches:
  assumes "cf_namespace c \<noteq> []" and "go_namespace options = cf_namespace c" and "go_name options = cf_name c"
    and "gm_get (gp_tls_sections (build_managed_gateway ings (managed_options_of c certs ps))) (hi_tls_hostname input) = Some (hi_tls_listener input)"
    and "hi_tls_hostname input \<noteq> []"
    and "hi_hostname input = hi_tls_hostname input \<or> tls_match (hi_hostname input) (hi_tls_hostname input)"
  shows "attaches c (build_managed_gateway ings (managed_options_of c certs ps)) namespace
    (if hi_hostname input = [] then [] else [hi_hostname input])
    (hd (application_parent_refs namespace input options attachHTTP False))"
proof -
  let ?o = "managed_options_of c certs ps"
  let ?plan = "build_managed_gateway ings ?o" and ?ref = "hi_tls_listener input"
  from section_listener [OF assms(4)] obtain l g where l: "(lr_kind ?ref, lr_name ?ref, l) \<in> set (tls_listeners ?plan)"
    "li_name l = lr_section ?ref" "li_hostname l = Some g" "g = hi_tls_hostname input \<or> one_label_up (hi_tls_hostname input) = Some g" by blast
  from assms(4) obtain h where "?ref = listener_ref_of h (placed_at (placed_of ings ?o) h) ?o" unfolding plan_sections by blast
  then have ref: "lr_section ?ref \<noteq> []" "lr_kind ?ref = ListenerSetKind \<or> lr_kind ?ref = GatewayKind \<and> lr_name ?ref = cf_name c"
    using dns_label_ok by (auto simp: listener_ref_of_def Let_def is_dns_label_def)
  have member: "(lr_kind ?ref, lr_name ?ref, l) \<in> set (plan_listeners ?plan)" using l(1) by (simp add: tls_listeners_def)
  have covers: "listener_covers (if hi_hostname input = [] then [] else [hi_hostname input]) l"
    using tls_match_up [OF assms(6) l(4)] l(3) by (simp add: listener_covers_def)
  have kinds: "GatewayKind \<noteq> ListenerSetKind" by (simp add: GatewayKind_def ListenerSetKind_def)
  show ?thesis
  proof (cases "lr_kind ?ref = ListenerSetKind")
    case True
    then show ?thesis
      unfolding attaches_def list_ex_iff using member covers ref(1) l(2) assms(5) parent_ref_resolved [OF assms(1-3)]
      by (intro bexI [of _ "(lr_kind ?ref, lr_name ?ref, l)"]) (simp_all add: application_parent_refs_def Let_def)
  next
    case False
    let ?tls = "options\<lparr>go_https_section := lr_section ?ref\<rparr>"
    have "go_namespace ?tls = cf_namespace c" "go_name ?tls = cf_name c" using assms(2,3) by simp_all
    note r = parent_ref_resolved [OF assms(1) this]
    from False show ?thesis
      unfolding attaches_def list_ex_iff using member covers ref kinds l(2) assms(5) r
      by (intro bexI [of _ "(lr_kind ?ref, lr_name ?ref, l)"]) (simp_all add: application_parent_refs_def Let_def)
  qed
qed

subsection \<open>Routes\<close>

lemma matching_tls_host_matches:
  "matching_tls_host host hosts \<noteq> [] \<Longrightarrow> host = matching_tls_host host hosts \<or> tls_match host (matching_tls_host host hosts)"
  using match_loop_best [of host "{}" "[]" hosts] by (auto simp: matching_tls_host_def best_match_def split: if_splits)

text \<open>The options of the translation of one Ingress, given the plan of the managed Gateway.\<close>

definition ingress_options :: "config \<Rightarrow> gateway_plan \<Rightarrow> ingress list \<Rightarrow> bool \<Rightarrow> options" where
  "ingress_options c plan canaries settings =
     (translate_options c (Some plan))\<lparr>op_canaries := canaries, op_settings_as_snippets := settings\<rparr>"

lemma ingress_options_simps [simp]:
  "go_namespace (op_gateway (ingress_options c plan canaries settings)) = cf_namespace c"
  "go_name (op_gateway (ingress_options c plan canaries settings)) = cf_name c"
  "go_http_section (op_gateway (ingress_options c plan canaries settings)) = cf_http_section c"
  "go_tls_sections (op_gateway (ingress_options c plan canaries settings)) = gp_tls_sections plan"
  "op_tls_hosts (ingress_options c plan canaries settings) = Some (gp_tls_hosts plan)"
  by (simp_all add: ingress_options_def translate_options_def)

lemma overflow_serves_all:
  assumes "mo_overflow options"
  shows "all_served (build_managed_gateway ings options)"
  using plan_host_served [of _ ings options] assms unfolding list_all_iff by blast

lemma input_of_managed:
  assumes "input \<in> set (fst (collect_hosts ing (ingress_options c plan canaries settings)))"
  shows "hi_tls_hostname input = matching_tls_host (hi_hostname input) (gp_tls_hosts plan)"
    "hi_tls_listener input = (if hi_tls_hostname input \<noteq> [] then gm_or no_listener (gp_tls_sections plan) (hi_tls_hostname input) else no_listener)"
  using assms unfolding collect_hosts_fst by (auto simp: host_input_of_def input_tls_hosts_def Let_def)

lemma input_attaches:
  assumes "cf_namespace c \<noteq> []" and plan: "plan = build_managed_gateway ings (managed_options_of c certs ps)"
    and served: "all_served plan" and input: "input \<in> set (fst (collect_hosts ing (ingress_options c plan canaries settings)))"
  shows "list_all (attaches c plan namespace (if hi_hostname input = [] then [] else [hi_hostname input]))
    (application_parent_refs namespace input (op_gateway (ingress_options c plan canaries settings)) attachHTTP httpOnly)"
proof -
  let ?o = "op_gateway (ingress_options c plan canaries settings)"
  have http: "attaches c plan namespace hs (parent_ref_to namespace False ?o)" for hs
    unfolding plan by (rule http_parent_attaches) (simp_all add: assms(1))
  note i = input_of_managed [OF input]
  show ?thesis
  proof (cases "httpOnly \<or> hi_tls_hostname input = []")
    case True
    then show ?thesis using http i(2) by (auto simp: application_parent_refs_def Let_def no_listener_def ListenerSetKind_def)
  next
    case False
    then have h: "matching_tls_host (hi_hostname input) (gp_tls_hosts plan) \<noteq> []" using i(1) by simp
    have "gm_has (gp_tls_sections plan) (hi_tls_hostname input)"
      using served matching_tls_host_in [OF h] i(1) by (simp add: list_all_iff del: not_None_eq)
    then have "gm_get (gp_tls_sections plan) (hi_tls_hostname input) = Some (hi_tls_listener input)"
      using False i(2) by (auto simp: gm_or_def)
    then have tls: "attaches c plan namespace (if hi_hostname input = [] then [] else [hi_hostname input])
        (hd (application_parent_refs namespace input ?o attachHTTP False))"
      using matching_tls_host_matches [OF h] False i(1) unfolding plan by (intro tls_parent_attaches) (simp_all add: assms(1))
    have "application_parent_refs namespace input ?o attachHTTP False =
        hd (application_parent_refs namespace input ?o attachHTTP False) # (if attachHTTP then [parent_ref_to namespace False ?o] else [])"
      by (simp add: application_parent_refs_def Let_def)
    moreover have "list_all (attaches c plan namespace (if hi_hostname input = [] then [] else [hi_hostname input]))
        (hd (application_parent_refs namespace input ?o attachHTTP False) # (if attachHTTP then [parent_ref_to namespace False ?o] else []))"
      using tls http by simp
    moreover have "httpOnly = False" using False by simp
    ultimately show ?thesis by (simp only:)
  qed
qed

lemma expected_routes_attach:
  assumes "cf_namespace c \<noteq> []" and "plan = build_managed_gateway ings (managed_options_of c certs ps)"
    and "all_served plan" and "input \<in> set (fst (collect_hosts ing (ingress_options c plan canaries settings)))"
  shows "list_all (route_attaches c plan) (expected_routes env ing (ingress_options c plan canaries settings) input)"
proof -
  let ?o = "ingress_options c plan canaries settings"
  have "route_attaches c plan (application_core env ing ?o input)"
    using input_attaches [OF assms] unfolding route_attaches_def application_core_def by simp
  moreover have "route_attaches c plan (route_core (build_redirect_route ing host ?o))" for host
    unfolding route_attaches_def route_core_def build_redirect_route_def assms(2)
    by (simp, rule http_parent_attaches) (simp_all add: assms(1))
  ultimately show ?thesis by (simp add: expected_routes_def)
qed

lemma translated_routes_attach:
  assumes "cf_namespace c \<noteq> []" and "plan = build_managed_gateway ings (managed_options_of c certs ps)" and "all_served plan"
  shows "list_all (route_attaches c plan) (map route_core (pl_routes (translate env ing (ingress_options c plan canaries settings))))"
  using expected_routes_attach [OF assms] unfolding translate_routes by (auto simp: list_all_iff)

end
