(* ===== verification/Life.thy ===== *)
theory Life
  imports Settled ReconcileProgress Attachment
begin

text \<open>
  The reconciler as a state machine. \<^verbatim>\<open>SetupWithManager\<close> of
  \<^verbatim>\<open>internal/controller/ingress_controller.go\<close> lets one worker serve the requests one after the
  other, whatever order they come in, while the source of the channel takes from it what the last
  plan pushed. Every request may find another API server.
\<close>

datatype 'e event =
    Served "'e api" nsname
  | Woken nsname

inductive life_step :: "config \<Rightarrow> bridge \<Rightarrow> 'e event \<Rightarrow> bridge \<Rightarrow> bool" for c where
  served: "reconcile api c request st = (result, st') \<Longrightarrow> life_step c st (Served api request) st'"
| woken: "st_affected st = Some (key # rest) \<Longrightarrow> life_step c st (Woken key) (st\<lparr>st_affected := Some rest\<rparr>)"

inductive life :: "config \<Rightarrow> bridge \<Rightarrow> 'e event list \<Rightarrow> bridge \<Rightarrow> bool" for c where
  now: "life c st [] st"
| later: "life c st events st' \<Longrightarrow> life_step c st' event st'' \<Longrightarrow> life c st (events @ [event]) st''"

inductive_cases servedE: "life_step c st (Served api request) st'"
inductive_cases wokenE: "life_step c st (Woken key) st'"

text \<open>The process after \<^verbatim>\<open>SetupWithManager\<close>: no plan yet, no certificate, an empty channel.\<close>

definition started :: "bridge \<Rightarrow> bool" where
  "started st \<longleftrightarrow> st_placements st = None \<and> st_certs st = None \<and> st_affected st = Some []"

subsection \<open>The channel\<close>

definition channel_fits :: "bridge \<Rightarrow> bool" where
  "channel_fits st \<longleftrightarrow> (case st_affected st of None \<Rightarrow> True | Some channel \<Rightarrow> length channel \<le> affectedCapacity)"

lemma push_affected_fits: "length channel \<le> capacity \<Longrightarrow> length (push_affected capacity key channel) \<le> capacity"
  by (simp add: push_affected_def)

lemma enqueue_affected_fits:
  assumes "length channel \<le> affectedCapacity"
  shows "length (enqueue_affected_ingresses ings tlsHosts changed channel) \<le> affectedCapacity"
proof -
  have "length (fold (\<lambda>ing channel. if P ing then push_affected affectedCapacity (ing_key ing) channel else channel) ings channel)
      \<le> affectedCapacity" for P
    using assms by (induction ings arbitrary: channel) (simp_all add: push_affected_fits)
  then show ?thesis using assms by (simp add: enqueue_affected_ingresses_def)
qed

interpretation fits: memory_rule channel_fits
  by unfold_locales (simp add: channel_fits_def logged_def)

lemma channel_fits_managed: "preserves channel_fits (reconcile_managed_gateway api c)"
proof -
  have certs: "preserves channel_fits (read_certificates api c ings)" for ings
    by (simp add: preserves_def read_certificates_def channel_fits_def logged_def split: prod.split sum.split)
  have commit: "preserves channel_fits (commit_placements ps)" for ps
    by (simp add: preserves_def commit_placements_def channel_fits_def)
  have push: "preserves channel_fits (push_changed ings hosts changed)" for ings hosts changed
    by (simp add: preserves_def push_changed_def channel_fits_def enqueue_affected_fits split: option.split)
  have known: "preserves channel_fits (known_placements api c)"
  proof -
    have read: "preserves channel_fits (and_then (ask call answer) (\<lambda>x. and_then (commit_placements x) (\<lambda>_. return' x)))"
      for call and answer :: "call list \<Rightarrow> 'a + placements"
      by (intro preserves_and_then fits.preserves_ask commit preserves_return)
    show ?thesis
      using preservesD [OF read] by (simp add: preserves_def known_placements_def split: option.split)
  qed
  show ?thesis
    unfolding reconcile_managed_gateway_def execute_plan_def Let_def
    by (intro preserves_and_then fits.preserves_ask certs known commit fits.preserves_apply_plan fits.preserves_prune_plan push preserves_return)
qed

interpretation fits: memory_reconcile channel_fits api c for api c
  by unfold_locales (rule channel_fits_managed)

lemma channel_always_fits:
  assumes "life c st events st'" and "channel_fits st"
  shows "channel_fits st'"
  using assms
proof (induction rule: life.induct)
  case (later st events st' event st'')
  show ?case
  proof (cases event)
    case (Served api request)
    with later show ?thesis
      using preservesD [OF fits.preserves_reconcile [of request api c], of st']
      by (auto elim!: servedE simp: channel_fits_def)
  next
    case (Woken key)
    with later show ?thesis by (auto elim!: wokenE simp: channel_fits_def)
  qed
qed

lemma channel_bounded: "started st \<Longrightarrow> life c st events st' \<Longrightarrow> channel_fits st'"
  by (erule channel_always_fits) (simp add: started_def channel_fits_def)

subsection \<open>A settled plan\<close>

fun disturbs :: "config \<Rightarrow> ingress list \<Rightarrow> 'e event \<Rightarrow> bool" where
  "disturbs c ings (Served api request) = (request = certificateSyncKey \<or> \<not> lists_same c ings api)"
| "disturbs c ings (Woken key) = False"

fun wakes :: "'e event \<Rightarrow> bool" where
  "wakes (Served api request) = False"
| "wakes (Woken key) = True"

definition in_place :: "config \<Rightarrow> ingress list \<Rightarrow> gateway_plan \<Rightarrow> nsname list option \<Rightarrow> bridge \<Rightarrow> bool" where
  "in_place c ings plan channel st \<longleftrightarrow> remembers c ings plan st \<and> st_affected st = channel"

definition kept_in_place :: "config \<Rightarrow> ingress list \<Rightarrow> gateway_plan \<Rightarrow> nsname list option \<Rightarrow> 'e api \<Rightarrow> bridge \<Rightarrow> bool" where
  "kept_in_place c ings plan channel api st \<longleftrightarrow>
     (if all_served plan \<and> lists_same c ings api then in_place c ings plan channel st else True)"

interpretation kept: memory_reconcile "kept_in_place c ings plan channel api" api c for c ings plan channel api
proof unfold_locales
  show "kept_in_place c ings plan channel api (logged call st) \<longleftrightarrow> kept_in_place c ings plan channel api st" for call st
    by (simp add: kept_in_place_def in_place_def) (simp add: logged_def)
  show "preserves (kept_in_place c ings plan channel api) (reconcile_managed_gateway api c)"
    using managed_again [of c ings plan _ api] unfolding preserves_def kept_in_place_def in_place_def
    by (auto simp del: not_None_eq split: if_splits)
qed

lemma in_place_kept:
  assumes "life c st events st'" and "in_place c ings plan (st_affected st) st" and "all_served plan"
    and "list_all (\<lambda>event. \<not> disturbs c ings event) events"
  shows "in_place c ings plan (map_option (drop (length (filter wakes events))) (st_affected st)) st'"
  using assms
proof (induction rule: life.induct)
  case (later st events st' event st'')
  let ?channel = "map_option (drop (length (filter wakes events))) (st_affected st)"
  have before: "in_place c ings plan ?channel st'" using later by simp
  show ?case
  proof (cases event)
    case (Served api request)
    with later.prems have same: "request \<noteq> certificateSyncKey" "lists_same c ings api" by simp_all
    have "snd (reconcile api c request st') = st''" using later.hyps(2) Served by (auto elim!: servedE)
    moreover have "kept_in_place c ings plan ?channel api (snd (reconcile api c request st'))"
      using preservesD [OF kept.preserves_reconcile [of request c ings plan ?channel api], of st'] before same
      by (simp add: kept_in_place_def)
    ultimately show ?thesis using Served same(2) later.prems(2) by (simp add: kept_in_place_def del: not_None_eq)
  next
    case (Woken key)
    with later.hyps(2) obtain rest where rest: "st_affected st' = Some (key # rest)" "st'' = st'\<lparr>st_affected := Some rest\<rparr>"
      by (auto elim!: wokenE)
    from before rest(1) obtain channel where channel: "st_affected st = Some channel" "drop (length (filter wakes events)) channel = key # rest"
      by (cases "st_affected st") (auto simp: in_place_def)
    have "drop (length (filter wakes (events @ [event]))) channel = rest"
      using channel(2) Woken tl_drop [of "length (filter wakes events)" channel] by (simp add: drop_Suc)
    then show ?thesis
      using before by (simp add: in_place_def remembers_def rest(2) channel(1))
  qed
qed (simp add: option.map_ident)

lemma settled_life:
  assumes "reconcile_managed_gateway api c st = (Inr plan, st1)" and "api_ingresses api (st_log st) None = Inr items"
    and "all_served plan" and "life c st1 events st2"
    and "list_all (\<lambda>event. \<not> disturbs c (filter (active c) items) event) events"
  shows "st_placements st2 = Some (gp_placements plan)"
    and "st_affected st2 = map_option (drop (length (filter wakes events))) (st_affected st1)"
    and "lists_same c (filter (active c) items) api' \<Longrightarrow>
      case fst (reconcile_managed_gateway api' c st2) of Inl _ \<Rightarrow> True | Inr plan' \<Rightarrow> plan' = plan"
proof -
  have "in_place c (filter (active c) items) plan (st_affected st1) st1"
    using remembers_made [OF assms(1,2)] by (simp add: in_place_def)
  from in_place_kept [OF assms(4) this assms(3,5)]
  have "remembers c (filter (active c) items) plan st2"
    and "st_affected st2 = map_option (drop (length (filter wakes events))) (st_affected st1)"
    by (simp_all add: in_place_def)
  then show "st_affected st2 = map_option (drop (length (filter wakes events))) (st_affected st1)"
    and "st_placements st2 = Some (gp_placements plan)"
    and "lists_same c (filter (active c) items) api' \<Longrightarrow>
      case fst (reconcile_managed_gateway api' c st2) of Inl _ \<Rightarrow> True | Inr plan' \<Rightarrow> plan' = plan"
    using managed_again [OF _ assms(3), of c "filter (active c) items" st2 api'] by (auto simp: remembers_def simp del: not_None_eq)
qed

text \<open>
  C8. A settled plan stays settled. After a plan that serves every hostname, whatever requests are
  served in whatever order, with whatever answers and errors of the API server, as long as the
  Ingresses declare the same and no certificate is to be read again: the listeners stay where they
  are, no Ingress is woken up again, the channel is only drained, and planning once more yields the
  very same plan. The bridge's own patches cannot drive it in a circle.
\<close>

theorem settled_plan_kept:
  assumes "reconcile_managed_gateway api c st = (Inr plan, st1)" and "api_ingresses api (st_log st) None = Inr items"
    and "all_served plan" and "life c st1 events st2"
    and "list_all (\<lambda>event. \<not> disturbs c (filter (active c) items) event) events"
  shows "st_placements st2 = Some (gp_placements plan) \<and>
    st_affected st2 = map_option (drop (length (filter wakes events))) (st_affected st1) \<and>
    (if lists_same c (filter (active c) items) api'
     then case fst (reconcile_managed_gateway api' c st2) of Inl _ \<Rightarrow> True | Inr plan' \<Rightarrow> plan' = plan
     else True)"
  using settled_life [OF assms] by (auto simp del: not_None_eq)

text \<open>One Ingress with a certificate: planned, served, and planned again for another request.\<close>

definition tls_api :: "string api" where
  "tls_api = sample_api\<lparr>api_ingresses := \<lambda>_ _. Inr [sample_ingress ''app'' ''a.example'' ''tls''],
     api_ingress := \<lambda>_ _. Inr (Some (sample_ingress ''app'' ''a.example'' ''tls''))\<rparr>"

lemma tls_api_reliable: "reliable tls_api"
  by (simp add: reliable_def tls_api_def sample_api_def sample_view_def readable_def adoptable_def accepted_write_def)

lemma tls_api_active: "filter (active sample_config) [sample_ingress ''app'' ''a.example'' ''tls''] = [sample_ingress ''app'' ''a.example'' ''tls'']"
  by (simp add: active_def selected_def sample_config_def sample_ingress_def annotation_def ingress_class_def)

theorem settled_plan_kept_witness:
  "\<exists>plan st1. reconcile_managed_gateway tls_api sample_config fresh_bridge = (Inr plan, st1) \<and> gp_tls_hosts plan = [''a.example''] \<and>
     st_placements (snd (reconcile tls_api sample_config (nsname ''app'' ''web'') st1)) = Some (gp_placements plan)"
proof -
  let ?ing = "sample_ingress ''app'' ''a.example'' ''tls''"
  obtain plan st1 where run: "reconcile_managed_gateway tls_api sample_config fresh_bridge = (Inr plan, st1)"
    using succeeds_managed [OF tls_api_reliable, of sample_config] by (auto simp: succeeds_def isl_def) (metis prod.collapse sum.exhaust)
  have items: "api_ingresses tls_api (st_log fresh_bridge) None = Inr [?ing]" by (simp add: tls_api_def)
  obtain certs previous where plan: "plan = build_managed_gateway [?ing] (managed_options_of sample_config certs previous)"
    using remembers_made [OF run items] unfolding tls_api_active remembers_def by blast
  have served: "all_served plan" unfolding plan by (rule overflow_serves_all) (simp add: sample_config_def)
  have life: "life sample_config st1 ([] @ [Served tls_api (nsname ''app'' ''web'')]) (snd (reconcile tls_api sample_config (nsname ''app'' ''web'') st1))"
    by (rule life.later [OF life.now]) (rule life_step.served [where result = "fst (reconcile tls_api sample_config (nsname ''app'' ''web'') st1)"], simp)
  have same: "lists_same sample_config [?ing] tls_api"
    unfolding lists_same_def using tls_api_active by (simp add: tls_api_def same_declarations_refl)
  have "gp_tls_hosts plan = [''a.example'']" unfolding plan plan_fields by code_simp
  moreover have "list_all (\<lambda>event. \<not> disturbs sample_config (filter (active sample_config) [?ing]) event) ([] @ [Served tls_api (nsname ''app'' ''web'')])"
    unfolding tls_api_active using same by (simp add: certificateSyncKey_def)
  ultimately show ?thesis
    using settled_plan_kept [OF run items served life] run by blast
qed

end
