(* ===== verification/Steady.thy ===== *)
theory Steady
  imports Store Life
begin

text \<open>
  A cluster that holds still. When nobody changes what the bridge reads, a request that is served a
  second time finds the objects as the first one left them and writes them as they are: the bridge
  converges in one step and does not keep itself busy.
\<close>

subsection \<open>Installing once is enough\<close>

text \<open>A condition on a key that looks at the object of that key only.\<close>

definition pointwise :: "(store \<Rightarrow> string \<times> nsname \<Rightarrow> bool) \<Rightarrow> bool" where
  "pointwise stale \<longleftrightarrow> (\<forall>s s' k. s k = s' k \<longrightarrow> stale s k = stale s' k) \<and> (\<forall>s k. stale s k \<longrightarrow> s k \<noteq> None)"

lemma pointwiseD:
  assumes "pointwise stale"
  shows "s k = s' k \<Longrightarrow> stale s k = stale s' k" and "stale s k \<Longrightarrow> s k \<noteq> None"
  using assms unfolding pointwise_def by blast+

definition clean :: "applied list \<Rightarrow> (store \<Rightarrow> string \<times> nsname \<Rightarrow> bool) \<Rightarrow> store \<Rightarrow> bool" where
  "clean xs stale s \<longleftrightarrow> (\<forall>k. case last_of xs k of Some x \<Rightarrow> s k = Some x | None \<Rightarrow> \<not> stale s k)"

lemma installed_clean: "clean xs stale s \<Longrightarrow> installed xs (stale s) s = s"
proof
  fix k
  assume "clean xs stale s"
  then have "case last_of xs k of Some x \<Rightarrow> s k = Some x | None \<Rightarrow> \<not> stale s k" by (simp only: clean_def)
  then show "installed xs (stale s) s k = s k" by (simp add: installed_def split: option.splits)
qed

lemma clean_installed:
  assumes "pointwise stale"
  shows "clean xs stale (installed xs (stale s) s)"
proof -
  have "\<not> stale (installed xs (stale s) s) k" if "last_of xs k = None" for k
  proof (cases "stale s k")
    case True
    then have "installed xs (stale s) s k = None" using that by (simp add: installed_def)
    then show ?thesis using pointwiseD(2) [OF assms] by blast
  next
    case False
    then have "installed xs (stale s) s k = s k" using that by (simp add: installed_def)
    then show ?thesis using False pointwiseD(1) [OF assms] by blast
  qed
  note stays = this
  show ?thesis
    unfolding clean_def
  proof
    fix k
    show "case last_of xs k of None \<Rightarrow> \<not> stale (installed xs (stale s) s) k | Some x \<Rightarrow> installed xs (stale s) s k = Some x"
    proof (cases "last_of xs k")
      case None
      with stays [OF None] show ?thesis by (simp only: option.case not_False_eq_True)
    qed (simp add: installed_def)
  qed
qed

lemma clean_elsewhere:
  assumes "clean xs stale s" and "pointwise stale" and "\<And>k. stale s' k \<or> last_of xs k \<noteq> None \<Longrightarrow> s' k = s k"
  shows "clean xs stale s'"
  unfolding clean_def
proof
  fix k
  show "case last_of xs k of None \<Rightarrow> \<not> stale s' k | Some x \<Rightarrow> s' k = Some x"
  proof (cases "last_of xs k")
    case None
    have "\<not> stale s k" using assms(1) None unfolding clean_def by (metis option.case(1))
    then have "\<not> stale s' k" using pointwiseD(1) [OF assms(2)] assms(3) by blast
    then show ?thesis using None by simp
  next
    case (Some x)
    have "s k = Some x" using assms(1) Some unfolding clean_def by (metis option.case(2))
    then show ?thesis using Some assms(3) [of k] by simp
  qed
qed

lemma selects_pointwise: "s (kind, key) = s' (kind, key) \<Longrightarrow> selects s kind ns sel key = selects s' kind ns sel key"
  by (simp add: selects_def)

lemma pointwise_owned: "pointwise (owned request kinds)"
  by (auto simp: pointwise_def owned_def selects_def split: option.splits)

lemma pointwise_gateway: "pointwise (gateway_owned c)"
  by (auto simp: pointwise_def gateway_owned_def selects_def split: option.splits)

definition gatewayKinds :: "string list" where
  "gatewayKinds = [''ReferenceGrant'', ''Gateway'', ''ListenerSet'']"

lemma gateway_kind: "gateway_owned c s k \<Longrightarrow> fst k \<in> set gatewayKinds"
  "last_of (plan_applied plan) k \<noteq> None \<Longrightarrow> fst k \<in> set gatewayKinds"
  by (auto simp: gateway_owned_def gatewayKinds_def last_of_None plan_applied_def simp del: not_None_eq)

lemma generated_kind: "last_of (map AppGenerated gs) k \<noteq> None \<Longrightarrow> fst k \<in> set prunedKinds"
proof -
  have "gen_kind g \<in> set prunedKinds" for g by (cases g) (simp_all add: prunedKinds_def)
  then show "last_of (map AppGenerated gs) k \<noteq> None \<Longrightarrow> fst k \<in> set prunedKinds"
    by (auto simp: last_of_None gen_key_def simp del: not_None_eq)
qed

lemma kinds_apart:
  "kind \<in> set gatewayKinds \<Longrightarrow> kind \<notin> set prunedKinds" "kind \<in> set gatewayKinds \<Longrightarrow> kind \<noteq> ''IngressTranslation''"
  "kind \<in> set prunedKinds \<Longrightarrow> kind \<noteq> ''IngressTranslation''"
  by (auto simp: gatewayKinds_def prunedKinds_def)

text \<open>The Gateway's objects stay as installed whatever is done to other kinds.\<close>

lemma gateway_stays:
  assumes "\<And>k. fst k \<in> set gatewayKinds \<Longrightarrow> s' k = gateway_installed c gatewayPlan s k"
  shows "gateway_installed c gatewayPlan s' = s'"
proof (cases gatewayPlan)
  case (Some plan)
  have "clean (plan_applied plan) (gateway_owned c) s'"
  proof (rule clean_elsewhere [OF clean_installed [OF pointwise_gateway, of "plan_applied plan" c s] pointwise_gateway])
    fix k :: "string \<times> nsname" assume "gateway_owned c s' k \<or> last_of (plan_applied plan) k \<noteq> None"
    then have "fst k \<in> set gatewayKinds" using gateway_kind by blast
    from assms [OF this] show "s' k = installed (plan_applied plan) (gateway_owned c s) s k" by (simp add: Some gateway_installed_def)
  qed
  then show ?thesis unfolding Some gateway_installed_def by (simp add: installed_clean)
qed (simp add: gateway_installed_def)

lemma gateway_elsewhere: "fst k \<notin> set gatewayKinds \<Longrightarrow> gateway_installed c gatewayPlan s k = s k"
  using gateway_installed_other [of "fst k" c gatewayPlan s "snd k"] by (simp add: gatewayKinds_def)

lemma released_twice:
  fixes s :: store and request :: nsname and c :: config and gatewayPlan :: "gateway_plan option"
  defines "kinds \<equiv> prunedKinds @ [''IngressTranslation'']"
  defines "s' \<equiv> gateway_installed c gatewayPlan (installed [] (owned request kinds s) s)"
  shows "gateway_installed c gatewayPlan (installed [] (owned request kinds s') s') = s'"
proof -
  have "clean [] (owned request kinds) s'"
  proof (rule clean_elsewhere [OF clean_installed [OF pointwise_owned, of "[]" request kinds s] pointwise_owned])
    fix k :: "string \<times> nsname" assume "owned request kinds s' k \<or> last_of [] k \<noteq> None"
    then have "fst k \<notin> set gatewayKinds" using kinds_apart(1,2) by (auto simp: owned_def kinds_def)
    then show "s' k = installed [] (owned request kinds s) s k" unfolding s'_def by (rule gateway_elsewhere)
  qed
  then show ?thesis unfolding installed_clean [OF \<open>clean [] (owned request kinds) s'\<close>] by (intro gateway_stays) (simp add: s'_def)
qed

lemma served_twice:
  "served_objects c gatewayPlan request ing plan (served_objects c gatewayPlan request ing plan s) =
   served_objects c gatewayPlan request ing plan s"
proof -
  let ?xs = "map AppGenerated (objects_to_apply (with_gateway_issues gatewayPlan request plan))"
    and ?p = "gateway_installed c gatewayPlan s" and ?s = "served_objects c gatewayPlan request ing plan s"
  let ?o = "installed ?xs (owned request prunedKinds ?p) ?p"
  have s: "?s = with_translation (ing_key ing) ing ?o" by (simp add: served_objects_def Let_def)
  have planned: "gateway_installed c gatewayPlan ?s = ?s"
  proof (rule gateway_stays)
    fix k :: "string \<times> nsname" assume kind: "fst k \<in> set gatewayKinds"
    then have "last_of ?xs k = None" "\<not> owned request prunedKinds ?p k"
      using generated_kind [of _ k] kinds_apart(1) by (auto simp: owned_def simp del: not_None_eq)
    then show "?s k = ?p k"
      unfolding s using kinds_apart(2) [OF kind] by (cases k) (simp add: with_translation_def installed_def)
  qed
  have "clean ?xs (owned request prunedKinds) ?s"
  proof (rule clean_elsewhere [OF clean_installed [OF pointwise_owned, of ?xs request prunedKinds ?p] pointwise_owned])
    fix k :: "string \<times> nsname" assume "owned request prunedKinds ?s k \<or> last_of ?xs k \<noteq> None"
    then have "fst k \<in> set prunedKinds" using generated_kind unfolding owned_def by blast
    then show "?s k = ?o k" unfolding s using kinds_apart(3) by (cases k) (auto simp: with_translation_def)
  qed
  then have "served_objects c gatewayPlan request ing plan ?s = with_translation (ing_key ing) ing ?s"
    unfolding served_objects_def [of _ _ _ _ _ ?s] Let_def planned by (simp only: installed_clean)
  also have "\<dots> = ?s" unfolding s by (simp add: with_translation_def)
  finally show ?thesis .
qed

subsection \<open>Planning twice\<close>

text \<open>
  What the bridge reads of the cluster stays the same: the Ingresses, the Services and ConfigMaps
  they refer to, and no two Ingresses in a list have the same key. What it writes, and what the
  other controllers answer, may change.
\<close>

definition steady :: "'e api \<Rightarrow> bool" where
  "steady api \<longleftrightarrow>
     (\<forall>log log' namespace. api_ingresses api log namespace = api_ingresses api log' namespace) \<and>
     (\<forall>log log' key. api_ingress api log key = api_ingress api log' key) \<and>
     (\<forall>log log' key. api_service api log key = api_service api log' key) \<and>
     (\<forall>log log' key. api_config_map api log key = api_config_map api log' key) \<and>
     (\<forall>log. case api_ingresses api log None of Inl _ \<Rightarrow> True | Inr items \<Rightarrow> distinct (map ing_key items))"

lemma steadyD:
  assumes "steady api"
  shows "api_ingresses api log namespace = api_ingresses api log' namespace" "api_ingress api log key = api_ingress api log' key"
    "resolving api log = resolving api log'" "api_ingresses api log None = Inr items \<Longrightarrow> distinct (map ing_key items)"
proof -
  have same: "api_service api log key = api_service api log' key" "api_config_map api log key = api_config_map api log' key" for key
    using assms unfolding steady_def by blast+
  show "resolving api log = resolving api log'"
    unfolding resolving_def resolve_service_port_def [abs_def] resolve_config_map_def [abs_def] same ..
  show "api_ingresses api log namespace = api_ingresses api log' namespace" "api_ingress api log key = api_ingress api log' key"
    using assms unfolding steady_def by blast+
  show "distinct (map ing_key items)" if "api_ingresses api log None = Inr items"
    using assms that unfolding steady_def by (metis sum.case(2))
qed

text \<open>The reconciler remembers the plan of the Gateway, when it manages one.\<close>

definition remembers_plan :: "'e api \<Rightarrow> config \<Rightarrow> gateway_plan option \<Rightarrow> bridge \<Rightarrow> bool" where
  "remembers_plan api c gatewayPlan st \<longleftrightarrow>
     (case gatewayPlan of
        None \<Rightarrow> \<not> cf_manage c
      | Some plan \<Rightarrow> cf_manage c \<and>
          (\<exists>items. api_ingresses api [] None = Inr items \<and> remembers c (filter (active c) items) plan st))"

interpretation remembered: memory_rule "remembers_plan api c gatewayPlan" for api c gatewayPlan
  by unfold_locales (simp add: remembers_plan_def split: option.split)

lemma remembers_managed_plan:
  assumes "steady api" and "managed_plan api c st = (Inr gatewayPlan, st')"
  shows "remembers_plan api c gatewayPlan st'"
proof (cases "cf_manage c")
  case True
  with assms(2) obtain plan where plan: "reconcile_managed_gateway api c st = (Inr plan, st')" "gatewayPlan = Some plan"
    by (auto simp: managed_plan_def)
  then obtain items where items: "api_ingresses api (st_log st) None = Inr items"
    unfolding reconcile_managed_gateway_def by auto
  then show ?thesis
    using remembers_made [OF plan(1) items] steadyD(1) [OF assms(1), of "[]" None "st_log st"] True plan(2)
    by (simp add: remembers_plan_def)
qed (use assms(2) in \<open>simp add: managed_plan_def remembers_plan_def\<close>)

lemma managed_plan_again:
  assumes "steady api" and "cf_sets_available c \<or> \<not> cf_manage c" and "remembers_plan api c gatewayPlan st"
    and "managed_plan api c st = (Inr gatewayPlan', st')"
  shows "gatewayPlan' = gatewayPlan"
proof (cases gatewayPlan)
  case None
  then show ?thesis using assms(3,4) by (simp add: remembers_plan_def managed_plan_def)
next
  case (Some plan)
  with assms(3) obtain items where items: "cf_manage c" "api_ingresses api [] None = Inr items"
    and memory: "remembers c (filter (active c) items) plan st"
    by (auto simp: remembers_plan_def)
  from memory obtain certs previous where
    "plan = build_managed_gateway (filter (active c) items) (managed_options_of c certs previous)" by (auto simp: remembers_def)
  then have served: "all_served plan" using overflow_serves_all assms(2) items(1) by simp
  have lists: "lists_same c (filter (active c) items) api"
    unfolding lists_same_def
  proof
    fix log
    have "distinct (map ing_key (filter (active c) items))" using steadyD(4) [OF assms(1) items(2)] by (rule distinct_map_filter)
    then show "case api_ingresses api log None of Inl _ \<Rightarrow> True | Inr others \<Rightarrow> same_declarations (filter (active c) items) (filter (active c) others)"
      using steadyD(1) [OF assms(1), of log None "[]"] items(2) by (simp add: same_declarations_refl)
  qed
  from assms(4) items(1) obtain plan' where plan': "reconcile_managed_gateway api c st = (Inr plan', st')" "gatewayPlan' = Some plan'"
    by (auto simp: managed_plan_def)
  then show ?thesis using managed_again [OF memory served lists] Some by simp
qed

lemma ingress_plan_again:
  assumes "steady api" and "ingress_plan api c gatewayPlan ings ing st1 = (Inr plan, st1')"
    and "ingress_plan api c gatewayPlan ings ing st2 = (Inr plan', st2')"
  shows "plan' = plan"
  using assms(2,3) steadyD(1) [OF assms(1), of "st_log st1" "Some (ing_namespace ing)" "st_log st2"]
    steadyD(3) [OF assms(1), of "st_log (logged (CallList ''Ingress'' (Some (ing_namespace ing)) []) st1)"
      "st_log (logged (CallList ''Ingress'' (Some (ing_namespace ing)) []) st2)"]
  by (auto simp: ingress_plan_def translate_ingress_def Let_def split: if_splits)

subsection \<open>Serving twice\<close>

lemma kept_through: "m st = (r, st') \<Longrightarrow> preserves Q m \<Longrightarrow> Q st \<Longrightarrow> Q st'"
  using preservesD [of Q m st] by simp

lemma serve_again:
  assumes "lists_store api s" and "steady api" and "cf_sets_available c \<or> \<not> cf_manage c"
    and "finalizerName \<in> set (ing_finalizers found)"
    and "serve api c request found st = (Inr (), st1)"
    and "serve api c request found (logged (CallGet kind key) st1) = (Inr (), st2)"
  shows "store_at api s st2 = store_at api s st1"
proof -
  let ?st1 = "logged (CallGet kind key) st1"
  have finalizer: "ensure_finalizer api found st = (Inr found, st)" for st
    using assms(4) by (simp add: ensure_finalizer_def return'_def)
  let ?call = "CallList ''Ingress'' (Some (ing_namespace found)) []"
  from assms(5) obtain gatewayPlan sta items plan stb where one: "managed_plan api c st = (Inr gatewayPlan, sta)"
    "api_ingresses api (st_log sta) (Some (ing_namespace found)) = Inr items"
    "ingress_plan api c gatewayPlan (filter (active c) items) found (logged ?call sta) = (Inr plan, stb)"
    "activate api c request found (with_gateway_issues gatewayPlan request plan) stb = (Inr (), st1)"
    by (rule serve_parts) (simp add: finalizer)
  from assms(6) obtain gatewayPlan' sta' items' plan' stb' where two: "managed_plan api c ?st1 = (Inr gatewayPlan', sta')"
    "api_ingresses api (st_log sta') (Some (ing_namespace found)) = Inr items'"
    "ingress_plan api c gatewayPlan' (filter (active c) items') found (logged ?call sta') = (Inr plan', stb')"
    "activate api c request found (with_gateway_issues gatewayPlan' request plan') stb' = (Inr (), st2)"
    by (rule serve_parts) (simp add: finalizer)
  have "remembers_plan api c gatewayPlan (logged ?call sta)"
    unfolding remembered.log_free by (rule remembers_managed_plan [OF assms(2) one(1)])
  then have "remembers_plan api c gatewayPlan stb"
    by (rule kept_through [OF one(3) remembered.preserves_ingress_plan])
  then have "remembers_plan api c gatewayPlan ?st1"
    unfolding remembered.log_free by (rule kept_through [OF one(4) remembered.preserves_activate])
  then have gateway: "gatewayPlan' = gatewayPlan" by (rule managed_plan_again [OF assms(2,3) _ two(1)])
  have items: "items' = items" using one(2) two(2) steadyD(1) [OF assms(2), of "st_log sta" _ "st_log sta'"] by simp
  have plan: "plan' = plan" using ingress_plan_again [OF assms(2) one(3)] two(3) unfolding gateway items by blast
  have "store_at api s st2 = served_objects c gatewayPlan request found plan (store_at api s st1)"
    using served_parts_store [OF assms(1) finalizer two(1,3,4)] unfolding gateway plan by (simp add: store_logged)
  then show ?thesis
    unfolding served_parts_store [OF assms(1) finalizer one(1,3,4)] by (simp only: served_twice)
qed

lemma release_again:
  assumes "lists_store api s" and "steady api" and "cf_sets_available c \<or> \<not> cf_manage c"
    and "release api c request found st = (Inr (), st1)"
    and "release api c request found (logged (CallGet kind key) st1) = (Inr (), st2)"
  shows "store_at api s st2 = store_at api s st1"
proof -
  let ?st1 = "logged (CallGet kind key) st1"
  let ?last = "case found of None \<Rightarrow> return' () | Some ing \<Rightarrow> detach api ing"
  from assms(4) obtain sta gatewayPlan stb where one: "prune_source api request [] True st = (Inr (), sta)"
    "managed_plan api c sta = (Inr gatewayPlan, stb)" "?last stb = (Inr (), st1)"
    by (rule release_parts)
  from assms(5) obtain sta' gatewayPlan' stb' where two: "prune_source api request [] True ?st1 = (Inr (), sta')"
    "managed_plan api c sta' = (Inr gatewayPlan', stb')" "?last stb' = (Inr (), st2)"
    by (rule release_parts)
  have last: "preserves (remembers_plan api c gatewayPlan) ?last"
    by (simp add: remembered.preserves_finalizer split: option.split)
  have "remembers_plan api c gatewayPlan stb" by (rule remembers_managed_plan [OF assms(2) one(2)])
  then have "remembers_plan api c gatewayPlan ?st1"
    unfolding remembered.log_free
    by (rule kept_through [where m = ?last and st = stb, OF one(3) last])
  then have "remembers_plan api c gatewayPlan sta'" by (rule kept_through [OF two(1) remembered.preserves_prune_source])
  then have gateway: "gatewayPlan' = gatewayPlan" by (rule managed_plan_again [OF assms(2,3) _ two(2)])
  show ?thesis
    using released_parts_store [OF assms(1) one] released_parts_store [OF assms(1) two]
    unfolding gateway by (simp add: store_logged released_twice)
qed

lemma reconcile_again:
  assumes "lists_store api s" and "steady api" and "cf_sets_available c \<or> \<not> cf_manage c" and "request \<noteq> certificateSyncKey"
    and "case api_ingress api (st_log st) request of Inr (Some ing) \<Rightarrow> finalizerName \<in> set (ing_finalizers ing) | _ \<Rightarrow> True"
    and "reconcile api c request st = (Inr (), st1)" and "reconcile api c request st1 = (Inr (), st2)"
  shows "store_at api s st2 = store_at api s st1"
proof (cases "request = globalReconcileKey")
  case True
  with assms(4,6,7) obtain gatewayPlan gatewayPlan' where
    plans: "managed_plan api c st = (Inr gatewayPlan, st1)" "managed_plan api c st1 = (Inr gatewayPlan', st2)"
    by (auto simp: reconcile_def)
  have "gatewayPlan' = gatewayPlan"
    by (rule managed_plan_again [OF assms(2,3) remembers_managed_plan [OF assms(2) plans(1)] plans(2)])
  then show ?thesis
    using managed_plan_store [OF assms(1) plans(1)] managed_plan_store [OF assms(1) plans(2)]
    by (simp add: gateway_stays)
next
  case False
  let ?act = "\<lambda>found. case found of None \<Rightarrow> release api c request None
    | Some ing \<Rightarrow> if ing_deleting ing \<or> \<not> selected c ing then release api c request (Some ing) else serve api c request ing"
  have act: "\<exists>found. api_ingress api (st_log st) request = Inr found \<and> ?act found (logged (CallGet ''Ingress'' request) st) = (Inr (), st')"
    if "reconcile api c request st = (Inr (), st')" for st st'
    using that False assms(4) by (auto simp: reconcile_def)
  obtain found where found: "api_ingress api (st_log st) request = Inr found" "?act found (logged (CallGet ''Ingress'' request) st) = (Inr (), st1)"
    using act [OF assms(6)] by blast
  have "?act found (logged (CallGet ''Ingress'' request) st1) = (Inr (), st2)"
    using act [OF assms(7)] found(1) steadyD(2) [OF assms(2), of "st_log st" request "st_log st1"] by auto
  then show ?thesis
    using found assms(5) release_again [OF assms(1-3)] serve_again [OF assms(1-3)]
    by (auto split: option.splits if_splits)
qed

text \<open>
  C5. The bridge converges in one step. In a cluster where the Ingresses and what they refer to stay
  as they are, serving a request again leaves every object as serving it once left it, whatever the
  other controllers answered in between: the Gateway is planned the same from what the reconciler
  remembers, the Ingress is translated to the same objects, and nothing is stale. (The Ingress has
  the finalizer already; certificates are read again for their own request only; ListenerSets can
  take what does not fit on the Gateway.)
\<close>

theorem request_repeated:
  assumes "lists_store api s" and "steady api" and "cf_sets_available c \<or> \<not> cf_manage c" and "request \<noteq> certificateSyncKey"
    and "case api_ingress api (st_log st) request of Inr (Some ing) \<Rightarrow> finalizerName \<in> set (ing_finalizers ing) | _ \<Rightarrow> True"
    and "reconcile api c request st = (Inr (), st1)" and "reconcile api c request st1 = (Inr (), st2)"
  shows "store_at api s st2 = store_at api s st1"
  using assms by (rule reconcile_again)

text \<open>An Ingress served twice by a bridge that has just started.\<close>

definition steady_api :: "string api" where
  "steady_api = storing [] Map.empty (sample_api
     \<lparr>api_ingresses := \<lambda>_ _. Inr [(sample_route ''web'' 1 [])\<lparr>ing_finalizers := [finalizerName]\<rparr>],
      api_ingress := \<lambda>_ _. Inr (Some ((sample_route ''web'' 1 [])\<lparr>ing_finalizers := [finalizerName]\<rparr>))\<rparr>)"

lemma steady_api_reliable: "reliable steady_api"
  unfolding steady_api_def
  by (rule storing_reliable) (simp add: reliable_def sample_api_def sample_view_def readable_def adoptable_def accepted_write_def)

theorem request_repeated_witness:
  "\<exists>st1 st2. reconcile steady_api sample_config (nsname ''app'' ''web'') fresh_bridge = (Inr (), st1) \<and>
     reconcile steady_api sample_config (nsname ''app'' ''web'') st1 = (Inr (), st2) \<and>
     store_at steady_api Map.empty st2 = store_at steady_api Map.empty st1"
proof -
  let ?request = "nsname ''app'' ''web''"
  have ok: "\<exists>st'. reconcile steady_api sample_config ?request st = (Inr (), st')" for st
    using reconcile_ok [OF steady_api_reliable, where c = sample_config and request = ?request and st = st] by (metis prod.collapse)
  obtain st1 where st1: "reconcile steady_api sample_config ?request fresh_bridge = (Inr (), st1)" using ok by blast
  obtain st2 where st2: "reconcile steady_api sample_config ?request st1 = (Inr (), st2)" using ok by blast
  have "store_at steady_api Map.empty st2 = store_at steady_api Map.empty st1"
  proof (rule request_repeated [OF _ _ _ _ _ st1 st2])
    show "lists_store steady_api Map.empty" unfolding steady_api_def by (rule storing_lists) simp
    show "steady steady_api" by (simp add: steady_def steady_api_def storing_def sample_api_def)
    show "cf_sets_available sample_config \<or> \<not> cf_manage sample_config" by (simp add: sample_config_def)
    show "?request \<noteq> certificateSyncKey" by (simp add: certificateSyncKey_def)
    show "case api_ingress steady_api (st_log fresh_bridge) ?request of
        Inr (Some ing) \<Rightarrow> finalizerName \<in> set (ing_finalizers ing) | _ \<Rightarrow> True"
      by (simp add: steady_api_def storing_def)
  qed
  with st1 st2 show ?thesis by blast
qed

end
