(* ===== verification/Routing.thy ===== *)
theory Routing
  imports Translated
begin

text \<open>
  Where a request goes. The Gateway API rules of a plan and the Ingress they come from are both read
  as a list of backends for a hostname and a request, in the order of their rules; the two agree for
  every plan that may be activated. How the data plane matches a prefix or a regular expression is a
  parameter: both APIs describe prefixes alike.
\<close>

subsection \<open>Requests\<close>

text \<open>Headers and query parameters by name, header names in lower case.\<close>

record traffic =
  tq_path :: string
  tq_method :: string
  tq_header :: "string \<Rightarrow> string option"
  tq_query :: "string \<Rightarrow> string option"

record matcher =
  mt_prefix :: "string \<Rightarrow> string \<Rightarrow> bool"
  mt_regex :: "string \<Rightarrow> string \<Rightarrow> bool"

subsection \<open>Rules of a route\<close>

definition path_matches :: "matcher \<Rightarrow> path_match_type \<times> string \<Rightarrow> string \<Rightarrow> bool" where
  "path_matches mt m path =
     (case fst m of
        MatchExact \<Rightarrow> path = snd m
      | MatchPathPrefix \<Rightarrow> mt_prefix mt (snd m) path
      | MatchRegularExpression \<Rightarrow> mt_regex mt (snd m) path)"

definition header_matches :: "traffic \<Rightarrow> header_match \<Rightarrow> bool" where
  "header_matches q h \<longleftrightarrow> tq_header q (to_lower (hm_name h)) = Some (hm_value h)"

text \<open>The conditions of a match are all required; one match of a rule is enough.\<close>

definition match_accepts :: "matcher \<Rightarrow> traffic \<Rightarrow> route_match \<Rightarrow> bool" where
  "match_accepts mt q m \<longleftrightarrow>
     path_matches mt (case rm_path m of None \<Rightarrow> (MatchPathPrefix, ''/'') | Some p \<Rightarrow> p) (tq_path q) \<and>
     list_all (header_matches q) (rm_headers m) \<and>
     list_all (\<lambda>(key, v). tq_query q key = Some v) (rm_query m) \<and>
     (case rm_method m of None \<Rightarrow> True | Some method \<Rightarrow> tq_method q = method)"

definition rule_accepts :: "matcher \<Rightarrow> traffic \<Rightarrow> route_match list \<Rightarrow> bool" where
  "rule_accepts mt q matches \<longleftrightarrow>
     (if matches = [] then mt_prefix mt ''/'' (tq_path q) else list_ex (match_accepts mt q) matches)"

text \<open>The backends of the rules that accept a request, for the routes of one hostname.\<close>

definition host_names :: "string \<Rightarrow> string list" where
  "host_names host = (if host = [] then [] else [host])"

definition route_backends :: "matcher \<Rightarrow> traffic \<Rightarrow> http_route \<Rightarrow> backend_ref list" where
  "route_backends mt q route =
     concat (map (\<lambda>rule. if rule_accepts mt q (rr_matches rule) then rr_backends rule else []) (hr_rules route))"

definition routed_backends :: "matcher \<Rightarrow> string \<Rightarrow> traffic \<Rightarrow> http_route list \<Rightarrow> backend_ref list" where
  "routed_backends mt host q routes =
     concat (map (route_backends mt q) (filter (\<lambda>route. hr_hostnames route = host_names host) routes))"

subsection \<open>Paths of an Ingress\<close>

text \<open>
  The paths an Ingress declares for a hostname: those of all its rules for that hostname, and the
  default backend for the empty one; an alias no rule names repeats those of the first hostname.
\<close>

definition http_rules :: "ingress \<Rightarrow> (string \<times> http_path list) list" where
  "http_rules ing =
     concat (map (\<lambda>rule. case ir_http rule of None \<Rightarrow> [] | Some paths \<Rightarrow> [(normal_host (ir_host rule), paths)]) (ing_rules ing)) @
     (case ing_default_backend ing of
        None \<Rightarrow> []
      | Some backend \<Rightarrow> [([], [\<lparr>hp_path = ''/'', hp_type = Some PathTypePrefix, hp_backend = backend\<rparr>])])"

definition rule_paths :: "(string \<times> http_path list) list \<Rightarrow> string \<Rightarrow> http_path list" where
  "rule_paths rules host = concat (map snd (filter (\<lambda>(h, _). h = host) rules))"

definition declared_paths :: "ingress \<Rightarrow> string \<Rightarrow> http_path list" where
  "declared_paths ing host =
     (let rules = http_rules ing in
      if host \<in> set (map fst rules) then rule_paths rules host
      else if rules \<noteq> [] \<and> host \<in> to_lower ` set (split_csv (annotation ing annServerAlias))
      then rule_paths rules (fst (hd rules))
      else [])"

definition path_serves :: "matcher \<Rightarrow> ingress \<Rightarrow> traffic \<Rightarrow> http_path \<Rightarrow> bool" where
  "path_serves mt ing q path \<longleftrightarrow>
     (if parse_bool (annotation ing annUseRegex) \<or> contains (annotation ing annRewriteTarget) ''$''
      then mt_regex mt (path_value path) (tq_path q)
      else if hp_type path = Some PathTypeExact then tq_path q = path_value path
      else mt_prefix mt (path_value path) (tq_path q))"

text \<open>A canary serves the requests that carry its header with its value.\<close>

definition admits :: "ingress \<Rightarrow> traffic \<Rightarrow> bool" where
  "admits ing q \<longleftrightarrow>
     (if parse_bool (annotation ing annCanary)
      then tq_header q (to_lower (trim_space (annotation ing annCanaryByHeader))) = Some (trim_space (annotation ing annCanaryByHeaderValue))
      else True)"

definition declared_backend :: "environment \<Rightarrow> ingress \<Rightarrow> http_path \<Rightarrow> backend_ref list" where
  "declared_backend env ing path =
     (case be_service (hp_backend path) of
        None \<Rightarrow> []
      | Some service \<Rightarrow>
          (case backend_port env (ing_namespace ing) (Some service) of
             Inl _ \<Rightarrow> [] | Inr port \<Rightarrow> [\<lparr>br_name = sb_name service, br_port = Some port\<rparr>]))"

definition declared_backends :: "matcher \<Rightarrow> environment \<Rightarrow> string \<Rightarrow> traffic \<Rightarrow> ingress \<Rightarrow> backend_ref list" where
  "declared_backends mt env host q ing =
     (if admits ing q then concat (map (declared_backend env ing) (filter (path_serves mt ing q) (declared_paths ing host))) else [])"

subsection \<open>The paths the code collects\<close>

definition first_rule :: "(string \<times> http_path list) list \<Rightarrow> host_paths \<Rightarrow> bool" where
  "first_rule rules st \<longleftrightarrow> (hs_ordered st = [] \<longleftrightarrow> rules = []) \<and> (rules \<noteq> [] \<longrightarrow> hd (hs_ordered st) = fst (hd rules))"

text \<open>A state of the collection that stands for the rules seen so far.\<close>

definition stands_for :: "(string \<times> http_path list) list \<Rightarrow> host_paths \<Rightarrow> bool" where
  "stands_for rules st \<longleftrightarrow> paths_ok st \<and> set (hs_ordered st) = set (map fst rules) \<and> first_rule rules st \<and>
     (\<forall>host. gm_or [] (hs_by_host st) host = rule_paths rules host)"

lemma rule_paths_append: "rule_paths (as @ bs) host = rule_paths as host @ rule_paths bs host"
  by (simp add: rule_paths_def)

lemma stands_for_append:
  assumes "stands_for rules st"
  shows "stands_for (rules @ [(host, paths)]) (append_paths host paths st)"
proof -
  have ok: "paths_ok st" using assms by (simp add: stands_for_def)
  have "first_rule (rules @ [(host, paths)]) (append_paths host paths st)"
  proof (cases rules)
    case Nil
    then have "hs_ordered st = []" using assms by (simp add: stands_for_def first_rule_def)
    then show ?thesis using Nil paths_ok_has [OF ok, of host]
      by (simp add: first_rule_def ordered_append_paths del: not_None_eq)
  next
    case (Cons r rs)
    then have "hs_ordered st \<noteq> []" "hd (hs_ordered st) = fst r" using assms by (simp_all add: stands_for_def first_rule_def)
    then show ?thesis using Cons by (simp add: first_rule_def ordered_append_paths del: not_None_eq)
  qed
  moreover have "gm_or [] (hs_by_host (append_paths host paths st)) h = rule_paths (rules @ [(host, paths)]) h" for h
    using assms by (simp add: stands_for_def gm_or_append_paths rule_paths_append) (simp add: rule_paths_def)
  ultimately show ?thesis
    using append_paths_facts [OF ok] assms by (simp add: stands_for_def)
qed

lemma stands_for_issues [simp]: "stands_for rules (st\<lparr>hs_issues := is\<rparr>) \<longleftrightarrow> stands_for rules st"
  by (simp add: stands_for_def first_rule_def paths_ok_def)

lemma stands_for_rules:
  "stands_for rules st \<Longrightarrow> stands_for (rules @ concat (map (\<lambda>rule. case ir_http rule of None \<Rightarrow> []
     | Some paths \<Rightarrow> [(normal_host (ir_host rule), paths)]) new)) (fold collect_rule new st)"
proof (induction new arbitrary: rules st)
  case (Cons r new)
  have "stands_for (rules @ (case ir_http r of None \<Rightarrow> [] | Some paths \<Rightarrow> [(normal_host (ir_host r), paths)])) (collect_rule r st)"
    using Cons.prems stands_for_append [OF Cons.prems]
    by (auto simp: collect_rule_def normal_host_def split: option.split)
  from Cons.IH [OF this] show ?case by simp
qed simp

lemma stands_for_collected:
  "stands_for (http_rules ing) (report_empty (collect_default ing
     (fold collect_rule (ing_rules ing) \<lparr>hs_by_host = [], hs_ordered = [], hs_issues = []\<rparr>)))"
proof -
  have "stands_for [] \<lparr>hs_by_host = [], hs_ordered = [], hs_issues = []\<rparr>"
    by (simp add: stands_for_def first_rule_def paths_ok_def rule_paths_def)
  from stands_for_rules [OF this, of "ing_rules ing"] show ?thesis
    using stands_for_append by (auto simp: collect_default_def http_rules_def report_empty_def split: option.split)
qed

lemma collect_aliases_paths:
  assumes "paths_ok st"
  shows "gm_or [] (hs_by_host (fold (collect_alias ing tls base) as st)) host =
    (if host \<in> set (hs_ordered st) then gm_or [] (hs_by_host st) host else if host \<in> to_lower ` set as then base else [])"
  using assms
proof (induction as arbitrary: st)
  case Nil
  then show ?case using paths_ok_has [OF Nil, of host] by (auto simp: gm_or_def)
next
  case (Cons a as)
  have has: "gm_has (hs_by_host st) (to_lower a) \<longleftrightarrow> to_lower a \<in> set (hs_ordered st)" using paths_ok_has [OF Cons.prems] by blast
  have "gm_or [] (hs_by_host (collect_alias ing tls base a st)) host =
      (if host = to_lower a \<and> host \<notin> set (hs_ordered st) then base else gm_or [] (hs_by_host st) host)"
    using has by (auto simp: collect_alias_def Let_def gomap_simps simp del: not_None_eq)
  then show ?case
    using Cons.IH [OF collect_alias_facts(1) [OF Cons.prems], of ing tls base a] collect_alias_facts(2) [OF Cons.prems, of ing tls base a] by auto
qed

lemma collected_paths:
  "gm_or [] (hs_by_host (host_paths_of ing tls)) host = declared_paths ing host"
proof -
  let ?st = "report_empty (collect_default ing (fold collect_rule (ing_rules ing) \<lparr>hs_by_host = [], hs_ordered = [], hs_issues = []\<rparr>))"
  let ?aliases = "split_csv (annotation ing annServerAlias)"
  have st: "paths_ok ?st" "set (hs_ordered ?st) = set (map fst (http_rules ing))" "first_rule (http_rules ing) ?st"
    "gm_or [] (hs_by_host ?st) h = rule_paths (http_rules ing) h" for h
    using stands_for_collected [of ing] by (simp_all add: stands_for_def)
  have none: "rule_paths (http_rules ing) host = []" if "host \<notin> fst ` set (http_rules ing)"
    using that by (force simp: rule_paths_def filter_empty_conv)
  show ?thesis
  proof (cases "?aliases = [] \<or> http_rules ing = []")
    case True
    then have "host_paths_of ing tls = ?st \<or> hs_by_host (host_paths_of ing tls) = hs_by_host ?st"
      using st(3) by (auto simp: host_paths_of_def collect_aliases_def first_rule_def Let_def)
    then have "gm_or [] (hs_by_host (host_paths_of ing tls)) host = rule_paths (http_rules ing) host" using st(4) by auto
    with True none show ?thesis by (auto simp: declared_paths_def Let_def)
  next
    case False
    then obtain f fs where f: "hs_ordered ?st = f # fs" "f = fst (hd (http_rules ing))"
      using st(3) by (cases "hs_ordered ?st") (auto simp: first_rule_def)
    then have "host_paths_of ing tls = fold (collect_alias ing tls (rule_paths (http_rules ing) f)) ?aliases ?st"
      using False st(4) by (simp add: host_paths_of_def collect_aliases_def Let_def)
    then show ?thesis
      using collect_aliases_paths [OF st(1), of ing tls "rule_paths (http_rules ing) f" ?aliases host] st(2,4) f(2) False
      by (simp add: declared_paths_def Let_def)
  qed
qed

lemma filter_same: "distinct xs \<Longrightarrow> filter (\<lambda>x. x = k) xs = (if k \<in> set xs then [k] else [])"
  by (induction xs) (auto simp: filter_empty_conv)

lemma host_inputs:
  "concat (map (\<lambda>input. g (hi_paths input)) (filter (\<lambda>input. hi_hostname input = host) (fst (collect_hosts ing options)))) =
     (if host \<in> routed_hostnames ing then g (declared_paths ing host) else [])"
proof -
  let ?tls = "fst (input_tls_hosts ing options)"
  let ?st = "host_paths_of ing ?tls"
  have ok: "distinct (hs_ordered ?st)" "set (hs_ordered ?st) = routed_hostnames ing"
    using host_paths_of_facts [of ing ?tls] by (simp_all add: paths_ok_def)
  have paths: "hi_paths (host_input_of options ?tls ?st h) = declared_paths ing h" for h
    using collected_paths [of ing ?tls h] by (simp add: host_input_of_def Let_def)
  have "concat (map (\<lambda>h. g (declared_paths ing h)) (filter (\<lambda>h. h = host) (hs_ordered ?st))) =
      (if host \<in> routed_hostnames ing then g (declared_paths ing host) else [])"
    using ok by (simp add: filter_same)
  then show ?thesis
    by (simp add: collect_hosts_fst filter_map comp_def paths)
qed

lemma input_of_host:
  assumes "host \<in> routed_hostnames ing"
  shows "\<exists>input \<in> set (fst (collect_hosts ing options)). hi_hostname input = host \<and> hi_paths input = declared_paths ing host"
proof -
  have "host \<in> set (hs_ordered (host_paths_of ing (fst (input_tls_hosts ing options))))"
    using assms host_paths_of_facts(2) by blast
  then show ?thesis
    using collected_paths [of ing "fst (input_tls_hosts ing options)" host]
    by (auto simp: collect_hosts_fst host_input_of_def Let_def)
qed

subsection \<open>Canaries by hostname\<close>

lemma claim_footprints_by_host: "cs_by_host (fold (claim_footprint name host) paths st) = cs_by_host st"
  by (induction paths arbitrary: st) (auto simp: claim_footprint_def Let_def split: option.split)

lemma collect_canary_inputs:
  "gm_or [] (cs_by_host (fold (collect_canary_input canary) inputs st)) host =
     gm_or [] (cs_by_host st) host @ map (\<lambda>i. \<lparr>ca_ingress = canary, ca_input = i\<rparr>) (filter (\<lambda>i. hi_hostname i = host) inputs)"
proof (induction inputs arbitrary: st)
  case (Cons i inputs)
  have "gm_or [] (cs_by_host (collect_canary_input canary i st)) host =
      gm_or [] (cs_by_host st) host @ (if hi_hostname i = host then [\<lparr>ca_ingress = canary, ca_input = i\<rparr>] else [])"
    by (simp add: collect_canary_input_def claim_footprints_by_host multi_put_def gomap_simps Let_def)
  with Cons.IH show ?case by simp
qed simp

lemma collected_canaries:
  "gm_or [] (cs_by_host (collect_canaries ing options)) host =
     concat (map (\<lambda>c. map (\<lambda>i. \<lparr>ca_ingress = inherited_canary_ingress ing c, ca_input = i\<rparr>)
       (filter (\<lambda>i. hi_hostname i = host) (fst (collect_hosts (inherited_canary_ingress ing c) options)))) (op_canaries options))"
proof -
  have "gm_or [] (cs_by_host (fold (collect_canary ing options) cs st)) host = gm_or [] (cs_by_host st) host @
      concat (map (\<lambda>c. map (\<lambda>i. \<lparr>ca_ingress = inherited_canary_ingress ing c, ca_input = i\<rparr>)
        (filter (\<lambda>i. hi_hostname i = host) (fst (collect_hosts (inherited_canary_ingress ing c) options)))) cs)" for cs st
  proof (induction cs arbitrary: st)
    case (Cons c cs)
    have "gm_or [] (cs_by_host (collect_canary ing options c st)) host = gm_or [] (cs_by_host st) host @
        map (\<lambda>i. \<lparr>ca_ingress = inherited_canary_ingress ing c, ca_input = i\<rparr>)
          (filter (\<lambda>i. hi_hostname i = host) (fst (collect_hosts (inherited_canary_ingress ing c) options)))"
      by (simp add: collect_canary_def collect_canary_inputs Let_def split: prod.split)
    with Cons.IH show ?case by simp
  qed simp
  then show ?thesis by (simp add: collect_canaries_def)
qed

lemma canary_rules_append: "canary_rules env (as @ bs) = canary_rules env as @ canary_rules env bs"
  by (simp add: canary_rules_def)

lemma canary_rules_same:
  "canary_rules env (map (\<lambda>i. \<lparr>ca_ingress = canary, ca_input = i\<rparr>) inputs) =
     concat (map (\<lambda>i. primary_rules env canary (hi_paths i)) inputs)"
  by (simp add: canary_rules_def comp_def)

text \<open>The canary rules of a hostname, from what the canaries declare for it.\<close>

definition canary_declared :: "environment \<Rightarrow> ingress \<Rightarrow> string \<Rightarrow> ingress \<Rightarrow> core_rule list" where
  "canary_declared env ing host raw =
     (let canary = inherited_canary_ingress ing raw in primary_rules env canary (declared_paths canary host))"

lemma declared_paths_unrouted: "host \<notin> routed_hostnames ing \<Longrightarrow> declared_paths ing host = []"
  unfolding declared_paths_def Let_def http_rules_def routed_hostnames_def rule_hostnames_def
  by (auto split: option.splits if_splits)

lemma canary_rules_of:
  "canary_rules env (gm_or [] (cs_by_host (collect_canaries ing options)) host) =
     concat (map (canary_declared env ing host) (op_canaries options))"
proof -
  have one: "canary_rules env (map (\<lambda>i. \<lparr>ca_ingress = inherited_canary_ingress ing c, ca_input = i\<rparr>)
      (filter (\<lambda>i. hi_hostname i = host) (fst (collect_hosts (inherited_canary_ingress ing c) options)))) = canary_declared env ing host c" for c
    using host_inputs [of "primary_rules env (inherited_canary_ingress ing c)" host "inherited_canary_ingress ing c" options]
      declared_paths_unrouted [of host "inherited_canary_ingress ing c"]
    by (simp add: canary_rules_same canary_declared_def primary_rules_def Let_def split: if_splits)
  have "canary_rules env (concat (map (\<lambda>c. map (\<lambda>i. \<lparr>ca_ingress = inherited_canary_ingress ing c, ca_input = i\<rparr>)
      (filter (\<lambda>i. hi_hostname i = host) (fst (collect_hosts (inherited_canary_ingress ing c) options)))) cs)) =
      concat (map (canary_declared env ing host) cs)" for cs
    by (induction cs) (simp_all add: canary_rules_append one, simp add: canary_rules_def)
  then show ?thesis unfolding collected_canaries .
qed

subsection \<open>The backends of a plan\<close>

definition core_backends :: "matcher \<Rightarrow> traffic \<Rightarrow> core_rule list \<Rightarrow> backend_ref list" where
  "core_backends mt q rules = concat (map (\<lambda>(matches, filters, backends). if rule_accepts mt q matches then backends else []) rules)"

lemma core_backends_append: "core_backends mt q (as @ bs) = core_backends mt q as @ core_backends mt q bs"
  by (simp add: core_backends_def)

lemma core_backends_vhost [simp]: "core_backends mt q (map (with_vhost env ing) rules) = core_backends mt q rules"
  by (induction rules) (auto simp: core_backends_def with_vhost_def)

lemma route_backends_core: "route_backends mt q route = core_backends mt q (map rule_core (hr_rules route))"
  by (simp add: route_backends_def core_backends_def rule_core_def comp_def)

lemma routed_backends_core:
  "routed_backends mt host q routes = concat (map (\<lambda>(meta, parents, hostnames, rules). core_backends mt q rules)
     (filter (\<lambda>(meta, parents, hostnames, rules). hostnames = host_names host) (map route_core routes)))"
  by (simp add: routed_backends_def route_backends_core [abs_def] filter_map comp_def route_core_def)

lemma host_names_inject [simp]: "host_names a = host_names b \<longleftrightarrow> a = b"
  by (auto simp: host_names_def)

lemma expected_backends:
  "concat (map (\<lambda>(meta, parents, hostnames, rules). core_backends mt q rules)
     (filter (\<lambda>(meta, parents, hostnames, rules). hostnames = host_names host) (expected_routes env ing options input))) =
   (if hi_hostname input = host then core_backends mt q (primary_rules env ing (hi_paths input) @
      canary_rules env (gm_or [] (cs_by_host (collect_canaries ing options)) host)) else [])"
proof -
  have "core_backends mt q (map rule_core (hr_rules (build_redirect_route ing h options))) = []" for h
    by (simp add: build_redirect_route_def rule_core_def core_backends_def)
  then show ?thesis
    unfolding expected_routes_def application_core_def route_core_def host_names_def [symmetric] by (simp add: core_backends_append)
qed

lemma routed_from_inputs:
  "routed_backends mt host q (pl_routes (translate env ing options)) =
     (if host \<in> routed_hostnames ing
      then core_backends mt q (primary_rules env ing (declared_paths ing host)) @
        concat (map (\<lambda>raw. core_backends mt q (canary_declared env ing host raw)) (op_canaries options))
      else [])"
proof -
  let ?canary = "concat (map (canary_declared env ing host) (op_canaries options))"
  let ?g = "\<lambda>paths. core_backends mt q (primary_rules env ing paths @ ?canary)"
  have split: "core_backends mt q (concat (map (canary_declared env ing host) cs)) =
      concat (map (\<lambda>raw. core_backends mt q (canary_declared env ing host raw)) cs)" for cs
    by (induction cs) (simp_all add: core_backends_append, simp add: core_backends_def)
  have flat: "concat (map b (filter p (concat (map f inputs)))) = concat (map (\<lambda>i. concat (map b (filter p (f i)))) inputs)"
    for b :: "core_route \<Rightarrow> backend_ref list" and p and f :: "host_input \<Rightarrow> core_route list" and inputs
    by (induction inputs) simp_all
  have "concat (map (\<lambda>i. if hi_hostname i = host then ?g (hi_paths i) else []) inputs) =
      concat (map (\<lambda>i. ?g (hi_paths i)) (filter (\<lambda>i. hi_hostname i = host) inputs))" for inputs :: "host_input list"
    by (induction inputs) simp_all
  then have "routed_backends mt host q (pl_routes (translate env ing options)) =
      concat (map (\<lambda>i. ?g (hi_paths i)) (filter (\<lambda>i. hi_hostname i = host) (fst (collect_hosts ing options))))"
    unfolding routed_backends_core translate_routes flat expected_backends canary_rules_of by simp
  also have "\<dots> = (if host \<in> routed_hostnames ing then ?g (declared_paths ing host) else [])"
    by (rule host_inputs)
  finally show ?thesis by (simp add: core_backends_append split)
qed

text \<open>What the checks of a plan say of the header of a canary.\<close>

definition canary_ok :: "ingress \<Rightarrow> bool" where
  "canary_ok ing \<longleftrightarrow> \<not> (parse_bool (annotation ing annCanary) \<and> fst (header_canary_match (ing_annotations ing)) = None)"

lemma validate_canary_ok: "\<not> list_ex issue_fatal (validate_canary ing) \<Longrightarrow> canary_ok ing"
  by (auto simp: canary_ok_def validate_canary_def header_canary_match_def Let_def split: if_splits)

lemma path_serves_match:
  "path_matches mt (match_type_of ing path, path_value path) (tq_path q) = path_serves mt ing q path"
  by (auto simp: path_matches_def match_type_of_def path_serves_def split: option.split path_type.split)

text \<open>The headers a rule of an Ingress matches on.\<close>

definition rule_headers :: "ingress \<Rightarrow> header_match list" where
  "rule_headers ing =
     (if parse_bool (annotation ing annCanary)
      then (case fst (header_canary_match (ing_annotations ing)) of None \<Rightarrow> [] | Some h \<Rightarrow> [h]) else [])"

lemma build_rule_parts:
  "rr_matches (fst (build_rule env ing path i)) =
     [\<lparr>rm_path = Some (match_type_of ing path, path_value path), rm_headers = rule_headers ing, rm_query = [], rm_method = None\<rparr>]"
  "rr_backends (fst (build_rule env ing path i)) =
     [\<lparr>br_name = (case be_service (hp_backend path) of None \<Rightarrow> [] | Some b \<Rightarrow> sb_name b),
       br_port = Some (case backend_port env (ing_namespace ing) (be_service (hp_backend path)) of Inl _ \<Rightarrow> 0 | Inr p \<Rightarrow> p)\<rparr>]"
  by (simp_all add: build_rule_def rule_headers_def Let_def split: prod.split)

lemma rule_headers_admit: "canary_ok ing \<Longrightarrow> list_all (header_matches q) (rule_headers ing) \<longleftrightarrow> admits ing q"
  by (auto simp: rule_headers_def canary_ok_def admits_def header_canary_match_def header_matches_def annotation_def Let_def)

lemma core_backends_rule: "core_backends mt q (rule_core r # rules) =
    (if rule_accepts mt q (rr_matches r) then rr_backends r else []) @ core_backends mt q rules"
  by (simp add: core_backends_def rule_core_def)

lemma declared_rules:
  assumes "list_all (backend_found env ing) paths" and "canary_ok ing"
  shows "core_backends mt q (primary_rules env ing paths) =
    (if admits ing q then concat (map (declared_backend env ing) (filter (path_serves mt ing q) paths)) else [])"
  using assms(1)
proof (induction paths)
  case (Cons path paths)
  from Cons.prems obtain port service where port: "backend_port env (ing_namespace ing) (be_service (hp_backend path)) = Inr port"
    "be_service (hp_backend path) = Some service"
    by (cases "be_service (hp_backend path)") (auto simp: backend_found_def backend_port_def split: sum.splits)
  have "rule_accepts mt q (rr_matches (fst (build_rule env ing path 0))) \<longleftrightarrow> path_serves mt ing q path \<and> admits ing q"
    by (simp add: build_rule_parts rule_accepts_def match_accepts_def path_serves_match rule_headers_admit [OF assms(2)])
  moreover have "rr_backends (fst (build_rule env ing path 0)) = declared_backend env ing path"
    using port by (simp add: build_rule_parts declared_backend_def)
  ultimately have "core_backends mt q (primary_rules env ing (path # paths)) =
      (if path_serves mt ing q path \<and> admits ing q then declared_backend env ing path else []) @ core_backends mt q (primary_rules env ing paths)"
    by (simp add: primary_rules_def core_backends_rule)
  with Cons show ?case by auto
qed (simp add: primary_rules_def core_backends_def)

lemma canary_checks:
  assumes "\<not> list_ex issue_fatal (cs_issues (collect_canaries ing options))" and "raw \<in> set (op_canaries options)"
  shows "canary_ok (inherited_canary_ingress ing raw)"
proof -
  have claim: "set (cs_issues st) \<subseteq> set (cs_issues (fold (claim_footprint name host) paths st))" for name host paths st
    by (induction paths arbitrary: st) (force simp: claim_footprint_def Let_def split: option.split)+
  have input: "set (cs_issues st) \<subseteq> set (cs_issues (fold (collect_canary_input canary) inputs st))" for canary inputs st
    using claim by (induction inputs arbitrary: st) (force simp: collect_canary_input_def Let_def)+
  have one: "set (cs_issues st) \<union> set (validate_canary raw) \<subseteq> set (cs_issues (collect_canary ing options raw st))" for raw st
    using input by (force simp: collect_canary_def Let_def split: prod.split)
  have "set (cs_issues st) \<subseteq> set (cs_issues (fold (collect_canary ing options) cs st)) \<and>
      (\<forall>raw \<in> set cs. set (validate_canary raw) \<subseteq> set (cs_issues (fold (collect_canary ing options) cs st)))" for cs st
  proof (induction cs arbitrary: st)
    case (Cons c cs)
    from Cons.IH [of "collect_canary ing options c st"] one [of st c] show ?case by auto
  qed simp
  with assms have "\<not> list_ex issue_fatal (validate_canary raw)"
    unfolding collect_canaries_def list_ex_iff by blast
  then have "canary_ok raw" by (rule validate_canary_ok)
  moreover have "annotation (inherited_canary_ingress ing raw) key = annotation raw key"
    if "key \<in> {annCanary, annCanaryByHeader, annCanaryByHeaderValue}" for key
    using inherited_canary_annotations [of ing raw key] that by (auto simp: annotation_def gm_or_def)
  ultimately show ?thesis by (simp add: canary_ok_def header_canary_match_def annotation_def Let_def)
qed

text \<open>
  C2. Traffic keeps its destination. For every hostname an Ingress routes and every request to it,
  the rules of the generated routes that accept the request lead to exactly the backends the Ingress
  declares, in the order of its rules: the backends of its own paths that serve the request, and then
  those of each of its canaries when the request carries the header and value of the canary. An
  alias serves the paths of the first hostname; a hostname the Ingress does not name gets no backend.
\<close>

theorem requests_routed_as_declared:
  "plan_fatal (translate env ing options) \<or>
   routed_backends mt host q (pl_routes (translate env ing options)) =
     (if host \<in> routed_hostnames ing
      then declared_backends mt env host q ing @
        concat (map (\<lambda>raw. declared_backends mt env host q (inherited_canary_ingress ing raw)) (op_canaries options))
      else [])"
proof (cases "plan_fatal (translate env ing options) \<or> host \<notin> routed_hostnames ing")
  case True
  then show ?thesis by (auto simp: routed_from_inputs)
next
  case False
  then have nf: "\<not> plan_fatal (translate env ing options)" and host: "host \<in> routed_hostnames ing" by auto
  have start: "\<not> list_ex issue_fatal (validate_canary ing)" "\<not> list_ex issue_fatal (cs_issues (collect_canaries ing options))"
    using translate_start_ok [OF nf] by (simp_all add: start_issues_def)
  obtain input where input: "input \<in> set (fst (collect_hosts ing options))" "hi_hostname input = host" "hi_paths input = declared_paths ing host"
    using input_of_host [OF host] by blast
  note checked = translate_checked [OF nf input(1)]
  have own: "core_backends mt q (primary_rules env ing (declared_paths ing host)) = declared_backends mt env host q ing"
    using checked declared_rules [OF _ validate_canary_ok [OF start(1)]] input by (simp add: input_checked_def declared_backends_def Let_def)
  have "core_backends mt q (canary_declared env ing host raw) = declared_backends mt env host q (inherited_canary_ingress ing raw)"
    if raw: "raw \<in> set (op_canaries options)" for raw
  proof -
    let ?c = "inherited_canary_ingress ing raw"
    have "list_all (backend_found env ?c) (declared_paths ?c host)"
    proof (cases "host \<in> routed_hostnames ?c")
      case True
      from input_of_host [OF this] obtain i where "i \<in> set (fst (collect_hosts ?c options))" "hi_hostname i = host" "hi_paths i = declared_paths ?c host"
        by blast
      with raw have "\<lparr>ca_ingress = ?c, ca_input = i\<rparr> \<in> set (gm_or [] (cs_by_host (collect_canaries ing options)) host)"
        unfolding collected_canaries by auto
      with checked \<open>hi_paths i = _\<close> input(2) show ?thesis by (force simp: input_checked_def list_all_iff Let_def)
    qed (simp add: declared_paths_unrouted)
    then show ?thesis
      using declared_rules [OF _ canary_checks [OF start(2) raw]] by (simp add: canary_declared_def declared_backends_def Let_def)
  qed
  then show ?thesis using host own by (simp add: routed_from_inputs cong: map_cong)
qed

end
