(* ===== verification/Dependencies.thy ===== *)
theory Dependencies
  imports Routing Reconcile
begin

text \<open>
  Whether the watches of \<^verbatim>\<open>internal/controller/ingress_controller.go\<close> cover what
  \<^verbatim>\<open>internal/translator/translate.go\<close> reads: a change of a Service or a ConfigMap that requests no
  reconciliation of an Ingress cannot change its translation.
\<close>

subsection \<open>Answers that agree\<close>

text \<open>Two environments that agree on the Services of \<open>P\<close> and the ConfigMaps of \<open>Q\<close>.\<close>

definition ports_agree :: "(string \<Rightarrow> string \<Rightarrow> bool) \<Rightarrow> environment \<Rightarrow> environment \<Rightarrow> bool" where
  "ports_agree P env env' \<longleftrightarrow>
     (case en_resolve_port env of
        None \<Rightarrow> en_resolve_port env' = None
      | Some f \<Rightarrow> (case en_resolve_port env' of
          None \<Rightarrow> False | Some g \<Rightarrow> \<forall>ns name port. if P ns name then g ns name port = f ns name port else True))"

definition configs_agree :: "(string \<Rightarrow> string \<Rightarrow> bool) \<Rightarrow> environment \<Rightarrow> environment \<Rightarrow> bool" where
  "configs_agree Q env env' \<longleftrightarrow>
     (case en_resolve_config env of
        None \<Rightarrow> en_resolve_config env' = None
      | Some f \<Rightarrow> (case en_resolve_config env' of
          None \<Rightarrow> False | Some g \<Rightarrow> \<forall>ns name. if Q ns name then g ns name = f ns name else True))"

definition checks_agree :: "environment \<Rightarrow> environment \<Rightarrow> bool" where
  "checks_agree env env' \<longleftrightarrow> en_dns1123 env' = en_dns1123 env \<and> en_parse_url env' = en_parse_url env"

subsection \<open>Policies read no Service and no ConfigMap\<close>

lemma checks_same:
  assumes "checks_agree env env'"
  shows "add_policies env' = add_policies env" and "protocol_settings env' = protocol_settings env"
proof -
  note a = assms [unfolded checks_agree_def, THEN conjunct1] assms [unfolded checks_agree_def, THEN conjunct2]
  have "add_upstream_vhost_rewrite env' = add_upstream_vhost_rewrite env"
    by (intro ext) (unfold add_upstream_vhost_rewrite_def a, rule refl)
  moreover have "auth_url_error env' = auth_url_error env"
    by (intro ext) (unfold auth_url_error_def a, rule refl)
  then have "external_auth_snippets env' = external_auth_snippets env"
    by (intro ext) (unfold external_auth_snippets_def, simp only:)
  then have "external_auth env' = external_auth env"
    by (intro ext) (unfold external_auth_def, simp only:)
  then have "build_snippets env' = build_snippets env"
    by (intro ext) (unfold build_snippets_def, simp only:)
  then have "add_snippets env' = add_snippets env"
    by (intro ext) (unfold add_snippets_def, simp only:)
  ultimately show "add_policies env' = add_policies env"
    by (intro ext) (unfold add_policies_def, simp only:)
  have "parse_backend_tls env' = parse_backend_tls env"
    by (intro ext) (unfold parse_backend_tls_def a, rule refl)
  then show "protocol_settings env' = protocol_settings env"
    by (intro ext) (unfold protocol_settings_def, simp only:)
qed

subsection \<open>Rules read the Services of their paths\<close>

definition path_in :: "(string \<Rightarrow> string \<Rightarrow> bool) \<Rightarrow> string \<Rightarrow> http_path \<Rightarrow> bool" where
  "path_in P namespace path \<longleftrightarrow> (case be_service (hp_backend path) of None \<Rightarrow> True | Some s \<Rightarrow> P namespace (sb_name s))"

lemma backend_port_same:
  assumes "ports_agree P env env'" and "path_in P namespace path"
  shows "backend_port env' namespace (be_service (hp_backend path)) = backend_port env namespace (be_service (hp_backend path))"
  using assms unfolding backend_port_def ports_agree_def path_in_def by (auto split: option.splits)

lemma build_rule_same:
  assumes "ports_agree P env env'" and "path_in P (ing_namespace ing) path"
  shows "build_rule env' ing path index = build_rule env ing path index"
  unfolding build_rule_def backend_port_same [OF assms] by (rule refl)

lemma build_rules_same:
  assumes "ports_agree P env env'" and "list_all (path_in P (ing_namespace ing)) paths"
  shows "build_rules env' ing index paths = build_rules env ing index paths"
  using assms(2) by (induction paths arbitrary: index) (simp_all add: build_rule_same [OF assms(1)])

lemma build_route_same:
  assumes "ports_agree P env env'" and "list_all (path_in P (ing_namespace ing)) (hi_paths input)"
  shows "build_route env' ing input options = build_route env ing input options"
  unfolding build_route_def build_rules_same [OF assms] by (rule refl)

lemma add_canary_rules_same:
  assumes "ports_agree P env env'"
    and "list_all (\<lambda>c. list_all (path_in P (ing_namespace (ca_ingress c))) (hi_paths (ca_input c))) canaries"
  shows "add_canary_rules env' canaries st = add_canary_rules env canaries st"
proof -
  have one: "fold (add_canary_path env' ing) paths st = fold (add_canary_path env ing) paths st"
    if "list_all (path_in P (ing_namespace ing)) paths" for ing paths st
    using that by (induction paths arbitrary: st) (simp_all add: add_canary_path_def build_rule_same [OF assms(1)])
  show ?thesis
    unfolding add_canary_rules_def using assms(2) by (induction canaries arbitrary: st) (simp_all add: one)
qed

subsection \<open>The paths of an Ingress\<close>

definition refers_in :: "(string \<Rightarrow> string \<Rightarrow> bool) \<Rightarrow> ingress \<Rightarrow> bool" where
  "refers_in P ing \<longleftrightarrow> (\<forall>service. if ingress_references_service ing service then P (ing_namespace ing) service else True)"

lemma declared_path_referred:
  assumes "path \<in> set (declared_paths ing host)" and "be_service (hp_backend path) = Some s"
  shows "ingress_references_service ing (sb_name s)"
proof -
  obtain h paths where "(h, paths) \<in> set (http_rules ing)" "path \<in> set paths"
    using assms(1) by (auto simp: declared_paths_def rule_paths_def Let_def split: if_splits)
  then consider rule where "rule \<in> set (ing_rules ing)" "ir_http rule = Some paths"
    | backend where "ing_default_backend ing = Some backend" "hp_backend path = backend"
    unfolding http_rules_def by (cases "ing_default_backend ing") (auto split: option.splits)
  then show ?thesis
    using assms(2) \<open>path \<in> set paths\<close> by cases (force simp: ingress_references_service_def list_ex_iff)+
qed

lemma input_paths: "input \<in> set (fst (collect_hosts ing options)) \<Longrightarrow> hi_paths input = declared_paths ing (hi_hostname input)"
  using collected_paths [of ing "fst (input_tls_hosts ing options)"] by (auto simp: collect_hosts_fst host_input_of_def Let_def)

lemma inputs_referred:
  assumes "refers_in P ing" and "input \<in> set (fst (collect_hosts ing options))"
  shows "list_all (path_in P (ing_namespace ing)) (hi_paths input)"
  unfolding input_paths [OF assms(2)] list_all_iff path_in_def
proof (intro ballI)
  fix path assume path: "path \<in> set (declared_paths ing (hi_hostname input))"
  show "case be_service (hp_backend path) of None \<Rightarrow> True | Some s \<Rightarrow> P (ing_namespace ing) (sb_name s)"
    using declared_path_referred [OF path] assms(1) unfolding refers_in_def by (auto split: option.split)
qed

lemma inherited_refers: "refers_in P (inherited_canary_ingress ing raw) = refers_in P raw"
  by (simp add: refers_in_def inherited_canary_ingress_def ingress_references_service_def)

lemma canaries_referred:
  assumes "list_all (refers_in P) (op_canaries options)"
  shows "list_all (\<lambda>c. list_all (path_in P (ing_namespace (ca_ingress c))) (hi_paths (ca_input c)))
    (gm_or [] (cs_by_host (collect_canaries ing options)) host)"
  using assms inputs_referred inherited_refers unfolding collected_canaries by (fastforce simp: list_all_iff)

subsection \<open>The translation\<close>

lemma headers_same:
  assumes "configs_agree Q env env'"
    and "\<And>name. config_map_name ing (trim_space (annotation ing annAuthProxySetHeaders)) = Some name \<Longrightarrow>
      trim_space (annotation ing annAuthProxySetHeaders) \<noteq> [] \<Longrightarrow> Q (ing_namespace ing) name"
  shows "resolve_auth_proxy_headers env' ing = resolve_auth_proxy_headers env ing"
  using assms unfolding resolve_auth_proxy_headers_def configs_agree_def Let_def by (auto split: option.splits)

lemma translate_same:
  assumes "checks_agree env env'" and "ports_agree P env env'" and "refers_in P ing" and "list_all (refers_in P) (op_canaries options)"
    and "resolve_auth_proxy_headers env' ing = resolve_auth_proxy_headers env ing"
  shows "translate env' ing options = translate env ing options"
proof -
  let ?canaries = "cs_by_host (collect_canaries ing options)"
  have host: "translate_host env' ing options ?canaries headers tls input p = translate_host env ing options ?canaries headers tls input p"
    if "input \<in> set (fst (collect_hosts ing options))" for headers tls input p
    unfolding translate_host_def checks_same [OF assms(1)] build_route_same [OF assms(2) inputs_referred [OF assms(3) that]]
      add_canary_rules_same [OF assms(2) canaries_referred [OF assms(4)]] by (rule refl)
  have "fold (translate_host env' ing options ?canaries headers tls) (fst (collect_hosts ing options)) p =
      fold (translate_host env ing options ?canaries headers tls) (fst (collect_hosts ing options)) p" for headers tls p
    by (intro fold_cong refl ext host)
  then show ?thesis
    unfolding translate_def checks_same [OF assms(1)] assms(5) by (simp add: Let_def split_beta)
qed

subsection \<open>Changes\<close>

text \<open>The answers before and after a change of one Service, or of one ConfigMap.\<close>

definition service_changed :: "nsname \<Rightarrow> environment \<Rightarrow> environment \<Rightarrow> bool" where
  "service_changed s env env' \<longleftrightarrow>
     (\<exists>f g. en_resolve_port env = Some f \<and> env' = env\<lparr>en_resolve_port := Some g\<rparr> \<and>
        (\<forall>ns name port. if nsname ns name = s then True else g ns name port = f ns name port))"

definition config_map_changed :: "nsname \<Rightarrow> environment \<Rightarrow> environment \<Rightarrow> bool" where
  "config_map_changed s env env' \<longleftrightarrow>
     (\<exists>f g. en_resolve_config env = Some f \<and> env' = env\<lparr>en_resolve_config := Some g\<rparr> \<and>
        (\<forall>ns name. if nsname ns name = s then True else g ns name = f ns name))"

text \<open>A change that requests the Ingress, by the handler of the watch for its kind.\<close>

definition unrequested :: "config \<Rightarrow> lister \<Rightarrow> ingress \<Rightarrow> nsname \<Rightarrow> environment \<Rightarrow> environment \<Rightarrow> bool" where
  "unrequested c listed ing s env env' \<longleftrightarrow>
     service_changed s env env' \<and> ing_key ing \<notin> set (service_to_ingresses c listed s) \<or>
     config_map_changed s env env' \<and> ing_key ing \<notin> set (config_map_to_ingresses listed s)"

lemma unrequested_service:
  assumes "service_changed s env env'" and "ing_key ing \<notin> set (service_to_ingresses c listed s)"
    and "listed (ing_namespace ing) = Some ings" and "ing \<in> set ings" and "selected c ing"
    and "list_all (\<lambda>canary. canary \<in> set ings \<and> selected c canary \<and> ing_namespace canary = ing_namespace ing) (op_canaries options)"
  shows "translate env' ing options = translate env ing options"
proof -
  let ?P = "\<lambda>ns name. nsname ns name \<noteq> s"
  have "\<not> ingress_references_service i (nn_name s)" if "i \<in> set ings" "selected c i" "nn_namespace s = ing_namespace ing" for i
    using assms(2-5) that by (auto simp: service_to_ingresses_def selected_requests_def list_ex_iff split: if_splits)
  then have refers: "refers_in ?P i" if "i \<in> set ings" "selected c i" "ing_namespace i = ing_namespace ing" for i
    using that by (cases s) (auto simp: refers_in_def)
  show ?thesis
  proof (rule translate_same [where P = ?P])
    show "checks_agree env env'" "ports_agree ?P env env'"
      using assms(1) by (auto simp: service_changed_def checks_agree_def ports_agree_def)
    show "refers_in ?P ing" "list_all (refers_in ?P) (op_canaries options)"
      using refers assms(4-6) by (auto simp: list_all_iff)
    have "en_resolve_config env' = en_resolve_config env" using assms(1) by (auto simp: service_changed_def)
    then show "resolve_auth_proxy_headers env' ing = resolve_auth_proxy_headers env ing"
      unfolding resolve_auth_proxy_headers_def by (simp only:)
  qed
qed

lemma unrequested_config_map:
  assumes "config_map_changed s env env'" and "ing_key ing \<notin> set (config_map_to_ingresses listed s)"
    and "listed (ing_namespace ing) = Some ings" and "ing \<in> set ings"
  shows "translate env' ing options = translate env ing options"
proof (rule translate_same [where P = "\<lambda>_ _. True"])
  show "checks_agree env env'" "ports_agree (\<lambda>_ _. True) env env'"
    using assms(1) by (auto simp: config_map_changed_def checks_agree_def ports_agree_def split: option.split)
  show "refers_in (\<lambda>_ _. True) ing" "list_all (refers_in (\<lambda>_ _. True)) (op_canaries options)"
    by (simp_all add: refers_in_def list_all_iff)
  show "resolve_auth_proxy_headers env' ing = resolve_auth_proxy_headers env ing"
  proof (rule headers_same [where Q = "\<lambda>ns name. nsname ns name \<noteq> s"])
    show "configs_agree (\<lambda>ns name. nsname ns name \<noteq> s) env env'"
      using assms(1) by (auto simp: config_map_changed_def configs_agree_def)
    fix name assume name: "config_map_name ing (trim_space (annotation ing annAuthProxySetHeaders)) = Some name"
    show "nsname (ing_namespace ing) name \<noteq> s"
    proof
      assume s: "nsname (ing_namespace ing) name = s"
      have "trim_space (annotation ing annAuthProxySetHeaders) = name \<or>
          trim_space (annotation ing annAuthProxySetHeaders) = ing_namespace ing @ ''/'' @ name"
        using name by (auto simp: config_map_name_def cut_at_Some split: option.splits if_splits)
      then show False
        using assms(2-4) unfolding s [symmetric] by (auto simp: config_map_to_ingresses_def Let_def)
    qed
  qed
qed

text \<open>
  C13. The watches cover what the translation reads. When a Service or a ConfigMap changes and its
  handler does not request a selected Ingress, then the translation of that Ingress, the canaries
  consolidated into it included, is the same before and after the change, so no generated object goes
  stale.
\<close>

theorem unrequested_change_harmless:
  assumes "unrequested c listed ing s env env'"
    and "listed (ing_namespace ing) = Some ings" and "ing \<in> set ings" and "selected c ing"
    and "list_all (\<lambda>canary. canary \<in> set ings \<and> selected c canary \<and> ing_namespace canary = ing_namespace ing) (op_canaries options)"
  shows "translate env' ing options = translate env ing options"
  using assms(1) unfolding unrequested_def
proof (elim disjE conjE)
  assume "service_changed s env env'" "ing_key ing \<notin> set (service_to_ingresses c listed s)"
  then show ?thesis by (rule unrequested_service) (rule assms)+
next
  assume "config_map_changed s env env'" "ing_key ing \<notin> set (config_map_to_ingresses listed s)"
  then show ?thesis by (rule unrequested_config_map) (rule assms)+
qed

text \<open>An Ingress with a named port of the Service \<^verbatim>\<open>web\<close>, while the Service \<^verbatim>\<open>other\<close> changes.\<close>

definition backed_ingress :: ingress where
  "backed_ingress = (sample_ingress ''app'' ''a.example'' ''tls'')\<lparr>ing_rules := [\<lparr>ir_host = ''a.example'',
     ir_http = Some [\<lparr>hp_path = ''/'', hp_type = None,
       hp_backend = \<lparr>be_service = Some \<lparr>sb_name = ''web'', sb_port_name = ''http'', sb_port_number = 0\<rparr>\<rparr>\<rparr>]\<rparr>]\<rparr>"

definition port_environment :: "int \<Rightarrow> environment" where
  "port_environment port = \<lparr>en_resolve_port = Some (\<lambda>ns name _. Inr (if ns = ''app'' \<and> name = ''other'' then port else 8080)), en_resolve_config = None,
     en_dns1123 = (\<lambda>_. True), en_parse_url = (\<lambda>_. None)\<rparr>"

theorem unrequested_change_harmless_witness:
  "translate (port_environment 81) backed_ingress (translate_options sample_config None) =
     translate (port_environment 80) backed_ingress (translate_options sample_config None)"
proof (rule unrequested_change_harmless [where listed = "\<lambda>_. Some [backed_ingress]" and s = "nsname ''app'' ''other''"
      and c = sample_config and ings = "[backed_ingress]"])
  have "service_changed (nsname ''app'' ''other'') (port_environment 80) (port_environment 81)"
    by (auto simp: service_changed_def port_environment_def)
  moreover have "service_to_ingresses sample_config (\<lambda>_. Some [backed_ingress]) (nsname ''app'' ''other'') = []"
    by (simp add: service_to_ingresses_def ingress_references_service_def backed_ingress_def sample_ingress_def)
  ultimately show "unrequested sample_config (\<lambda>_. Some [backed_ingress]) backed_ingress (nsname ''app'' ''other'')
      (port_environment 80) (port_environment 81)"
    by (simp add: unrequested_def)
  show "selected sample_config backed_ingress"
    by (simp add: selected_def sample_config_def backed_ingress_def sample_ingress_def annotation_def ingress_class_def)
qed (simp_all add: translate_options_def)

end
