(* ===== verification/CertificateLife.thy ===== *)
theory CertificateLife
  imports ManagedReconcile
begin

text \<open>
  The snapshot of certificates of \<^verbatim>\<open>internal/controller/certificates.go\<close> over time: Ingresses and
  Secrets change, \<^verbatim>\<open>secretEventHandler\<close> queues the certificate sync, plans read and prune the
  snapshot, and the sync request forgets it.
\<close>

subsection \<open>The state and its steps\<close>

text \<open>
  What the informers hold, the snapshot, and whether the sync request waits in the queue, with or
  without a delay. A missing Secret is \<^theory_text>\<open>None\<close>.
\<close>

record cert_world =
  cw_ings :: "ingress list"
  cw_secrets :: "nsname \<Rightarrow> tls_secret_object option"
  cw_certs :: "cert_cache option"
  cw_sync :: bool

definition secret_key :: "tls_secret_object \<Rightarrow> nsname" where
  "secret_key s = nsname (se_namespace s) (se_name s)"

fun event_key :: "secret_event \<Rightarrow> nsname" where
  "event_key (SecretCreated s) = secret_key s"
| "event_key (SecretDeleted s) = secret_key s"
| "event_key (SecretUpdated old new) = secret_key new"

fun after_event :: "secret_event \<Rightarrow> tls_secret_object option" where
  "after_event (SecretCreated s) = Some s"
| "after_event (SecretDeleted s) = None"
| "after_event (SecretUpdated old new) = Some new"

text \<open>The event reports what happens to the Secrets: an update comes with the Secret before it.\<close>

fun event_of :: "(nsname \<Rightarrow> tls_secret_object option) \<Rightarrow> secret_event \<Rightarrow> bool" where
  "event_of secrets (SecretCreated s) = (secrets (secret_key s) = None)"
| "event_of secrets (SecretDeleted s) = (secrets (secret_key s) = Some s)"
| "event_of secrets (SecretUpdated old new) = (secret_key old = secret_key new \<and> secrets (secret_key new) = Some old)"

text \<open>A list of the Ingresses of a namespace may fail.\<close>

definition lists_world :: "cert_world \<Rightarrow> (string \<Rightarrow> ingress list option) \<Rightarrow> bool" where
  "lists_world w listed \<longleftrightarrow>
     (\<forall>ns. case listed ns of None \<Rightarrow> True | Some ings \<Rightarrow> ings = filter (\<lambda>ing. ing_namespace ing = ns) (cw_ings w))"

definition secret_changed :: "codec \<Rightarrow> config \<Rightarrow> (string \<Rightarrow> ingress list option) \<Rightarrow> secret_event \<Rightarrow> cert_world \<Rightarrow> cert_world" where
  "secret_changed J c listed event w =
     w\<lparr>cw_secrets := (cw_secrets w)(event_key event := after_event event),
       cw_sync := cw_sync w \<or> secret_event_handler J c listed event \<noteq> None\<rparr>"

definition active_ings :: "config \<Rightarrow> cert_world \<Rightarrow> ingress list" where
  "active_ings c w = filter (active c) (cw_ings w)"

definition planned :: "codec \<Rightarrow> config \<Rightarrow> (nsname \<Rightarrow> 'e + tls_secret_object option) \<Rightarrow> cert_world \<Rightarrow>
    ('e + (nsname, certificate_info) gomap option) \<times> cert_world" where
  "planned J c get w =
     (case certificate_infos J c get (active_ings c w) (cw_certs w) of (r, certs) \<Rightarrow> (r, w\<lparr>cw_certs := certs\<rparr>))"

definition cached :: "cert_world \<Rightarrow> nsname \<Rightarrow> certificate_info option option" where
  "cached w key = (case cw_certs w of None \<Rightarrow> None | Some cache \<Rightarrow> gm_get cache key)"

text \<open>A read answers with the Secret there is, or fails.\<close>

definition reads_world :: "cert_world \<Rightarrow> (nsname \<Rightarrow> 'e + tls_secret_object option) \<Rightarrow> bool" where
  "reads_world w get \<longleftrightarrow> (\<forall>key. case get key of Inl _ \<Rightarrow> True | Inr secret \<Rightarrow> secret = cw_secrets w key)"

text \<open>A Secret that is in the snapshot is still referenced when it changes.\<close>

definition attended :: "config \<Rightarrow> secret_event \<Rightarrow> cert_world \<Rightarrow> bool" where
  "attended c event w \<longleftrightarrow> (cached w (event_key event) = None \<or> event_key event \<in> set (referenced_secrets_of (active_ings c w)))"

inductive cert_step :: "codec \<Rightarrow> config \<Rightarrow> cert_world \<Rightarrow> cert_world \<Rightarrow> bool" for J c where
  ingresses: "cert_step J c w (w\<lparr>cw_ings := ings\<rparr>)"
| secrets: "event_of (cw_secrets w) event \<Longrightarrow> lists_world w listed \<Longrightarrow> attended c event w \<Longrightarrow>
    cert_step J c w (secret_changed J c listed event w)"
| forget: "cw_sync w \<Longrightarrow> cert_step J c w (w\<lparr>cw_certs := None, cw_sync := False\<rparr>)"
| requeue: "cert_step J c w (w\<lparr>cw_sync := True\<rparr>)"
| plan: "reads_world w (get :: nsname \<Rightarrow> unit + tls_secret_object option) \<Longrightarrow> cert_step J c w (snd (planned J c get w))"

inductive cert_life :: "codec \<Rightarrow> config \<Rightarrow> cert_world \<Rightarrow> bool" for J c where
  start: "cw_certs w = None \<Longrightarrow> cert_life J c w"
| go_on: "cert_life J c w \<Longrightarrow> cert_step J c w w' \<Longrightarrow> cert_life J c w'"

inductive_cases cert_stepE: "cert_step J c w w'"

subsection \<open>Freshness\<close>

definition info_now :: "codec \<Rightarrow> cert_world \<Rightarrow> nsname \<Rightarrow> certificate_info option" where
  "info_now J w key = (case cw_secrets w key of None \<Rightarrow> None | Some s \<Rightarrow> certificate_info_from_secret J s)"

definition fresh :: "codec \<Rightarrow> cert_world \<Rightarrow> bool" where
  "fresh J w \<longleftrightarrow> (\<forall>key. case cached w key of None \<Rightarrow> True | Some entry \<Rightarrow> entry = info_now J w key)"

lemma world_simps [simp]:
  "info_now J (w\<lparr>cw_ings := ings\<rparr>) = info_now J w" "info_now J (w\<lparr>cw_certs := certs\<rparr>) = info_now J w"
  "info_now J (w\<lparr>cw_sync := b\<rparr>) = info_now J w" "cached (w\<lparr>cw_ings := ings\<rparr>) = cached w" "cached (w\<lparr>cw_sync := b\<rparr>) = cached w"
  by (simp_all add: info_now_def cached_def fun_eq_iff)

lemma fresh_simps [simp]: "fresh J (w\<lparr>cw_ings := ings\<rparr>) = fresh J w" "fresh J (w\<lparr>cw_sync := b\<rparr>) = fresh J w"
  unfolding fresh_def world_simps by (rule refl)+

lemma fresh_empty [simp]: "cw_certs w = None \<Longrightarrow> fresh J w"
  by (simp add: fresh_def cached_def)

lemma referenced_iff:
  "nsname ns name \<in> set (referenced_secrets_of ings) \<longleftrightarrow>
     list_ex (\<lambda>ing. ing_namespace ing = ns \<and> list_ex (\<lambda>tls. trim_space (tls_secret tls) = name) (ing_tls ing)) ings \<and> name \<noteq> []"
  by (auto simp: referenced_secrets_of_def tls_secret_keys_def list_ex_iff Let_def split: if_splits)

text \<open>A change of a referenced Secret is queued unless its projection stays the same.\<close>

lemma referenced_change_queued:
  assumes "lists_world w listed" and "nsname ns name \<in> set (referenced_secrets_of (active_ings c w))"
  shows "secret_referenced c listed ns name"
proof (cases "listed ns")
  case (Some ings)
  have "case listed ns of None \<Rightarrow> True | Some ings \<Rightarrow> ings = filter (\<lambda>ing. ing_namespace ing = ns) (cw_ings w)"
    using assms(1) unfolding lists_world_def by blast
  then have "ings = filter (\<lambda>ing. ing_namespace ing = ns) (cw_ings w)" by (simp add: Some)
  with assms(2) show ?thesis
    by (auto simp: secret_referenced_def Some referenced_iff list_ex_iff active_ings_def active_def)
qed (simp add: secret_referenced_def)

lemma unqueued_change:
  assumes "event_of (cw_secrets w) event" and "lists_world w listed" and "attended c event w"
    and "secret_event_handler J c listed event = None"
  shows "cached w (event_key event) = None \<or>
    info_now J (secret_changed J c listed event w) (event_key event) = info_now J w (event_key event)"
proof (cases "event_key event \<in> set (referenced_secrets_of (active_ings c w))")
  case True
  then have "enqueue_certificate_sync c listed s delay = Some delay" if "secret_key s = event_key event" for s delay
    using referenced_change_queued [OF assms(2), of "se_namespace s" "se_name s" c] that
    by (simp add: enqueue_certificate_sync_def secret_key_def)
  with assms(1,4) show ?thesis
    by (cases event) (auto simp: update_delay_cases info_now_def secret_changed_def split: if_splits option.splits)
qed (use assms(3) in \<open>simp add: attended_def\<close>)

lemma info_now_other:
  "key \<noteq> event_key event \<Longrightarrow> info_now J (secret_changed J c listed event w) key = info_now J w key"
  by (simp add: info_now_def secret_changed_def)

lemma lookup_loop_fresh:
  assumes "lookup_loop read keys cache result = (r, cache')"
    and "\<And>key entry. gm_get cache key = Some entry \<Longrightarrow> entry = now key"
    and "\<And>key entry. read key = Inr entry \<Longrightarrow> entry = now key"
  shows "gm_get cache' key = Some entry \<Longrightarrow> entry = now key"
  using assms(1,2)
proof (induction keys arbitrary: cache result)
  case (Cons k ks)
  show ?case
  proof (cases "gm_get cache k")
    case None
    show ?thesis
    proof (cases "read k")
      case (Inr e)
      with Cons.prems(2) None have "lookup_loop read ks (gm_put k e cache) (case e of None \<Rightarrow> result | Some info \<Rightarrow> gm_put k info result) = (r, cache')"
        by simp
      moreover have "e' = now key'" if "gm_get (gm_put k e cache) key' = Some e'" for key' e'
        using that Cons.prems(3) assms(3) Inr by (simp add: gomap_simps split: if_splits)
      ultimately show ?thesis using Cons.IH Cons.prems(1) by blast
    qed (use Cons.prems None in simp)
  next
    case (Some e)
    with Cons.prems(2) have "lookup_loop read ks cache (case e of None \<Rightarrow> result | Some info \<Rightarrow> gm_put k info result) = (r, cache')"
      by simp
    from Cons.IH [OF Cons.prems(1) this Cons.prems(3)] show ?thesis .
  qed
qed simp

lemma reads_now: "reads_world w get \<Longrightarrow> read_certificate J get key = Inr entry \<Longrightarrow> entry = info_now J w key"
  unfolding reads_world_def read_certificate_def info_now_def
  by (drule spec [of _ key]) (auto split: sum.splits option.splits)

lemma fresh_planned:
  assumes "reads_world w get" and "fresh J w"
  shows "fresh J (snd (planned J c get w))"
proof (cases "cf_collapse c")
  case True
  let ?cache = "case cw_certs w of None \<Rightarrow> [] | Some cache \<Rightarrow> cache" and ?keys = "referenced_secrets_of (active_ings c w)"
  obtain r cache' where l: "lookup_loop (read_certificate J get) ?keys ?cache [] = (r, cache')" by fastforce
  have now: "gm_get ?cache key = Some entry \<Longrightarrow> entry = info_now J w key" for key entry
    using assms(2) unfolding fresh_def cached_def by (drule_tac spec [of _ key]) (auto split: option.splits)
  have "gm_get cache' key = Some entry \<Longrightarrow> entry = info_now J w key" for key entry
    using lookup_loop_fresh [OF l, of "info_now J w"] now reads_now [OF assms(1)] by blast
  with True l show ?thesis
    by (auto simp: planned_def certificate_infos_def referenced_secrets_of_def [symmetric] fresh_def cached_def info_now_def get_filter
        split: sum.split option.split)
next
  case False
  with assms(2) show ?thesis by (simp add: planned_def certificate_infos_def)
qed

lemma freshness_step:
  assumes "cert_step J c w w'" and "cw_sync w \<or> fresh J w"
  shows "cw_sync w' \<or> fresh J w'"
  using assms
proof (induction rule: cert_step.induct)
  case (secrets w event listed)
  show ?case
  proof (cases "cw_sync w \<or> secret_event_handler J c listed event \<noteq> None")
    case False
    then have "fresh J w" using secrets by simp
    moreover have "cached (secret_changed J c listed event w) = cached w" by (simp add: cached_def secret_changed_def fun_eq_iff)
    ultimately have "fresh J (secret_changed J c listed event w)"
      using unqueued_change [OF secrets(1-3), of J] False info_now_other [of _ event J c listed w]
      unfolding fresh_def by (metis option.case(1))
    then show ?thesis ..
  qed (simp add: secret_changed_def)
next
  case (plan w get)
  moreover have "cw_sync (snd (planned J c get w)) = cw_sync w" by (simp add: planned_def split: prod.split)
  ultimately show ?case using fresh_planned [OF plan(1), of J c] by auto
qed auto

lemma life_fresh: "cert_life J c w \<Longrightarrow> cw_sync w \<or> fresh J w"
  by (induction rule: cert_life.induct) (auto simp: freshness_step)

lemma planned_now:
  assumes "fresh J w" and "reads_world w get" and "planned J c get w = (Inr (Some certs), w')"
  shows "gm_get certs key = (if key \<in> set (referenced_secrets_of (active_ings c w)) then info_now J w key else None)"
proof -
  let ?cache = "case cw_certs w of None \<Rightarrow> [] | Some cache \<Rightarrow> cache" and ?keys = "referenced_secrets_of (active_ings c w)"
  obtain cache' where l: "lookup_loop (read_certificate J get) ?keys ?cache [] = (Inr certs, cache')"
    using assms(3) unfolding planned_def certificate_infos_def referenced_secrets_of_def [symmetric]
    by (auto simp: Let_def split: if_splits prod.splits sum.splits)
  have "e = info_now J w key" if "entry_now (read_certificate J get) ?cache key = Inr e" for e
  proof (cases "gm_get ?cache key")
    case None
    with that show ?thesis using reads_now [OF assms(2)] by (simp add: entry_now_def)
  next
    case (Some entry)
    then have "cached w key = Some entry" by (simp add: cached_def split: option.splits)
    moreover have "case cached w key of None \<Rightarrow> True | Some entry \<Rightarrow> entry = info_now J w key"
      using assms(1) unfolding fresh_def by blast
    ultimately show ?thesis using that Some by (simp add: entry_now_def)
  qed
  then show ?thesis
    using lookup_loop_result [OF l, of key] by (auto simp: or_previous_def split: option.splits)
qed


subsection \<open>A renewal\<close>

text \<open>A certificate is planned with, renewed, and planned with again after the sync.\<close>

definition cert_config :: config where
  "cert_config = sample_config\<lparr>cf_collapse := True\<rparr>"

definition cert_secret :: "string \<Rightarrow> tls_secret_object" where
  "cert_secret raw = \<lparr>se_namespace = ''app'', se_name = ''tls'', se_uid = ''u'', se_generation = 1, se_type = ''kubernetes.io/tls'',
     se_labels = [], se_annotations = [(certificateInfoAnnotation, raw)], se_data = None\<rparr>"

definition cert_world0 :: cert_world where
  "cert_world0 = \<lparr>cw_ings = [sample_ingress ''app'' ''a.example'' ''tls''],
     cw_secrets = (\<lambda>key. if key = nsname ''app'' ''tls'' then Some (cert_secret ''{one}'') else None), cw_certs = None, cw_sync = False\<rparr>"

definition world_reads :: "cert_world \<Rightarrow> nsname \<Rightarrow> unit + tls_secret_object option" where
  "world_reads w key = Inr (cw_secrets w key)"

definition world_lists :: "cert_world \<Rightarrow> string \<Rightarrow> ingress list option" where
  "world_lists w ns = Some (filter (\<lambda>ing. ing_namespace ing = ns) (cw_ings w))"

definition replan :: "cert_world \<Rightarrow> cert_world" where
  "replan w = snd (planned sample_codec cert_config (world_reads w) w)"

definition renewal :: secret_event where
  "renewal = SecretUpdated (cert_secret ''{one}'') (cert_secret ''{two}'')"

definition renew :: "cert_world \<Rightarrow> cert_world" where
  "renew w = secret_changed sample_codec cert_config (world_lists w) renewal w"

lemma world_answers [simp]: "reads_world w (world_reads w)" "lists_world w (world_lists w)"
  by (simp_all add: reads_world_def world_reads_def lists_world_def world_lists_def)

definition synced :: "cert_world \<Rightarrow> cert_world" where
  "synced w = w\<lparr>cw_certs := None, cw_sync := False\<rparr>"

lemma renewed_life: "cert_life sample_codec cert_config (synced (renew (replan cert_world0)))"
proof -
  let ?w = "replan cert_world0"
  have "cert_life sample_codec cert_config cert_world0" by (rule cert_life.start) (simp add: cert_world0_def)
  then have one: "cert_life sample_codec cert_config ?w"
    unfolding replan_def by (rule cert_life.go_on) (rule cert_step.plan, simp)
  have "event_of (cw_secrets ?w) renewal" by code_simp
  moreover have "attended cert_config renewal ?w" by code_simp
  ultimately have "cert_life sample_codec cert_config (renew ?w)"
    unfolding renew_def using one by (blast intro: cert_life.go_on cert_step.secrets world_answers)
  moreover have "cw_sync (renew ?w)" by code_simp
  ultimately show ?thesis
    unfolding synced_def by (blast intro: cert_life.go_on cert_step.forget)
qed


text \<open>
  The condition on changes of unreferenced Secrets is needed. An Ingress drops its Secret, the Secret
  is renewed, which nobody is told of, and the Ingress takes it back before a plan has pruned the
  snapshot: the plan is made from the old certificate, and no sync is queued.
\<close>

definition unattended :: cert_world where
  "unattended = replan ((renew ((replan cert_world0)\<lparr>cw_ings := []\<rparr>))\<lparr>cw_ings := cw_ings cert_world0\<rparr>)"

lemma unattended_renewal_missed:
  "\<not> cw_sync unattended \<and> cached unattended (nsname ''app'' ''tls'') = Some (Some \<lparr>ci_wildcard_sans = [], ci_fingerprint = ''one''\<rparr>) \<and>
   info_now sample_codec unattended (nsname ''app'' ''tls'') = Some \<lparr>ci_wildcard_sans = [], ci_fingerprint = ''two''\<rparr>"
  by code_simp

end
