(* ===== verification/ProxySettings.thy ===== *)
theory ProxySettings
  imports Translated
begin

text \<open>
  The two translations of the proxy annotations agree. NGINX Gateway Fabric accepts one
  ProxySettingsPolicy per overlapping route, so the bridge has a second translation that writes the
  same settings as NGINX directives; here the directives are read off the policy.
\<close>

subsection \<open>What a policy means\<close>

definition directive :: "string \<Rightarrow> string option \<Rightarrow> string list" where
  "directive name v = (case v of None \<Rightarrow> [] | Some x \<Rightarrow> [name @ '' '' @ x @ '';''])"

definition timeout_directives :: "proxy_timeout option \<Rightarrow> string list" where
  "timeout_directives t =
     (case t of
        None \<Rightarrow> []
      | Some t \<Rightarrow> directive ''proxy_connect_timeout'' (pt_connect t) @ directive ''proxy_read_timeout'' (pt_read t) @
          directive ''proxy_send_timeout'' (pt_send t))"

definition buffering_directives :: "proxy_buffering option \<Rightarrow> string list" where
  "buffering_directives b =
     (case b of
        None \<Rightarrow> []
      | Some b \<Rightarrow>
          directive ''proxy_buffering'' (map_option (\<lambda>disable. if disable then ''off'' else ''on'') (pb_disable b)) @
          directive ''proxy_buffer_size'' (pb_buffer_size b) @
          directive ''proxy_buffers'' (map_option (\<lambda>(n, size). itoa n @ '' '' @ size) (pb_buffers b)))"

text \<open>The directives of a policy; no policy sets nothing.\<close>

definition policy_directives :: "proxy_settings_policy option \<Rightarrow> string list" where
  "policy_directives p =
     (case p of None \<Rightarrow> [] | Some p \<Rightarrow> timeout_directives (ps_timeout p) @ buffering_directives (ps_buffering p))"

subsection \<open>The parts agree\<close>

lemma timeout_snippet_directive:
  "timeout_snippet ing (key, name) = (directive name (fst (duration_annotation ing key)), snd (duration_annotation ing key))"
  by (simp add: timeout_snippet_def directive_def split: prod.split option.split)

lemma directive_None [simp]: "directive name None = []"
  by (simp add: directive_def)

lemma timeout_directives_or_none:
  "timeout_directives (if c \<noteq> None \<or> r \<noteq> None \<or> s \<noteq> None then Some \<lparr>pt_connect = c, pt_read = r, pt_send = s\<rparr> else None) =
     directive ''proxy_connect_timeout'' c @ directive ''proxy_read_timeout'' r @ directive ''proxy_send_timeout'' s"
  by (auto simp: timeout_directives_def)

lemma buffering_directives_or_none:
  "buffering_directives (if e \<noteq> None \<or> s \<noteq> None
      then Some \<lparr>pb_disable = map_option Not e, pb_buffer_size = s, pb_buffers = map_option (\<lambda>v. (4, v)) s\<rparr> else None) =
     (case e of None \<Rightarrow> [] | Some True \<Rightarrow> [''proxy_buffering on;''] | Some False \<Rightarrow> [''proxy_buffering off;'']) @
     (case s of None \<Rightarrow> [] | Some v \<Rightarrow> [''proxy_buffer_size '' @ v @ '';'', ''proxy_buffers 4 '' @ v @ '';''])"
proof -
  have "itoa 4 = ''4''" by code_simp
  then show ?thesis
    by (auto simp: buffering_directives_def directive_def split: option.split bool.split)
qed

lemma policy_directives_or_none:
  "policy_directives (if t = None \<and> b = None then None else Some \<lparr>ps_meta = m, ps_targets = ts, ps_timeout = t, ps_buffering = b\<rparr>) =
     timeout_directives t @ buffering_directives b"
  by (auto simp: policy_directives_def timeout_directives_def buffering_directives_def)

lemma buffer_size_agrees:
  "fst (buffer_size_annotation ing m) = fst (buffer_size_annotation ing m')"
  "map is_field (snd (buffer_size_annotation ing m)) = map is_field (snd (buffer_size_annotation ing m'))"
  "map is_severity (snd (buffer_size_annotation ing m)) = map is_severity (snd (buffer_size_annotation ing m'))"
  by (simp_all add: buffer_size_annotation_def Let_def)

text \<open>
  C39. The proxy settings of an Ingress come out the same whether they are translated to a
  ProxySettingsPolicy or, for overlapping routes, to NGINX directives: the directives are those the
  policy stands for, in the same order, and both translations refuse the same annotations.
\<close>

theorem proxy_settings_agree:
  "fst (build_proxy_settings_snippets ing) = policy_directives (fst (build_proxy_policy ing name target labels)) \<and>
   map (\<lambda>i. (is_severity i, is_field i)) (snd (build_proxy_settings_snippets ing)) =
     map (\<lambda>i. (is_severity i, is_field i)) (snd (build_proxy_policy ing name target labels))"
proof -
  obtain c i1 where c: "duration_annotation ing annProxyConnectTimeout = (c, i1)" by fastforce
  obtain r i2 where r: "duration_annotation ing annProxyReadTimeout = (r, i2)" by fastforce
  obtain s i3 where s: "duration_annotation ing annProxySendTimeout = (s, i3)" by fastforce
  obtain e i4 where e: "buffering_annotation ing = (e, i4)" by fastforce
  obtain z i5 where z: "buffer_size_annotation ing ''value is not supported by NGINX proxy_buffer_size'' = (z, i5)" by fastforce
  obtain z' i5' where z': "buffer_size_annotation ing ''value is not supported by NGF ProxySettingsPolicy'' = (z', i5')" by fastforce
  have same: "z' = z" "map (\<lambda>i. (is_severity i, is_field i)) i5 = map (\<lambda>i. (is_severity i, is_field i)) i5'"
    using z z' by (auto simp: buffer_size_annotation_def Let_def split: if_splits)
  let ?t = "if c \<noteq> None \<or> r \<noteq> None \<or> s \<noteq> None then Some \<lparr>pt_connect = c, pt_read = r, pt_send = s\<rparr> else None"
  let ?b = "if e \<noteq> None \<or> z \<noteq> None
      then Some \<lparr>pb_disable = map_option Not e, pb_buffer_size = z, pb_buffers = map_option (\<lambda>v. (4, v)) z\<rparr> else None"
  have policy: "build_proxy_policy ing name target labels =
      (if ?t = None \<and> ?b = None then None
       else Some \<lparr>ps_meta = \<lparr>om_name = dns_label [name, ''proxy''], om_namespace = ing_namespace ing, om_labels = labels\<rparr>,
         ps_targets = [target], ps_timeout = ?t, ps_buffering = ?b\<rparr>, i1 @ i2 @ i3 @ i4 @ i5')"
    unfolding build_proxy_policy_def Let_def c r s e z' same(1) prod.case by simp
  have snippets: "build_proxy_settings_snippets ing =
      (directive ''proxy_connect_timeout'' c @ directive ''proxy_read_timeout'' r @ directive ''proxy_send_timeout'' s @
       (case e of None \<Rightarrow> [] | Some True \<Rightarrow> [''proxy_buffering on;''] | Some False \<Rightarrow> [''proxy_buffering off;'']) @
       (case z of None \<Rightarrow> [] | Some v \<Rightarrow> [''proxy_buffer_size '' @ v @ '';'', ''proxy_buffers 4 '' @ v @ '';'']),
       i1 @ i2 @ i3 @ i4 @ i5)"
    by (simp add: build_proxy_settings_snippets_def timeout_settings_def timeout_snippet_directive c r s e z Let_def)
  show ?thesis
    unfolding policy snippets fst_conv snd_conv policy_directives_or_none timeout_directives_or_none buffering_directives_or_none
    using same(2) by simp
qed

end
