(* ===== verification/RawSnippets.thy ===== *)
theory RawSnippets
  imports ProxySettings
begin

text \<open>
  Raw NGINX configuration in annotations. With raw snippets disabled an Ingress that carries any is
  refused, and, stronger, nothing the bridge generates depends on their text: the translation of
  the Ingress without them gives the same objects.
\<close>

definition raw_annotations :: "string list" where
  "raw_annotations = [annServerSnippet, annConfigurationSnippet, annAuthSnippet]"

definition strip_raw :: "ingress \<Rightarrow> ingress" where
  "strip_raw ing = ing\<lparr>ing_annotations := filter (\<lambda>(k, _). k \<notin> set raw_annotations) (ing_annotations ing)\<rparr>"

named_theorems strip_simps \<open>what does not depend on raw snippets\<close>

subsection \<open>Reading annotations\<close>

lemma get_filter_key: "P k \<Longrightarrow> gm_get (filter (\<lambda>(k, _). P k) m) k = gm_get m k"
  by (induction m) auto

lemma strip_get [strip_simps]:
  assumes "k \<notin> set raw_annotations"
  shows "gm_get (ing_annotations (strip_raw ing)) k = gm_get (ing_annotations ing) k"
    "annotation (strip_raw ing) k = annotation ing k"
    "gm_or [] (ing_annotations (strip_raw ing)) k = gm_or [] (ing_annotations ing) k"
  using get_filter_key [of "\<lambda>k. k \<notin> set raw_annotations" k "ing_annotations ing"] assms
  by (simp_all add: strip_raw_def annotation_def gm_or_def)

lemma strip_fields [strip_simps]:
  "ing_namespace (strip_raw ing) = ing_namespace ing" "ing_name (strip_raw ing) = ing_name ing"
  "ing_labels (strip_raw ing) = ing_labels ing" "ing_uid (strip_raw ing) = ing_uid ing"
  "ing_rules (strip_raw ing) = ing_rules ing" "ing_tls (strip_raw ing) = ing_tls ing"
  "ing_default_backend (strip_raw ing) = ing_default_backend ing"
  by (simp_all add: strip_raw_def)

definition read_annotations :: "string list" where
  "read_annotations =
     [annSSLRedirect, annServerAlias, annBackendProtocol, annProxyHTTPVersion, annAuthProxySetHeaders, annAuthURL, annAuthMethod,
      annAuthRequestRedirect, annAuthResponseHeaders, annAuthSignin, annAuthType, annAuthSecret, annAuthRealm, annUseRegex,
      annRewriteTarget, annUpstreamVHost, annEnableCORS, annCORSAllowOrigin, annCORSAllowMethods, annCORSAllowHeaders,
      annCORSExposeHeaders, annCORSAllowCredentials, annCORSMaxAge, annCanary, annCanaryByHeader, annCanaryByHeaderValue,
      annProxyBodySize, annProxyBuffering, annProxyBufferSize, annProxyRequestBuffering, annProxyConnectTimeout,
      annProxyReadTimeout, annProxySendTimeout, annProxySSLVerify, annProxySSLServerName, annProxySSLName, annProxySSLSecret]"

lemma read_not_raw_all: "list_all (\<lambda>k. k \<notin> set raw_annotations) read_annotations"
  by code_simp

lemmas read_not_raw [strip_simps] = read_not_raw_all [unfolded read_annotations_def list.pred_inject(2)]

subsection \<open>Each function\<close>

lemma strip_annotation_functions [strip_simps]:
  "ssl_redirect_enabled (ing_annotations (strip_raw ing)) = ssl_redirect_enabled (ing_annotations ing)"
  "header_canary_match (ing_annotations (strip_raw ing)) = header_canary_match (ing_annotations ing)"
  "cors_filter_of (ing_annotations (strip_raw ing)) = cors_filter_of (ing_annotations ing)"
  "is_acme_http01_solver (strip_raw ing) = is_acme_http01_solver ing"
  "source_labels (strip_raw ing) = source_labels ing"
  "effective_tls_hosts (strip_raw ing) tls = effective_tls_hosts ing tls"
  "auth_redirect (ing_annotations (strip_raw ing)) = auth_redirect (ing_annotations ing)"
  "auth_signin name (ing_annotations (strip_raw ing)) = auth_signin name (ing_annotations ing)"
  by (simp_all add: ssl_redirect_enabled_def header_canary_match_def cors_filter_of_def is_acme_http01_solver_def
      source_labels_def effective_tls_hosts_def auth_redirect_def auth_signin_def strip_simps cong: option.case_cong)

lemma strip_host_paths [strip_simps]:
  "collect_default (strip_raw ing) = collect_default ing"
  "collect_alias (strip_raw ing) = collect_alias ing"
  by (intro ext; simp add: collect_default_def collect_alias_def strip_simps Let_def)+

lemma strip_collect [strip_simps]: "collect_hosts (strip_raw ing) options = collect_hosts ing options"
proof -
  have "effective_tls_hosts (strip_raw ing) = effective_tls_hosts ing" by (intro ext) (rule strip_simps)
  then have "input_tls_hosts (strip_raw ing) options = input_tls_hosts ing options"
    by (simp add: input_tls_hosts_def strip_simps cong: option.case_cong)
  moreover have "collect_aliases (strip_raw ing) = collect_aliases ing"
    by (intro ext) (simp add: collect_aliases_def strip_simps Let_def split: list.split)
  then have "host_paths_of (strip_raw ing) = host_paths_of ing"
    by (intro ext) (simp add: host_paths_of_def strip_simps)
  ultimately show ?thesis by (simp add: collect_hosts_def)
qed

lemma strip_rules [strip_simps]:
  "build_rule env (strip_raw ing) = build_rule env ing"
  "build_rules env (strip_raw ing) i paths = build_rules env ing i paths"
proof -
  show rule: "build_rule env (strip_raw ing) = build_rule env ing"
    by (intro ext) (simp add: build_rule_def match_type_of_def rewrite_of_def strip_simps Let_def)
  show "build_rules env (strip_raw ing) i paths = build_rules env ing i paths"
    by (induction paths arbitrary: i) (simp_all add: rule)
qed

lemma strip_routes [strip_simps]:
  "build_route env (strip_raw ing) input options = build_route env ing input options"
  "build_redirect_route (strip_raw ing) h options = build_redirect_route ing h options"
  "needs_redirect (strip_raw ing) input = needs_redirect ing input"
  by (simp_all add: build_route_def build_redirect_route_def needs_redirect_def route_name_def strip_simps)

lemma strip_duration [strip_simps]:
  "k \<notin> set raw_annotations \<Longrightarrow> duration_annotation (strip_raw ing) k = duration_annotation ing k"
  by (simp add: duration_annotation_def strip_simps Let_def)

lemma strip_buffering [strip_simps]:
  "buffering_annotation (strip_raw ing) = buffering_annotation ing"
  "buffer_size_annotation (strip_raw ing) m = buffer_size_annotation ing m"
  by (simp_all add: buffering_annotation_def buffer_size_annotation_def strip_simps)

lemma strip_timeouts [strip_simps]:
  "map (timeout_snippet (strip_raw ing)) timeout_settings = map (timeout_snippet ing) timeout_settings"
  by (simp add: timeout_settings_def timeout_snippet_def strip_simps)

lemma strip_policies [strip_simps]:
  "build_proxy_settings_snippets (strip_raw ing) = build_proxy_settings_snippets ing"
  "build_proxy_policy (strip_raw ing) name target labels = build_proxy_policy ing name target labels"
  "body_size_settings (strip_raw ing) name target labels sn = body_size_settings ing name target labels sn"
  "build_basic_auth (strip_raw ing) name labels = build_basic_auth ing name labels"
  "request_buffering (strip_raw ing) = request_buffering ing"
  by (simp_all add: build_proxy_settings_snippets_def build_proxy_policy_def body_size_settings_def build_basic_auth_def
      request_buffering_def strip_simps cong: if_cong)

lemma strip_backend_tls [strip_simps]:
  "fst (protocol_settings env (strip_raw ing)) = fst (protocol_settings env ing)"
  "build_backend_tls_policies (strip_raw ing) route config = build_backend_tls_policies ing route config"
  "add_unverified_backend_tls_filters (strip_raw ing) config labels = add_unverified_backend_tls_filters ing config labels"
proof -
  have bool: "bool_annotation (strip_raw ing) k = bool_annotation ing k" if "k \<notin> set raw_annotations" for k
    by (simp add: bool_annotation_def strip_simps that)
  have "verified_secret (strip_raw ing) = verified_secret ing" by (intro ext) (simp add: verified_secret_def strip_simps split: option.split)
  then have "parse_backend_tls env (strip_raw ing) = parse_backend_tls env ing"
    by (simp add: parse_backend_tls_def strip_simps bool Let_def cong: if_cong)
  then show "fst (protocol_settings env (strip_raw ing)) = fst (protocol_settings env ing)"
    by (simp add: protocol_settings_def strip_simps Let_def)
  show "build_backend_tls_policies (strip_raw ing) route config = build_backend_tls_policies ing route config"
    by (simp add: build_backend_tls_policies_def backend_tls_policy_for_def strip_simps)
  have "https_location (strip_raw ing) = https_location ing"
    by (intro ext) (simp add: https_location_def strip_simps)
  then have "unverified_rule (strip_raw ing) = unverified_rule ing"
    by (intro ext) (simp add: unverified_rule_def strip_simps Let_def split: list.split option.split)
  then have "unverified_rules (strip_raw ing) route config labels i rules = unverified_rules ing route config labels i rules"
    for route i rules by (induction rules arbitrary: i) simp_all
  then show "add_unverified_backend_tls_filters (strip_raw ing) config labels = add_unverified_backend_tls_filters ing config labels"
    by (simp add: add_unverified_backend_tls_filters_def)
qed

lemma strip_headers [strip_simps]: "resolve_auth_proxy_headers env (strip_raw ing) = resolve_auth_proxy_headers env ing"
  by (simp add: resolve_auth_proxy_headers_def config_map_name_def strip_simps Let_def cong: option.case_cong sum.case_cong)

lemma strip_external_auth [strip_simps]:
  "external_auth env (strip_raw ing) name snippet headers = external_auth env ing name snippet headers"
  by (simp add: external_auth_def external_auth_snippets_def strip_simps Let_def cong: sum.case_cong option.case_cong if_cong)

subsection \<open>Canaries\<close>

definition strip_canary :: "canary_input \<Rightarrow> canary_input" where
  "strip_canary c = c\<lparr>ca_ingress := strip_raw (ca_ingress c)\<rparr>"

definition strip_canaries :: "canary_state \<Rightarrow> canary_state" where
  "strip_canaries st = st\<lparr>cs_by_host := map (\<lambda>(h, cs). (h, map strip_canary cs)) (cs_by_host st)\<rparr>"

lemma filter_put: "P k \<Longrightarrow> filter (\<lambda>(k, _). P k) (gm_put k v m) = gm_put k v (filter (\<lambda>(k, _). P k) m)"
  by (induction m) auto

lemma filter_delete: "filter (\<lambda>(k, _). P k) (gm_delete k m) = gm_delete k (filter (\<lambda>(k, _). P k) m)"
  by (simp add: AList.delete_eq conj_commute case_prod_unfold)

lemma strip_inherited: "inherited_canary_ingress (strip_raw primary) canary = strip_raw (inherited_canary_ingress primary canary)"
proof -
  have "inherit_annotation c k (filter (\<lambda>(k, _). k \<notin> set raw_annotations) m) =
      filter (\<lambda>(k, _). k \<notin> set raw_annotations) (inherit_annotation c k m)" if "k \<notin> set raw_annotations" for c k m
    by (cases "gm_get c k") (simp_all add: inherit_annotation_def filter_delete filter_put [of "\<lambda>k. k \<notin> set raw_annotations", OF that])
  then show ?thesis by (simp add: inherited_canary_ingress_def strip_raw_def [of canary] strip_raw_def strip_simps)
qed

lemma map_put: "map (\<lambda>(k, v). (k, f v)) (gm_put k v m) = gm_put k (f v) (map (\<lambda>(k, v). (k, f v)) m)"
  by (induction m) auto

lemma gm_or_map: "gm_or (f z) (map (\<lambda>(k, v). (k, f v)) m) k = f (gm_or z m k)"
  by (induction m) (auto simp: gm_or_def)

lemma claim_footprint_by_host [simp]:
  "claim_footprint name h path (strip_canaries st) = strip_canaries (claim_footprint name h path st)"
  by (simp add: claim_footprint_def strip_canaries_def Let_def split: option.split)

lemma fold_claim_strip:
  "fold (claim_footprint name h) paths (strip_canaries st) = strip_canaries (fold (claim_footprint name h) paths st)"
  by (induction paths arbitrary: st) simp_all

lemma collect_canary_input_strip:
  "collect_canary_input (strip_raw canary) input (strip_canaries st) = strip_canaries (collect_canary_input canary input st)"
proof -
  have put: "multi_put k (strip_canary c) (map (\<lambda>(h, cs). (h, map strip_canary cs)) m) =
      map (\<lambda>(h, cs). (h, map strip_canary cs)) (multi_put k c m)" for k c m
    using map_put [of "map strip_canary" k "gm_or [] m k @ [c]" m] gm_or_map [of "map strip_canary" "[]" m k]
    by (simp add: multi_put_def)
  have "\<lparr>ca_ingress = strip_raw canary, ca_input = input\<rparr> = strip_canary \<lparr>ca_ingress = canary, ca_input = input\<rparr>"
    by (simp add: strip_canary_def)
  then show ?thesis
    by (simp add: collect_canary_input_def strip_simps fold_claim_strip Let_def) (simp add: strip_canaries_def put)
qed

lemma collect_canary_strip:
  "collect_canary (strip_raw ing) options raw (strip_canaries st) = strip_canaries (collect_canary ing options raw st)"
proof -
  have fold: "fold (collect_canary_input (strip_raw c)) inputs (strip_canaries st) = strip_canaries (fold (collect_canary_input c) inputs st)"
    for c inputs st by (induction inputs arbitrary: st) (simp_all add: collect_canary_input_strip)
  have "(strip_canaries st)\<lparr>cs_issues := x\<rparr> = strip_canaries (st\<lparr>cs_issues := x\<rparr>)" for x by (simp add: strip_canaries_def)
  moreover have "cs_issues (strip_canaries st) = cs_issues st" by (simp add: strip_canaries_def)
  ultimately show ?thesis
    by (simp add: collect_canary_def strip_inherited strip_simps Let_def fold split: prod.split)
qed

lemma strip_collect_canaries: "collect_canaries (strip_raw ing) options = strip_canaries (collect_canaries ing options)"
proof -
  have "fold (collect_canary (strip_raw ing) options) cs (strip_canaries st) = strip_canaries (fold (collect_canary ing options) cs st)"
    for cs st by (induction cs arbitrary: st) (simp_all add: collect_canary_strip)
  from this [of _ "\<lparr>cs_by_host = [], cs_footprints = [], cs_issues = []\<rparr>"] show ?thesis
    by (simp add: collect_canaries_def strip_canaries_def)
qed

lemma strip_canary_rules:
  "add_canary_rules env (map strip_canary cs) st = add_canary_rules env cs st"
proof -
  have "add_canary_path env (strip_raw c) = add_canary_path env c" for c
    by (intro ext) (simp add: add_canary_path_def strip_simps)
  then show ?thesis by (induction cs arbitrary: st) (simp_all add: add_canary_rules_def strip_canary_def)
qed

lemma strip_canaries_of_host:
  "gm_or [] (cs_by_host (strip_canaries st)) h = map strip_canary (gm_or [] (cs_by_host st) h)"
  using gm_or_map [of "map strip_canary" "[]"] by (simp add: strip_canaries_def)

subsection \<open>Plans with the same objects\<close>

definition objects :: "plan \<Rightarrow> plan" where
  "objects p = p\<lparr>pl_issues := []\<rparr>"

lemma objects_add_issues [simp]: "objects (add_issues is p) = objects p"
  by (simp add: objects_def add_issues_def)

lemma objects_updates [simp]:
  "objects (p\<lparr>pl_routes := x1\<rparr>) = (objects p)\<lparr>pl_routes := x1\<rparr>"
  "objects (p\<lparr>pl_backend_tls := x2\<rparr>) = (objects p)\<lparr>pl_backend_tls := x2\<rparr>"
  "objects (p\<lparr>pl_client := x3\<rparr>) = (objects p)\<lparr>pl_client := x3\<rparr>"
  "objects (p\<lparr>pl_proxy := x4\<rparr>) = (objects p)\<lparr>pl_proxy := x4\<rparr>"
  "objects (p\<lparr>pl_auth := x5\<rparr>) = (objects p)\<lparr>pl_auth := x5\<rparr>"
  "objects (p\<lparr>pl_snippets := x6\<rparr>) = (objects p)\<lparr>pl_snippets := x6\<rparr>"
  by (simp_all add: objects_def)

lemma objects_cong:
  assumes "objects p = objects q"
  shows "pl_routes p = pl_routes q" "pl_backend_tls p = pl_backend_tls q" "pl_client p = pl_client q" "pl_proxy p = pl_proxy q"
    "pl_auth p = pl_auth q" "pl_snippets p = pl_snippets q"
  using assms by (cases p; cases q; simp add: objects_def)+

lemma objects_issues [simp]: "objects (p\<lparr>pl_issues := x\<rparr>) = objects p"
  by (simp add: objects_def)

text \<open>With raw snippets disabled the snippet built from an Ingress ignores its raw annotations.\<close>

lemma build_snippets_strip:
  "fst (build_snippets env (strip_raw ing) name gen headers False labels) = fst (build_snippets env ing name gen headers False labels)"
proof -
  have "fst (auth_snippet_of i False) = []" for i by (simp add: auth_snippet_of_def Let_def)
  moreover have "fst (raw_snippet i False k) = []" for i k by (simp add: raw_snippet_def Let_def)
  ultimately show ?thesis
    by (simp add: build_snippets_def strip_simps Let_def split_beta)
qed

lemma add_snippets_strip:
  assumes "objects p = objects q"
  shows "fst (add_snippets env (strip_raw ing) gen hs False labels (route, p)) = fst (add_snippets env ing gen hs False labels (route, q))"
    "objects (snd (add_snippets env (strip_raw ing) gen hs False labels (route, p))) =
     objects (snd (add_snippets env ing gen hs False labels (route, q)))"
proof -
  obtain f i where f: "build_snippets env ing (om_name (hr_meta route)) gen hs False labels = (f, i)" by fastforce
  obtain i' where f': "build_snippets env (strip_raw ing) (om_name (hr_meta route)) gen hs False labels = (f, i')"
    using build_snippets_strip [of env ing "om_name (hr_meta route)" gen hs labels] f by (metis fst_conv surj_pair)
  have "objects (add_issues i' p) = objects (add_issues i q)" "pl_snippets p = pl_snippets q"
    using assms objects_cong(6) [OF assms] by simp_all
  then show "fst (add_snippets env (strip_raw ing) gen hs False labels (route, p)) = fst (add_snippets env ing gen hs False labels (route, q))"
    "objects (snd (add_snippets env (strip_raw ing) gen hs False labels (route, p))) =
     objects (snd (add_snippets env ing gen hs False labels (route, q)))"
    by (cases f; simp add: add_snippets_def f f')+
qed

lemma add_basic_auth_strip:
  assumes "objects p = objects q"
  shows "fst (add_basic_auth (strip_raw ing) labels (route, p)) = fst (add_basic_auth ing labels (route, q))"
    "objects (snd (add_basic_auth (strip_raw ing) labels (route, p))) = objects (snd (add_basic_auth ing labels (route, q)))"
proof -
  obtain f i where f: "build_basic_auth ing (om_name (hr_meta route)) labels = (f, i)" by fastforce
  have "objects (add_issues i p) = objects (add_issues i q)" "pl_auth p = pl_auth q"
    using assms objects_cong(5) [OF assms] by simp_all
  then show "fst (add_basic_auth (strip_raw ing) labels (route, p)) = fst (add_basic_auth ing labels (route, q))"
    "objects (snd (add_basic_auth (strip_raw ing) labels (route, p))) = objects (snd (add_basic_auth ing labels (route, q)))"
    by (cases f; simp add: add_basic_auth_def strip_simps f)+
qed

lemma fold_backend_tls_strip:
  "objects p = objects q \<Longrightarrow> objects (fold add_backend_tls_policy bs p) = objects (fold add_backend_tls_policy bs q)"
proof (induction bs arbitrary: p q)
  case (Cons b bs)
  have "objects (add_backend_tls_policy b p) = objects (add_backend_tls_policy b q)"
    using objects_cong(2) [OF Cons.prems] Cons.prems by (simp add: add_backend_tls_policy_def)
  from Cons.IH [OF this] show ?case by simp
qed simp

lemma add_unverified_objects:
  assumes "objects p = objects q"
  shows "fst (add_unverified_backend_tls_filters ing config labels (route, p)) =
      fst (add_unverified_backend_tls_filters ing config labels (route, q))"
    "objects (snd (add_unverified_backend_tls_filters ing config labels (route, p))) =
     objects (snd (add_unverified_backend_tls_filters ing config labels (route, q)))"
proof -
  obtain rs fs i where r: "unverified_rules ing route config labels 0 (hr_rules route) = (rs, fs, i)" using prod_cases3 by blast
  show "fst (add_unverified_backend_tls_filters ing config labels (route, p)) =
      fst (add_unverified_backend_tls_filters ing config labels (route, q))"
    by (simp add: add_unverified_backend_tls_filters_def r)
  show "objects (snd (add_unverified_backend_tls_filters ing config labels (route, p))) =
     objects (snd (add_unverified_backend_tls_filters ing config labels (route, q)))"
    using objects_cong(6) [OF assms] assms by (simp add: add_unverified_backend_tls_filters_def r)
qed

lemma add_backend_tls_strip:
  assumes "objects p = objects q"
  shows "fst (add_backend_tls (strip_raw ing) b labels (route, p)) = fst (add_backend_tls ing b labels (route, q))"
    "objects (snd (add_backend_tls (strip_raw ing) b labels (route, p))) = objects (snd (add_backend_tls ing b labels (route, q)))"
  using add_unverified_objects [OF assms] fold_backend_tls_strip [OF assms] assms
  by (simp_all add: add_backend_tls_def strip_simps split: option.split)

lemma add_policies_strip:
  assumes "objects p = objects q" and "\<not> op_allow_snippets options"
  shows "fst (add_policies env (strip_raw ing) gen hs b options (route, p)) = fst (add_policies env ing gen hs b options (route, q))"
    "objects (snd (add_policies env (strip_raw ing) gen hs b options (route, p))) =
     objects (snd (add_policies env ing gen hs b options (route, q)))"
proof -
  let ?l = "source_labels ing" and ?t = "\<lparr>lo_group = group_name, lo_kind = ''HTTPRoute'', lo_name = om_name (hr_meta route)\<rparr>"
  obtain route1 i1 where 1: "add_upstream_vhost_rewrite env ing route = (route1, i1)" by fastforce
  obtain settings i2 where 2: "(if op_settings_as_snippets options then build_proxy_settings_snippets ing else ([], [])) = (settings, i2)"
    by fastforce
  obtain client i3 where 3: "body_size_settings ing (om_name (hr_meta route)) ?t ?l (op_settings_as_snippets options) = (client, i3)"
    by fastforce
  obtain proxy i4 where 4: "(if op_settings_as_snippets options then (None, [])
      else build_proxy_policy ing (om_name (hr_meta route)) ?t ?l) = (proxy, i4)" by fastforce
  define step where "step p = add_proxy_policy proxy ((add_issues (i1 @ i2 @ i3 @ i4) p)\<lparr>pl_client := pl_client p @ client\<rparr>)" for p
  have s: "objects (step p) = objects (step q)"
    using objects_cong(3,4) [OF assms(1)] assms(1)
    by (simp add: step_def add_proxy_policy_def add_issues_def split: option.split)
  have raw: "op_allow_snippets options = False" using assms(2) by simp
  have eq: "add_policies env ing gen hs b options (route, r) =
      add_snippets env ing (gen @ settings) hs False ?l (add_basic_auth ing ?l (add_backend_tls ing b ?l (route1, step r)))" for r
    by (simp only: add_policies_def Let_def prod.case 1 2 3 4 step_def raw)
  have vhost: "add_upstream_vhost_rewrite env (strip_raw ing) route = add_upstream_vhost_rewrite env ing route"
    by (simp add: add_upstream_vhost_rewrite_def strip_simps)
  have eq': "add_policies env (strip_raw ing) gen hs b options (route, r) =
      add_snippets env (strip_raw ing) (gen @ settings) hs False ?l
        (add_basic_auth (strip_raw ing) ?l (add_backend_tls (strip_raw ing) b ?l (route1, step r)))" for r
    by (simp only: add_policies_def Let_def prod.case strip_policies strip_annotation_functions vhost 1 2 3 4 step_def raw)
  obtain r2 p2 where 5: "add_backend_tls (strip_raw ing) b ?l (route1, step p) = (r2, p2)" by fastforce
  from add_backend_tls_strip [OF s, of ing b ?l route1] obtain q2 where
    6: "add_backend_tls ing b ?l (route1, step q) = (r2, q2)" and s2: "objects p2 = objects q2"
    unfolding 5 by (metis fst_conv snd_conv surj_pair)
  obtain r3 p3 where 7: "add_basic_auth (strip_raw ing) ?l (r2, p2) = (r3, p3)" by fastforce
  from add_basic_auth_strip [OF s2, of ing ?l r2] obtain q3 where
    8: "add_basic_auth ing ?l (r2, q2) = (r3, q3)" and s3: "objects p3 = objects q3"
    unfolding 7 by (metis fst_conv snd_conv surj_pair)
  show "fst (add_policies env (strip_raw ing) gen hs b options (route, p)) = fst (add_policies env ing gen hs b options (route, q))"
    "objects (snd (add_policies env (strip_raw ing) gen hs b options (route, p))) =
     objects (snd (add_policies env ing gen hs b options (route, q)))"
    unfolding eq eq' 5 6 7 8 by (rule add_snippets_strip [OF s3])+
qed

lemma translate_host_strip:
  assumes "objects p = objects q" and "\<not> op_allow_snippets options"
  shows "objects (translate_host env (strip_raw ing) options (cs_by_host (strip_canaries st)) hs b input p) =
    objects (translate_host env ing options (cs_by_host st) hs b input q)"
proof -
  obtain route0 i0 gen where 0: "build_route env ing input options = (route0, i0, gen)" using prod_cases3 by blast
  obtain route1 i1 where 1: "add_canary_rules env (gm_or [] (cs_by_host st) (hi_hostname input)) (route0, []) = (route1, i1)" by fastforce
  let ?is = "i0 @ i1 @ too_many_rules route1"
  have s: "objects (add_issues ?is p) = objects (add_issues ?is q)" using assms(1) by simp
  obtain r2 p2 where 2: "add_policies env (strip_raw ing) gen hs b options (route1, add_issues ?is p) = (r2, p2)" by fastforce
  from add_policies_strip [OF s assms(2), of env ing gen hs b route1] obtain q2 where
    3: "add_policies env ing gen hs b options (route1, add_issues ?is q) = (r2, q2)" and s2: "objects p2 = objects q2"
    unfolding 2 by (metis fst_conv snd_conv surj_pair)
  show ?thesis
    using s2 objects_cong(1) [OF s2]
    by (simp add: translate_host_def strip_simps strip_canaries_of_host strip_canary_rules 0 1 2 3)
qed

text \<open>
  C38. With raw snippets disabled, no byte of a server, configuration or auth snippet reaches a
  generated object: the Ingress without these annotations, its canaries included, is translated to
  the same routes, policies, filters and snippets.
\<close>

theorem raw_snippets_ignored:
  "objects (translate env ing (options\<lparr>op_allow_snippets := False\<rparr>)) =
   objects (translate env (strip_raw ing) (options\<lparr>op_allow_snippets := False\<rparr>))"
proof -
  let ?o = "options\<lparr>op_allow_snippets := False\<rparr>"
  let ?hs = "fst (resolve_auth_proxy_headers env ing)" and ?b = "fst (protocol_settings env ing)"
  let ?st = "collect_canaries ing ?o"
  have fold: "objects (fold (translate_host env (strip_raw ing) ?o (cs_by_host (strip_canaries ?st)) ?hs ?b) inputs p) =
      objects (fold (translate_host env ing ?o (cs_by_host ?st) ?hs ?b) inputs q)" if "objects p = objects q" for inputs p q
    using that
  proof (induction inputs arbitrary: p q)
    case (Cons input inputs)
    have "\<not> op_allow_snippets ?o" by simp
    from Cons.IH [OF translate_host_strip [OF Cons.prems this]] show ?case by simp
  qed simp
  show ?thesis
    unfolding translate_eq strip_headers strip_backend_tls strip_collect strip_collect_canaries
    by (rule fold [symmetric]) simp
qed

subsection \<open>Raw snippets are refused\<close>

lemma no_hosts_fatal:
  assumes "fst (collect_hosts ing options) = []"
  shows "list_ex issue_fatal (snd (collect_hosts ing options))"
proof -
  obtain tls i where t: "input_tls_hosts ing options = (tls, i)" by fastforce
  let ?s = "collect_default ing (fold collect_rule (ing_rules ing) \<lparr>hs_by_host = [], hs_ordered = [], hs_issues = []\<rparr>)"
  have "hs_ordered (host_paths_of ing tls) = []" using assms t by (simp add: collect_hosts_def Let_def)
  then have none: "routed_hostnames ing = {}" using host_paths_of_facts(2) [of ing tls] by simp
  have 0: "paths_ok \<lparr>hs_by_host = [], hs_ordered = [], hs_issues = []\<rparr>" by (simp add: paths_ok_def)
  have "set (hs_ordered ?s) = rule_hostnames ing"
    using fold_collect_rule [OF 0, of "ing_rules ing"] collect_default_facts(2) by (simp add: rule_hostnames_def)
  with none have "hs_ordered ?s = []" by (simp add: routed_hostnames_def)
  then have "list_ex issue_fatal (hs_issues (host_paths_of ing tls))"
    by (simp add: host_paths_of_def collect_aliases_def report_empty_def Let_def)
  then show ?thesis by (simp add: collect_hosts_def t Let_def)
qed

lemma raw_snippet_fatal:
  assumes "k \<in> set raw_annotations" and "trim_space (annotation ing k) \<noteq> []"
  shows "list_ex issue_fatal (snd (build_snippets env ing name gen hs False labels))"
proof -
  have "list_ex issue_fatal (snd (auth_snippet_of ing False)) \<or> list_ex issue_fatal (snd (raw_snippet ing False annServerSnippet)) \<or>
      list_ex issue_fatal (snd (raw_snippet ing False annConfigurationSnippet))"
    using assms by (auto simp: raw_annotations_def auth_snippet_of_def raw_snippet_def Let_def)
  then show ?thesis by (auto simp: build_snippets_def Let_def split_beta)
qed

lemma add_policies_fatal:
  assumes "\<And>name gen labels. list_ex issue_fatal (snd (build_snippets env ing name gen hs (op_allow_snippets options) labels))"
  shows "plan_fatal (snd (add_policies env ing gen hs b options (route, p)))"
proof -
  have snippets: "plan_fatal (snd (add_snippets env ing gen' hs (op_allow_snippets options) labels st))" for gen' labels st
    using assms [of "om_name (hr_meta (fst st))" gen' labels]
    by (cases st) (auto simp: add_snippets_def plan_fatal_def add_issues_def split: prod.split option.split)
  show ?thesis unfolding add_policies_def Let_def prod.case split_beta by (rule snippets)
qed

text \<open>
  With raw snippets disabled an Ingress with a server, configuration or auth snippet is refused.
\<close>

theorem raw_snippets_refused:
  "plan_fatal (translate env ing (options\<lparr>op_allow_snippets := False\<rparr>)) \<or>
   list_all (\<lambda>key. trim_space (annotation ing key) = []) raw_annotations"
proof (rule disjCI)
  let ?o = "options\<lparr>op_allow_snippets := False\<rparr>"
  assume "\<not> list_all (\<lambda>key. trim_space (annotation ing key) = []) raw_annotations"
  then obtain k where k: "k \<in> set raw_annotations" "trim_space (annotation ing k) \<noteq> []" by (auto simp: list_all_iff)
  show "plan_fatal (translate env ing ?o)"
  proof (cases "fst (collect_hosts ing ?o)")
    case Nil
    with no_hosts_fatal show ?thesis by (simp add: translate_eq start_issues_def)
  next
    case (Cons input inputs)
    let ?step = "translate_host env ing ?o (cs_by_host (collect_canaries ing ?o)) (fst (resolve_auth_proxy_headers env ing))
      (fst (protocol_settings env ing))"
    let ?p = "add_issues (start_issues env ing ?o) empty_plan"
    have "plan_fatal (snd (add_policies env ing gen hs b ?o (route, p)))" for gen hs b route p
      using raw_snippet_fatal [OF k] by (intro add_policies_fatal) simp
    then have "plan_fatal (?step input ?p)" by (simp add: translate_host_def plan_fatal_def split_beta split: prod.split)
    then have "plan_fatal (fold ?step inputs (?step input ?p))"
      using fold_translate_host(2) [OF refl, of "?step input ?p"] unfolding plan_fatal_def list_ex_iff by blast
    then show ?thesis by (simp add: translate_eq Cons)
  qed
qed

subsection \<open>A header name that is written as it stands\<close>

text \<open>
  Header names are only checked by \<^verbatim>\<open>validHeaderName\<close>, which looks for blanks, line ends and
  colons; \<^verbatim>\<open>auth-response-headers\<close> therefore writes a semicolon or a brace into the location block,
  raw snippets disabled or not, although every other value of the block is checked for them.
\<close>

lemma unsafe_response_header_written:
  "valid_header_name ''X;deny/**/all'' \<and> nginxUnsafePattern ''X;deny/**/all''"
  "response_header_lines ''X;return'' =
     ''auth_request_set $ngib_auth_x_return $upstream_http_x_return;'' @ newline @ ''proxy_set_header X;return $ngib_auth_x_return;'' @ newline"
  by code_simp+

end
