(* ===== verification/Footprints.thy ===== *)
theory Footprints
  imports Watches Routes
begin

text \<open>
  Whether proxy settings may be policies depends on overlaps between Ingresses, and the controller
  looks for them in the footprints of \<^verbatim>\<open>ingressRouteFootprints\<close>. They have to cover the hostnames and
  paths \<^verbatim>\<open>collectHosts\<close> gives rules to; they do, except for the aliases of an Ingress whose first
  route is its default backend.
\<close>

definition scan_of :: "ingress \<Rightarrow> path_scan" where
  "scan_of ing = fold scan_rule (ing_rules ing) \<lparr>fs_prints = [], fs_first = None, fs_paths = []\<rparr>"

text \<open>The two ways of reading the rules agree.\<close>

definition scans :: "host_paths \<Rightarrow> path_scan \<Rightarrow> bool" where
  "scans st sc \<longleftrightarrow> paths_ok st \<and>
     (\<forall>h. \<forall>p \<in> set (gm_or [] (hs_by_host st) h). footprint h (path_value p) \<in> set (fs_prints sc)) \<and>
     fs_first sc = (case hs_ordered st of [] \<Rightarrow> None | h # _ \<Rightarrow> Some h) \<and>
     (\<forall>h. fs_first sc = Some h \<longrightarrow> path_value ` set (gm_or [] (hs_by_host st) h) \<subseteq> set (fs_paths sc))"

lemma path_value_map: "map (\<lambda>p. if hp_path p = [] then ''/'' else hp_path p) ps = map path_value ps"
  by (simp add: path_value_def [abs_def])

lemma scans_rule:
  assumes "scans st sc"
  shows "scans (collect_rule rule st) (scan_rule rule sc)"
proof (cases "ir_http rule")
  case None
  with assms show ?thesis by (simp add: collect_rule_def scan_rule_def scans_def paths_ok_def)
next
  case (Some ps)
  let ?h = "to_lower (trim_space (ir_host rule))"
  let ?st = "append_paths ?h ps st"
  let ?first = "case fs_first sc of None \<Rightarrow> ?h | Some f \<Rightarrow> f"
  have eqs: "collect_rule rule st = ?st"
    "scan_rule rule sc = \<lparr>fs_prints = fs_prints sc @ map (footprint ?h) (map path_value ps), fs_first = Some ?first,
       fs_paths = fs_paths sc @ (if ?h = ?first then map path_value ps else [])\<rparr>"
    using Some by (simp_all add: collect_rule_def scan_rule_def path_value_map Let_def)
  have ok: "paths_ok st" using assms by (simp add: scans_def)
  have prints: "footprint h (path_value p) \<in> set (fs_prints sc)" if "p \<in> set (gm_or [] (hs_by_host st) h)" for h p
    using assms that by (simp add: scans_def)
  have okay: "paths_ok ?st" using append_paths_facts(1) [OF ok] .
  have covers: "footprint h (path_value p) \<in> set (fs_prints (scan_rule rule sc))" if "p \<in> set (gm_or [] (hs_by_host ?st) h)" for h p
    using that prints by (auto simp: eqs gm_or_append_paths split: if_splits)
  have first: "Some ?first = (case hs_ordered ?st of [] \<Rightarrow> None | h # _ \<Rightarrow> Some h)"
  proof (cases "hs_ordered st")
    case Nil
    then have "\<not> gm_has (hs_by_host st) ?h" using paths_ok_has [OF ok] by simp
    with Nil assms show ?thesis by (simp add: ordered_append_paths scans_def del: not_None_eq)
  next
    case (Cons f fs)
    with assms show ?thesis by (simp add: ordered_append_paths scans_def)
  qed
  have paths: "path_value ` set (gm_or [] (hs_by_host ?st) ?first) \<subseteq> set (fs_paths (scan_rule rule sc))"
  proof (cases "fs_first sc")
    case None
    then have "hs_ordered st = []" using assms by (auto simp: scans_def split: list.splits)
    then have "gm_or [] (hs_by_host st) ?h = []" using paths_ok_has [OF ok, of ?h] by (simp add: gm_or_def)
    with None show ?thesis by (simp add: eqs gm_or_append_paths)
  next
    case (Some f)
    then have "path_value ` set (gm_or [] (hs_by_host st) f) \<subseteq> set (fs_paths sc)" using assms by (simp add: scans_def)
    with Some show ?thesis by (auto simp: eqs gm_or_append_paths)
  qed
  have "fs_first (scan_rule rule sc) = Some ?first" by (simp add: eqs(2))
  then show ?thesis unfolding scans_def eqs(1) using okay covers first paths by (metis option.inject)
qed

lemma scans_rules: "scans st sc \<Longrightarrow> scans (fold collect_rule rules st) (fold scan_rule rules sc)"
  by (induction rules arbitrary: st sc) (simp_all add: scans_rule)

text \<open>The aliases follow a rule: the first route of the Ingress is not its default backend.\<close>

definition aliases_follow_rules :: "ingress \<Rightarrow> bool" where
  "aliases_follow_rules ing \<longleftrightarrow> ing_default_backend ing = None \<or> alias_hosts ing = [] \<or>
     (case fs_first (scan_of ing) of None \<Rightarrow> False | Some h \<Rightarrow> h \<noteq> [])"

lemma prints_of: "set (ingress_route_footprints ing) =
    set (fs_prints (scan_of ing)) \<union> (if ing_default_backend ing = None then {} else {footprint [] ''/''}) \<union>
    {footprint a p | a p. a \<in> set (alias_hosts ing) \<and> p \<in> set (fs_paths (scan_of ing))}"
  by (auto simp: ingress_route_footprints_def scan_of_def Let_def split: option.split)

lemma alias_hosts_csv: "set (alias_hosts ing) = to_lower ` set (split_csv (annotation ing annServerAlias))"
  by (auto simp: alias_hosts_def split_csv_set to_lower_def)

definition covered :: "ingress \<Rightarrow> host_paths \<Rightarrow> bool" where
  "covered ing st \<longleftrightarrow> (\<forall>h. \<forall>p \<in> set (gm_or [] (hs_by_host st) h). footprint h (path_value p) \<in> set (ingress_route_footprints ing))"

lemma covered_alias:
  assumes "covered ing st" and "to_lower a \<in> set (alias_hosts ing)" and "path_value ` set base \<subseteq> set (fs_paths (scan_of ing))"
  shows "covered ing (collect_alias ing tls base a st)"
proof -
  have "footprint (to_lower a) (path_value p) \<in> set (ingress_route_footprints ing)" if "p \<in> set base" for p
    using assms(2,3) that unfolding prints_of by blast
  with assms(1) show ?thesis by (simp add: covered_def collect_alias_def gomap_simps Let_def)
qed

lemma covered_aliases:
  assumes "covered ing st" and "to_lower ` set as \<subseteq> set (alias_hosts ing)" and "path_value ` set base \<subseteq> set (fs_paths (scan_of ing))"
  shows "covered ing (fold (collect_alias ing tls base) as st)"
  using assms by (induction as arbitrary: st) (auto simp: covered_alias)

lemma covered_host_paths:
  assumes "aliases_follow_rules ing"
  shows "covered ing (host_paths_of ing tls)"
proof -
  let ?s0 = "\<lparr>hs_by_host = [], hs_ordered = [], hs_issues = []\<rparr>"
  let ?s1 = "fold collect_rule (ing_rules ing) ?s0"
  let ?s2 = "report_empty (collect_default ing ?s1)"
  have "scans ?s0 \<lparr>fs_prints = [], fs_first = None, fs_paths = []\<rparr>" by (simp add: scans_def paths_ok_def)
  then have s1: "scans ?s1 (scan_of ing)" unfolding scan_of_def by (rule scans_rules)
  have c2: "covered ing ?s2"
  proof (cases "ing_default_backend ing")
    case None
    then show ?thesis using s1 unfolding covered_def prints_of by (simp add: collect_default_def scans_def)
  next
    case (Some b)
    let ?p = "\<lparr>hp_path = ''/'', hp_type = Some PathTypePrefix, hp_backend = b\<rparr>"
    have "path_value ?p = ''/''" by (simp add: path_value_def)
    then have "footprint [] (path_value ?p) \<in> set (ingress_route_footprints ing)" using Some unfolding prints_of by simp
    moreover have "footprint h (path_value p) \<in> set (ingress_route_footprints ing)" if "p \<in> set (gm_or [] (hs_by_host ?s1) h)" for h p
      using s1 that unfolding prints_of scans_def by blast
    ultimately show ?thesis using Some by (auto simp: covered_def collect_default_def gm_or_append_paths)
  qed
  show ?thesis
  proof (cases "split_csv (annotation ing annServerAlias) = [] \<or> hs_ordered ?s2 = []")
    case True
    then show ?thesis using c2 by (auto simp: host_paths_of_def collect_aliases_def covered_def Let_def)
  next
    case False
    then obtain f fs where f: "hs_ordered ?s2 = f # fs" by (cases "hs_ordered ?s2") auto
    have "alias_hosts ing \<noteq> []" using False alias_hosts_csv [of ing] by auto
    then have dis: "ing_default_backend ing = None \<or> (\<exists>h. fs_first (scan_of ing) = Some h \<and> h \<noteq> [])"
      using assms by (auto simp: aliases_follow_rules_def split: option.splits)
    have first: "fs_first (scan_of ing) = Some f"
    proof (cases "hs_ordered ?s1")
      case Nil
      then have "fs_first (scan_of ing) = None" using s1 by (simp add: scans_def)
      with dis have "ing_default_backend ing = None" by simp
      with f Nil show ?thesis by (simp add: collect_default_def)
    next
      case (Cons g gs)
      then have "fs_first (scan_of ing) = Some g" using s1 by (simp add: scans_def)
      moreover have "g = f" using f Cons by (auto simp: collect_default_def ordered_append_paths split: option.splits)
      ultimately show ?thesis by simp
    qed
    have "gm_or [] (hs_by_host ?s2) f = gm_or [] (hs_by_host ?s1) f"
      using dis first by (auto simp: collect_default_def gm_or_append_paths split: option.split)
    then have base: "path_value ` set (gm_or [] (hs_by_host ?s2) f) \<subseteq> set (fs_paths (scan_of ing))"
      using s1 first by (simp add: scans_def)
    have "host_paths_of ing tls = fold (collect_alias ing tls (gm_or [] (hs_by_host ?s2) f)) (split_csv (annotation ing annServerAlias)) ?s2"
      using False f by (simp add: host_paths_of_def collect_aliases_def Let_def)
    then show ?thesis using covered_aliases [OF c2 _ base] alias_hosts_csv [of ing] by simp
  qed
qed


definition sample_alias :: ingress where
  "sample_alias = (sample_route ''web'' 1 [(annServerAlias, ''b.example'')])"

definition route_options :: options where
  "route_options = \<lparr>op_gateway = \<lparr>go_namespace = ''gw'', go_name = ''main'', go_http_section = ''http'', go_https_section = ''https'',
      go_tls_sections = [], go_managed = True\<rparr>, op_tls_hosts = Some [], op_allow_snippets = False, op_strict = True,
      op_settings_as_snippets = False, op_canaries = []\<rparr>"


text \<open>
  The exception is real: an alias of an Ingress with a default backend and no rule gets a route for
  the path \<^verbatim>\<open>/\<close> that is missing from the footprints, so an overlap with it goes unnoticed.
\<close>

definition sample_default :: ingress where
  "sample_default = sample_alias\<lparr>ing_rules := [], ing_default_backend := Some \<lparr>be_service = None\<rparr>\<rparr>"

lemma default_alias_footprint_missing:
  "map hi_hostname (fst (collect_hosts sample_default route_options)) = [[], ''b.example'']"
  "ingress_route_footprints sample_default = [footprint [] ''/'']"
  by code_simp+

end
