(* ===== verification/SetChanges.thy ===== *)
theory SetChanges
  imports ReadyMeaning
begin

text \<open>
  \<^verbatim>\<open>listenerSetChanged\<close> of \<^verbatim>\<open>internal/controller/managed_gateway.go\<close>: which updates of a ListenerSet
  are acted on. A condition comes with its type and its transition time.
\<close>

record set_object =
  so_generation :: int
  so_labels :: strmap
  so_conditions :: "(string \<times> condition \<times> int) list"

text \<open>Equality of two label maps, whatever the order of their entries.\<close>

definition same_labels :: "strmap \<Rightarrow> strmap \<Rightarrow> bool" where
  "same_labels a b = list_all (\<lambda>key. gm_get a key = gm_get b key) (gm_keys a @ gm_keys b)"

text \<open>An object of another type is \<^theory_text>\<open>None\<close>.\<close>

definition listener_set_changed :: "set_object option \<Rightarrow> set_object option \<Rightarrow> bool" where
  "listener_set_changed oldObject newObject =
     (case oldObject of
        None \<Rightarrow> True
      | Some old \<Rightarrow>
          (case newObject of
             None \<Rightarrow> True
           | Some new \<Rightarrow>
               if so_generation old \<noteq> so_generation new then True
               else if \<not> same_labels (so_labels old) (so_labels new) then True
               else so_conditions old \<noteq> so_conditions new))"

lemma same_labels_iff: "same_labels a b \<longleftrightarrow> gm_get a = gm_get b"
proof
  assume same: "same_labels a b"
  show "gm_get a = gm_get b"
  proof
    fix key
    show "gm_get a key = gm_get b key"
    proof (cases "key \<in> set (gm_keys a @ gm_keys b)")
      case True
      with same show ?thesis by (simp add: same_labels_def list_all_iff)
    next
      case False
      then have "gm_get a key = None" "gm_get b key = None" by (simp_all add: map_of_eq_None_iff)
      then show ?thesis by simp
    qed
  qed
qed (simp add: same_labels_def list_all_iff)

definition observed_set :: "set_object \<Rightarrow> conditions observed" where
  "observed_set s = \<lparr>ob_generation = so_generation s, ob_status = map (\<lambda>(type', condition, time). (type', condition)) (so_conditions s)\<rparr>"

text \<open>
  An update that is ignored could not have changed anything: the labels that decide whose ListenerSet
  it is and every readiness check of the ListenerSet are the same before and after.
\<close>

lemma ignored_update_changes_no_check:
  assumes "\<not> listener_set_changed (Some old) (Some new)"
  shows "gm_get (so_labels old) = gm_get (so_labels new)"
    and "set_condition_check name (observed_set old) conditionType = set_condition_check name (observed_set new) conditionType"
  using assms by (simp_all add: listener_set_changed_def observed_set_def same_labels_iff split: if_splits)

end
