(* ===== verification/Spec2Isabelle.thy ===== *)
theory Spec2Isabelle
  imports Steady Wiring Dependencies CertificateLife RawSnippets Footprints SetChanges
begin

text \<open>
  A model of the ingress-nginx to Gateway API bridge and of what its plans and reconciliations
  guarantee.

  The program watches Ingresses and keeps three things in step with them: one managed Gateway with
  its ListenerSets and certificate grants, the routes, policies and filters of every Ingress, and an
  IngressTranslation with the result. Its parts are the translator (\<^verbatim>\<open>internal/translator\<close>), pure
  functions from Ingresses to plans, and the controller (\<^verbatim>\<open>internal/controller\<close>), which reads the
  cluster, asks the translator for plans and applies them. The two plans meet in \<^verbatim>\<open>TLSHosts\<close> and
  \<^verbatim>\<open>TLSSections\<close>, the hostnames of the managed Gateway and the listener of each, which the
  translation of an Ingress takes as options.

  Conventions. A definition carries the name of the function or type it models, in lower case with
  underscores where the source has camel case. A struct is a record, an enumeration or a choice of
  objects a datatype, an error the left side of a sum, a nil pointer or a missing object
  \<^theory_text>\<open>None\<close>. A Go map is an association list with distinct keys whose order stands for the iteration
  order, which Go leaves open; where the code ranges over a map without sorting, theorems speak of
  the sets. \<^verbatim>\<open>sort.Slice\<close> is a sort by the comparison function of the code. Strings are bytes, with
  the case folding and white space of ASCII (theory GoText says so in detail).

  Theories and the code they model.

  \<^item> Prelude, GoText, Strconv, Sha256, Netip: Go maps, sorting, and the functions of \<^verbatim>\<open>strings\<close>,
    \<^verbatim>\<open>strconv\<close>, \<^verbatim>\<open>fmt\<close>, \<^verbatim>\<open>net/http\<close>, \<^verbatim>\<open>crypto/sha256\<close> and \<^verbatim>\<open>net/netip\<close> the program calls.
  \<^item> Naming, KubeTypes, Types, Annotations, Certificates: \<^verbatim>\<open>naming.go\<close>, the parts of the Kubernetes,
    Gateway API and NGINX Gateway Fabric types the program reads and writes, \<^verbatim>\<open>types.go\<close>,
    \<^verbatim>\<open>annotations.go\<close> and \<^verbatim>\<open>certificates.go\<close> of the translator.
  \<^item> TlsHosts, Placement, Wildcard, Gateway: the declared TLS hostnames, the placement of listeners on
    the Gateway and its ListenerSets, the collapse of hostnames into wildcard listeners and
    \<^verbatim>\<open>BuildManagedGateway\<close> (\<^verbatim>\<open>gateway.go\<close>). Projection, Declarations, Emission, ManagedPlan,
    Replanning and Determinism prove what a plan promises: every declared hostname is served or
    reported, listeners are unique and within capacity, grants admit exactly what is referenced,
    placements are sticky, replanning is a fixpoint and no order of a list or a map matters.
  \<^item> Checks, Routes, BackendTls, Policies, Translate: \<^verbatim>\<open>translate.go\<close>, from the annotations that are
    only accepted or refused to the routes, policies and snippets of an Ingress. Translated, Routing,
    ProxySettings and RawSnippets prove what comes out: the routes one by one, the bounds on rules,
    that a plan without fatal issues passed every check, that its routes send every request to
    exactly the backends the Ingresses declare (against a semantics of the matches of HTTPRoute), that
    the two ways of writing proxy settings agree, and that disabled snippets reach no generated object.
  \<^item> Config, Observed, Canary, Setup: \<^verbatim>\<open>config.go\<close>, the placements read back from the cluster
    (\<^verbatim>\<open>managed_gateway.go\<close>), \<^verbatim>\<open>canary.go\<close>, and the configuration \<^verbatim>\<open>cmd/main.go\<close> starts with.
  \<^item> Watches, SetChanges, Footprints: the functions from a changed object to the Ingresses it wakes up,
    the updates of a ListenerSet that are ignored, the push of Ingresses whose listener moved, and the
    footprints by which overlapping Ingresses are found. Wiring has the watches of
    \<^verbatim>\<open>SetupWithManager\<close>, the cache of Secrets and \<^verbatim>\<open>main\<close>, and proves that everything written is
    watched; Dependencies proves that a change nobody is woken up for changes no translation.
  \<^item> CertificateCache: \<^verbatim>\<open>certificates.go\<close> of the controller, the projection of Secrets in the informer
    cache, the snapshot the plans use and the events that invalidate it; CertificateLife follows the
    snapshot through changes of Ingresses and Secrets.
  \<^item> Readiness, ReadyMeaning: \<^verbatim>\<open>status.go\<close>, the checks behind the Ready condition, the status and
    label of an IngressTranslation and the mirrored addresses, and what they mean.
  \<^item> Cluster, ManagedReconcile, Reconcile: the calls to the API server, \<^verbatim>\<open>apply\<close>, pruning,
    \<^verbatim>\<open>reconcileManagedGateway\<close> and \<^verbatim>\<open>Reconcile\<close> (\<^verbatim>\<open>ingress_controller.go\<close>), as actions on a state that
    holds the log of the calls and the fields of \<^verbatim>\<open>IngressReconciler\<close>.
  \<^item> Traces, ReconcileSafety, ReconcileEffects, ReconcileProgress: rules over the log of calls and what
    follows for every request: nothing unmanaged is overwritten, only listed objects are deleted, new
    objects come before old ones go, a finalizer is given up last, and only the API server can make a
    request fail. Outcome composes them into what a served request leaves behind; Store gives the
    objects of the cluster after it, as a refinement of an update of the store.
  \<^item> Memory, Settled, Life: what the reconciler remembers between requests, and the reconciler as a
    state machine over sequences of requests; a plan that serves every hostname stays in place. Steady
    adds the store: in a cluster that holds still, serving a request twice is serving it once.
  \<^item> Attachment and this theory: the plans of the Gateway and of an Ingress together.

  Interfaces. Go maps are the locale \<^theory_text>\<open>finite_map\<close>, comparison functions \<^theory_text>\<open>slice_order\<close> and
  \<^theory_text>\<open>key_order\<close>, a placement pass \<^theory_text>\<open>placer\<close>, a finished placement \<^theory_text>\<open>placement_of\<close>, a rule over
  the calls of a reconciliation \<^theory_text>\<open>read_rule\<close> and \<^theory_text>\<open>reconcile_rule\<close>, a condition on what the
  reconciler remembers \<^theory_text>\<open>memory_rule\<close> and \<^theory_text>\<open>memory_reconcile\<close>. Each is interpreted on the
  definitions of the model.

  Parameters. The parsers of certificates, JSON and URLs, the check of DNS names and the answers of
  the API server are arguments. The answers are functions of the calls made so far, so other clients
  may change the cluster at every step and any call may fail; several reads of one check or one
  translation share one answer. Store restricts them to a server that only the bridge writes to and
  whose lists return what is there. Of the object a patch returns, the model keeps what the code reads.

  Termination. Loops over lists are structural recursion. The unbounded search for a ListenerSet with
  room and the loop of the IPv6 parser are functions with a measure; the search is also written as a
  \<^theory_text>\<open>partial_function\<close> that is proved to return. Nothing runs on fuel.

  Not modelled: transition times and owner references, which no decision of the code reads (the
  refusal of \<^verbatim>\<open>SetControllerReference\<close> is); how controller-runtime finds the owner of an object,
  retries a request and orders its queue; health checks, metrics and logging; the registration of the
  API group and the generated deep copies.
\<close>

subsection \<open>Routes and listeners\<close>

text \<open>
  C1. The two plans fit together: with the configuration the process starts with, every parent of
  every route generated for an Ingress is a listener of the managed plan, the object, the namespace
  and the section included, and that listener takes the hostname of the route. ListenerSets have to
  be available or every declared hostname to be served.
\<close>

theorem generated_routes_attach:
  assumes "start_config flags classes answer = Some c"
    and "cf_sets_available c \<or> all_served (build_managed_gateway ings (managed_options_of c certs ps))"
  shows "list_all (route_attaches c (build_managed_gateway ings (managed_options_of c certs ps)))
    (map route_core (pl_routes (translate env ing
      (ingress_options c (build_managed_gateway ings (managed_options_of c certs ps)) canaries settings))))"
proof -
  have "all_served (build_managed_gateway ings (managed_options_of c certs ps))"
    using assms(2) overflow_serves_all [of "managed_options_of c certs ps" ings] by fastforce
  then show ?thesis
    using start_config_named [OF assms(1)] by (intro translated_routes_attach) simp_all
qed

theorem generated_routes_attach_witness:
  "\<exists>c. start_config default_flags default_classes MappingFound = Some c \<and>
     list_all (route_attaches c (build_managed_gateway [sample_route ''web'' 1 []] (managed_options_of c None [])))
       (map route_core (pl_routes (translate (api_env sample_api) (sample_route ''web'' 1 [])
         (ingress_options c (build_managed_gateway [sample_route ''web'' 1 []] (managed_options_of c None [])) [] False))))"
proof -
  obtain c where c: "start_config default_flags default_classes MappingFound = Some c" "cf_sets_available c"
    by (simp add: start_config_def default_flags_def)
  from generated_routes_attach [OF c(1)] c show ?thesis by blast
qed

end
